(* ===== verification/Prelude.thy ===== *)
theory Prelude imports Complex_Main "HOL-Library.Multiset" "HOL-Library.Word" "HOL-Library.Sublist" begin

text \<open>
  The shared layer of the development: named theorem collections, the identifiers and instants
  every component uses, and the generic facts about lists, stable descending sorts and
  list-backed keyed tables on which the SQL translations rest.

  A table with a primary key is a list of rows in physical order. The locale
  \<open>keyed_table\<close> is the interface every such table offers to the operations that upsert into
  it; the schema theory interprets it for each table of the migrations.
\<close>

named_theorems db_simps \<open>unfolding rules of the statement combinators\<close>
named_theorems frame \<open>which parts of the database an operation leaves alone\<close>
named_theorems inv_intros \<open>preservation of the schema invariant\<close>

section \<open>Logic\<close>

lemma exI3: "P a b c \<Longrightarrow> \<exists>x y z. P x y z"
  by blast

section \<open>Identifiers and instants\<close>

text \<open>
  \<open>uuid.UUID\<close> is an array of 16 bytes; \<open>uuid.Nil\<close> is the zero array. Instants
  are nanoseconds since the Unix epoch, the resolution of Go's \<open>time.Time\<close>.
\<close>

type_synonym uuid = "128 word"
type_synonym instant = int

abbreviation uuid_nil :: uuid where "uuid_nil \<equiv> 0"

section \<open>Results\<close>

text \<open>Sequencing of results, and a conversion applied under a nullable column.\<close>

definition bind_ok :: "'e + 'a \<Rightarrow> ('a \<Rightarrow> 'e + 'b) \<Rightarrow> 'e + 'b" where
  "bind_ok r f = (case r of Inl e \<Rightarrow> Inl e | Inr v \<Rightarrow> f v)"

definition opt_ok :: "('a \<Rightarrow> 'e + 'b) \<Rightarrow> 'a option \<Rightarrow> 'e + 'b option" where
  "opt_ok f x = (case x of None \<Rightarrow> Inr None | Some v \<Rightarrow> bind_ok (f v) (\<lambda>w. Inr (Some w)))"

lemma bind_ok_simps [simp]:
  "bind_ok (Inl e) f = Inl e" "bind_ok (Inr v) f = f v"
  by (simp_all add: bind_ok_def)

lemma bind_ok_Inr_iff: "bind_ok r f = Inr w \<longleftrightarrow> (\<exists>v. r = Inr v \<and> f v = Inr w)"
  by (cases r) auto

lemma bind_ok_Inl_iff: "bind_ok r f = Inl e \<longleftrightarrow> r = Inl e \<or> (\<exists>v. r = Inr v \<and> f v = Inl e)"
  by (cases r) auto

lemma opt_ok_simps [simp]:
  "opt_ok f None = Inr None"
  "opt_ok f (Some v) = bind_ok (f v) (\<lambda>w. Inr (Some w))"
  by (simp_all add: opt_ok_def)

lemma opt_ok_Inr_None: "opt_ok f x = Inr None \<longleftrightarrow> x = None"
  by (cases x) (auto simp: bind_ok_Inr_iff)

lemma opt_ok_Inr_Some: "opt_ok f x = Inr (Some w) \<longleftrightarrow> (\<exists>v. x = Some v \<and> f v = Inr w)"
  by (cases x) (auto simp: bind_ok_Inr_iff)

section \<open>Stable sorting in descending order\<close>

definition sort_desc :: "('a \<Rightarrow> 'k::linorder) \<Rightarrow> 'a list \<Rightarrow> 'a list" where
  "sort_desc k xs = rev (sort_key k (rev xs))"

lemma mset_sort_desc [simp]: "mset (sort_desc k xs) = mset xs"
  by (simp add: sort_desc_def)

lemma set_sort_desc [simp]: "set (sort_desc k xs) = set xs"
  by (simp add: sort_desc_def)

lemma length_sort_desc [simp]: "length (sort_desc k xs) = length xs"
  by (simp add: sort_desc_def)

lemma sort_desc_Nil_iff [simp]: "sort_desc k xs = [] \<longleftrightarrow> xs = []"
  using length_sort_desc [of k xs] by (metis length_0_conv)

lemma sorted_rev_sort_desc: "sorted (rev (map k (sort_desc k xs)))"
  by (simp add: sort_desc_def rev_map)

lemma sorted_wrt_sort_desc: "sorted_wrt (\<lambda>a b. k b \<le> k a) (sort_desc k xs)"
proof -
  have "sorted_wrt (\<lambda>a b. k a \<le> k b) (sort_key k (rev xs))"
    using sorted_sort_key [of k "rev xs"] by (simp only: sorted_map)
  then show ?thesis by (simp only: sort_desc_def sorted_wrt_rev)
qed

lemma sort_desc_take_drop:
  assumes "a \<in> set (take n (sort_desc k xs))" and "b \<in> set (drop n (sort_desc k xs))"
  shows "k b \<le> k a"
proof -
  let ?s = "sort_desc k xs"
  have "sorted_wrt (\<lambda>a b. k b \<le> k a) (take n ?s @ drop n ?s)"
    by (simp add: sorted_wrt_sort_desc)
  with assms show ?thesis by (simp only: sorted_wrt_append)
qed

lemma sort_desc_hd_max:
  assumes "sort_desc k xs = y # ys" and "b \<in> set xs"
  shows "k b \<le> k y"
proof -
  have "sorted_wrt (\<lambda>a b. k b \<le> k a) (y # ys)"
    using sorted_wrt_sort_desc [of k xs] by (simp only: assms(1))
  moreover have "b \<in> set (y # ys)"
    using assms by (metis set_sort_desc)
  ultimately show ?thesis by auto
qed

lemma sort_desc_hd_mem: "sort_desc k xs = y # ys \<Longrightarrow> y \<in> set xs"
  by (metis list.set_intros(1) set_sort_desc)

text \<open>The keys a descending sort yields depend on the multiset of rows alone, not on their order.\<close>

lemma sort_desc_keys_perm:
  assumes "mset xs = mset ys"
  shows "map k (sort_desc k xs) = map k (sort_desc k ys)"
proof -
  have "map k (sort_key k (rev xs)) = map k (sort_key k (rev ys))"
  proof (rule trans [OF _ sym])
    show "map k (sort_key k (rev xs)) = sort (map k xs)"
      by (rule properties_for_sort [symmetric]) simp_all
    show "map k (sort_key k (rev ys)) = sort (map k xs)"
      by (rule properties_for_sort [symmetric]) (simp_all add: assms)
  qed
  then show ?thesis by (simp add: sort_desc_def rev_map [symmetric])
qed

lemma in_map_filter: "x \<in> set (List.map_filter f xs) \<longleftrightarrow> (\<exists>y \<in> set xs. f y = Some x)"
  by (induction xs) (auto simp: List.map_filter_simps split: option.splits)

section \<open>Counting rows\<close>

text \<open>\<open>COUNT( * ) ... WHERE p\<close> over a table.\<close>

definition count_rows :: "('a \<Rightarrow> bool) \<Rightarrow> 'a list \<Rightarrow> int" where
  "count_rows p rows = int (length (filter p rows))"

lemma count_rows_simps [simp]:
  "count_rows p [] = 0"
  "count_rows p (r # rs) = (if p r then 1 else 0) + count_rows p rs"
  "count_rows p (xs @ ys) = count_rows p xs + count_rows p ys"
  by (simp_all add: count_rows_def)

lemma count_rows_nonneg [simp]: "0 \<le> count_rows p rows"
  by (simp add: count_rows_def)

lemma count_rows_le_length: "count_rows p rows \<le> int (length rows)"
  by (simp add: count_rows_def)

lemma count_rows_mono:
  assumes "\<And>r. r \<in> set rows \<Longrightarrow> p r \<Longrightarrow> q r"
  shows "count_rows p rows \<le> count_rows q rows"
  using assms by (induction rows) auto

lemma count_rows_pos_iff: "0 < count_rows p rows \<longleftrightarrow> (\<exists>r \<in> set rows. p r)"
  by (auto simp: count_rows_def filter_empty_conv length_greater_0_conv [symmetric] simp del: length_greater_0_conv)

lemma count_rows_eq_0_iff: "count_rows p rows = 0 \<longleftrightarrow> (\<forall>r \<in> set rows. \<not> p r)"
  by (auto simp: count_rows_def filter_empty_conv)

lemma count_rows_cong:
  "(\<And>r. r \<in> set rows \<Longrightarrow> p r = q r) \<Longrightarrow> count_rows p rows = count_rows q rows"
  by (simp add: count_rows_def cong: filter_cong)

section \<open>Keyed tables\<close>

text \<open>
  \<open>tbl_upsert\<close> is \<open>INSERT ... ON CONFLICT (key) DO UPDATE\<close>: the new row is appended when no
  row has the key, otherwise that row is updated where it stands.
\<close>

definition tbl_lookup :: "('r \<Rightarrow> 'k) \<Rightarrow> 'k \<Rightarrow> 'r list \<Rightarrow> 'r option" where
  "tbl_lookup key k rows = find (\<lambda>r. key r = k) rows"

fun tbl_upsert :: "('r \<Rightarrow> 'k) \<Rightarrow> 'k \<Rightarrow> 'r \<Rightarrow> ('r \<Rightarrow> 'r) \<Rightarrow> 'r list \<Rightarrow> 'r list" where
  "tbl_upsert key k new upd [] = [new]"
| "tbl_upsert key k new upd (r # rs) =
     (if key r = k then upd r # rs else r # tbl_upsert key k new upd rs)"

definition keeps_key :: "('r \<Rightarrow> 'k) \<Rightarrow> 'k \<Rightarrow> 'r \<Rightarrow> ('r \<Rightarrow> 'r) \<Rightarrow> bool" where
  "keeps_key key k new upd \<longleftrightarrow> key new = k \<and> (\<forall>r. key r = k \<longrightarrow> key (upd r) = k)"

lemma tbl_lookup_simps [simp]:
  "tbl_lookup key k [] = None"
  "tbl_lookup key k (r # rs) = (if key r = k then Some r else tbl_lookup key k rs)"
  by (simp_all add: tbl_lookup_def)

lemma tbl_lookup_key: "tbl_lookup key k rows = Some r \<Longrightarrow> key r = k \<and> r \<in> set rows"
  by (induction rows) (auto split: if_splits)

lemma tbl_lookup_None_iff: "tbl_lookup key k rows = None \<longleftrightarrow> k \<notin> key ` set rows"
  by (induction rows) auto

lemma tbl_lookup_append:
  "tbl_lookup key k (xs @ ys) =
     (case tbl_lookup key k xs of None \<Rightarrow> tbl_lookup key k ys | Some r \<Rightarrow> Some r)"
  by (induction xs) auto

lemma tbl_lookup_map:
  "(\<And>r. key (f r) = key r) \<Longrightarrow> tbl_lookup key k (map f rows) = map_option f (tbl_lookup key k rows)"
  by (induction rows) auto

lemma tbl_lookup_distinct:
  "distinct (map key rows) \<Longrightarrow> r \<in> set rows \<Longrightarrow> tbl_lookup key (key r) rows = Some r"
  by (induction rows) (auto simp: rev_image_eqI)

lemma tbl_upsert_keys:
  "keeps_key key k new upd \<Longrightarrow>
   map key (tbl_upsert key k new upd rows) =
     (if k \<in> key ` set rows then map key rows else map key rows @ [k])"
  by (induction rows) (auto simp: keeps_key_def)

locale keyed_table =
  fixes lookup :: "'k \<Rightarrow> 't \<Rightarrow> 'r option"
    and upsert :: "'k \<Rightarrow> 'r \<Rightarrow> ('r \<Rightarrow> 'r) \<Rightarrow> 't \<Rightarrow> 't"
    and fits :: "'k \<Rightarrow> 'r \<Rightarrow> ('r \<Rightarrow> 'r) \<Rightarrow> bool"
    and invar :: "'t \<Rightarrow> bool"
  assumes lookup_same: "fits k new upd \<Longrightarrow>
      lookup k (upsert k new upd t) =
        Some (case lookup k t of None \<Rightarrow> new | Some r \<Rightarrow> upd r)"
    and lookup_other: "fits k new upd \<Longrightarrow> k' \<noteq> k \<Longrightarrow>
      lookup k' (upsert k new upd t) = lookup k' t"
    and invar_upsert: "fits k new upd \<Longrightarrow> invar t \<Longrightarrow> invar (upsert k new upd t)"
begin

lemma lookup_upsert:
  "fits k new upd \<Longrightarrow>
   lookup k' (upsert k new upd t) =
     (if k' = k then Some (case lookup k t of None \<Rightarrow> new | Some r \<Rightarrow> upd r) else lookup k' t)"
  by (simp add: lookup_same lookup_other)

text \<open>Repeating an upsert inserts once and then updates.\<close>

lemma lookup_repeat:
  assumes "fits k new upd"
  shows "lookup k (((upsert k new upd) ^^ Suc n) t) =
     Some ((upd ^^ n) (case lookup k t of None \<Rightarrow> new | Some r \<Rightarrow> upd r))"
proof (induction n)
  case 0
  then show ?case using assms by (simp add: lookup_same)
next
  case (Suc n)
  have "((upsert k new upd) ^^ Suc (Suc n)) t = upsert k new upd (((upsert k new upd) ^^ Suc n) t)"
    by simp
  then show ?case using Suc assms by (simp add: lookup_same del: funpow.simps(2)) simp
qed

lemma lookup_repeat_other:
  "fits k new upd \<Longrightarrow> k' \<noteq> k \<Longrightarrow> lookup k' (((upsert k new upd) ^^ n) t) = lookup k' t"
  by (induction n) (simp_all add: lookup_other)

end

lemma keyed_table_list:
  "keyed_table (tbl_lookup key) (tbl_upsert key) (keeps_key key) (\<lambda>t. distinct (map key t))"
proof
  fix k new upd t
  assume fits: "keeps_key key k new upd"
  show "tbl_lookup key k (tbl_upsert key k new upd t) =
          Some (case tbl_lookup key k t of None \<Rightarrow> new | Some r \<Rightarrow> upd r)"
    using fits by (induction t) (auto simp: keeps_key_def)
  show "tbl_lookup key k' (tbl_upsert key k new upd t) = tbl_lookup key k' t" if "k' \<noteq> k" for k'
    using fits that by (induction t) (auto simp: keeps_key_def)
  show "distinct (map key (tbl_upsert key k new upd t))" if "distinct (map key t)"
    using fits that by (auto simp: tbl_upsert_keys)
qed

end
