(* ===== verification/Go_Float.thy ===== *)
theory Go_Float imports Prelude "HOL-Library.Log_Nat" begin

text \<open>
  Go's \<open>float64\<close> arithmetic as the price computation of \<open>internal/trades/repo.go\<close> uses it.
  A finite value is a rational; \<open>fl\<close> rounds a rational to the nearest double (53 significant
  bits, quantum at least \<open>2^-1074\<close>, ties to even). Signed zeros are identified: no operation
  of the code can tell them apart.

  Two things the language leaves to the platform are fields of \<open>go_arch\<close>: whether
  \<open>x*y + z\<close> is fused into one rounding, and the result of converting a float outside the
  range of \<open>int64\<close>.

  The locale \<open>rounding\<close> is what sign arguments need of a rounding; it is interpreted on \<open>fl\<close>.
\<close>

section \<open>Rounding a rational to a double\<close>

definition ilog2 :: "rat \<Rightarrow> int" where
  "ilog2 x = (case quotient_of x of (n, d) \<Rightarrow>
     (let k = bitlen n - bitlen d in if 2 powi k \<le> x then k else k - 1))"

definition rne :: "rat \<Rightarrow> int" where
  "rne x = (let f = \<lfloor>x\<rfloor>; r = x - of_int f
            in if r < 1/2 then f else if 1/2 < r then f + 1 else if even f then f else f + 1)"

definition quantum_exp :: "rat \<Rightarrow> int" where
  "quantum_exp x = max (ilog2 \<bar>x\<bar> - 52) (-1074)"

definition fl :: "rat \<Rightarrow> rat" where
  "fl x = (if x = 0 then 0
           else of_int (rne (x / 2 powi quantum_exp x)) * 2 powi quantum_exp x)"

lemma ilog2_bounds:
  assumes "0 < x"
  shows "2 powi ilog2 x \<le> x" and "x < 2 powi (ilog2 x + 1)"
proof -
  obtain n d where q: "quotient_of x = (n, d)" by fastforce
  from q have d: "0 < d" by (rule quotient_of_denom_pos)
  from q have x: "x = of_int n / of_int d" by (rule quotient_of_div)
  with assms d have n: "0 < n" by (simp add: zero_less_divide_iff)
  define bn where "bn = nat (bitlen n - 1)"
  define bd where "bd = nat (bitlen d - 1)"
  have len: "bitlen n = int bn + 1" "bitlen d = int bd + 1"
    using bitlen_bounds [OF n] bitlen_bounds [OF d] n d
    by (auto simp: bn_def bd_def bitlen_def floorlog_def)
  from bitlen_bounds [OF n] len have n_lo: "2 ^ bn \<le> n" and n_hi: "n < 2 ^ Suc bn"
    by (auto simp: nat_add_distrib)
  from bitlen_bounds [OF d] len have d_lo: "2 ^ bd \<le> d" and d_hi: "d < 2 ^ Suc bd"
    by (auto simp: nat_add_distrib)
  define k where "k = bitlen n - bitlen d"
  have k: "(2::rat) powi k = 2 ^ bn / 2 ^ bd"
    by (simp add: k_def len power_int_diff)
  have rn_lo: "(2::rat) ^ bn \<le> of_int n" and rn_hi: "of_int n < (2::rat) ^ Suc bn"
    using n_lo n_hi by (metis of_int_le_iff of_int_numeral of_int_power,
                         metis of_int_less_iff of_int_numeral of_int_power)
  have rd_lo: "(2::rat) ^ bd \<le> of_int d" and rd_hi: "of_int d < (2::rat) ^ Suc bd"
    using d_lo d_hi by (metis of_int_le_iff of_int_numeral of_int_power,
                         metis of_int_less_iff of_int_numeral of_int_power)
  have up: "x < 2 powi (k + 1)"
  proof -
    have "x < 2 ^ Suc bn / 2 ^ bd"
      unfolding x using rn_hi rd_lo d n by (intro frac_less) auto
    then show ?thesis by (simp add: power_int_add k mult.commute)
  qed
  have lo: "2 powi (k - 1) \<le> x"
  proof -
    have "2 ^ bn / 2 ^ Suc bd \<le> x"
      unfolding x using rn_lo rd_hi d n by (intro frac_le) auto
    then show ?thesis by (simp add: power_int_diff k)
  qed
  have il: "ilog2 x = (if 2 powi k \<le> x then k else k - 1)"
    by (simp add: ilog2_def q k_def Let_def)
  show "2 powi ilog2 x \<le> x" using lo by (simp add: il)
  show "x < 2 powi (ilog2 x + 1)" using up by (simp add: il)
qed

lemma powi2_mono: "a \<le> b \<Longrightarrow> (2::rat) powi a \<le> 2 powi b"
  by (rule power_int_increasing) auto

lemma powi2_less_iff: "(2::rat) powi a < 2 powi b \<longleftrightarrow> a < b"
  by (metis linorder_not_le one_less_numeral_iff powi2_mono power_int_strict_increasing semiring_norm(76))

lemma ilog2_mono:
  assumes "0 < x" and "x \<le> y"
  shows "ilog2 x \<le> ilog2 y"
proof -
  have "2 powi ilog2 x < (2::rat) powi (ilog2 y + 1)"
    using ilog2_bounds [of x] ilog2_bounds [of y] assms by linarith
  then show ?thesis by (simp add: powi2_less_iff)
qed


section \<open>Rounding to the nearest integer, ties to even\<close>

lemma rne_bounds: "of_int (rne x) - x \<le> 1/2" "x - of_int (rne x) \<le> 1/2"
  unfolding rne_def Let_def by (auto split: if_splits) linarith+

lemma rne_of_int [simp]: "rne (of_int n) = n"
  by (simp add: rne_def)

lemma rne_floor: "\<lfloor>x\<rfloor> \<le> rne x" "rne x \<le> \<lfloor>x\<rfloor> + 1"
  by (simp_all add: rne_def Let_def)

lemma rne_mono:
  assumes "x \<le> y"
  shows "rne x \<le> rne y"
proof (cases "\<lfloor>x\<rfloor> = \<lfloor>y\<rfloor>")
  case True
  with assms show ?thesis by (auto simp: rne_def Let_def split: if_splits)
next
  case False
  with assms have "\<lfloor>x\<rfloor> + 1 \<le> \<lfloor>y\<rfloor>"
    using floor_mono [OF assms] by linarith
  then show ?thesis using rne_floor [of x] rne_floor [of y] by linarith
qed

lemma rne_minus: "rne (- x) = - rne x"
proof (cases "x = of_int \<lfloor>x\<rfloor>")
  case True
  then show ?thesis by (metis of_int_minus rne_of_int)
next
  case False
  define f where "f = \<lfloor>x\<rfloor>"
  define r where "r = x - of_int f"
  have r: "0 < r" "r < 1"
    using False by (auto simp: r_def f_def intro: le_neq_trans) linarith+
  have f': "\<lfloor>- x\<rfloor> = - f - 1"
    using r by (intro floor_unique) (auto simp: r_def)
  have r': "- x - of_int (- f - 1) = 1 - r"
    by (simp add: r_def)
  show ?thesis
    unfolding rne_def Let_def f' r' unfolding f_def [symmetric] r_def [symmetric]
    using r by auto
qed

section \<open>The laws of rounding to a double\<close>

lemma fl_zero [simp]: "fl 0 = 0"
  by (simp add: fl_def)

lemma quantum_exp_minus [simp]: "quantum_exp (- x) = quantum_exp x"
  by (simp add: quantum_exp_def)

lemma fl_minus: "fl (- x) = - fl x"
  by (simp add: fl_def rne_minus)

lemma fl_eq: "fl x = of_int (rne (x / 2 powi quantum_exp x)) * 2 powi quantum_exp x"
  by (cases "x = 0") (simp_all add: fl_def rne_def)

lemma fl_error: "\<bar>fl x - x\<bar> \<le> 2 powi quantum_exp x / 2"
proof -
  let ?q = "(2::rat) powi quantum_exp x"
  have q: "0 < ?q" by simp
  have "fl x - x = (of_int (rne (x / ?q)) - x / ?q) * ?q"
    by (simp add: fl_eq left_diff_distrib)
  moreover have "\<bar>of_int (rne (x / ?q)) - x / ?q\<bar> \<le> 1/2"
    using rne_bounds [of "x / ?q"] by linarith
  ultimately show ?thesis using q by (simp add: abs_mult)
qed

text \<open>Rounding stays between two powers of two that enclose the value.\<close>

lemma fl_le_powi:
  assumes "0 < x" and "x \<le> 2 powi e" and "quantum_exp x \<le> e"
  shows "fl x \<le> 2 powi e"
proof -
  let ?q = "quantum_exp x"
  have split: "(2::rat) powi e = of_int (2 ^ nat (e - ?q)) * 2 powi ?q"
    using assms(3) by (simp add: power_int_add [symmetric] flip: power_int_of_nat)
  have "rne (x / 2 powi ?q) \<le> rne (of_int (2 ^ nat (e - ?q)))"
    using assms(2) by (intro rne_mono) (simp add: split pos_divide_le_eq)
  then have "rne (x / 2 powi ?q) \<le> 2 ^ nat (e - ?q)" by (simp only: rne_of_int)
  then show ?thesis
    by (simp add: fl_eq split)
qed

lemma fl_ge_powi:
  assumes "2 powi e \<le> x" and "quantum_exp x \<le> e"
  shows "2 powi e \<le> fl x"
proof -
  let ?q = "quantum_exp x"
  have split: "(2::rat) powi e = of_int (2 ^ nat (e - ?q)) * 2 powi ?q"
    using assms(2) by (simp add: power_int_add [symmetric] flip: power_int_of_nat)
  have "rne (of_int (2 ^ nat (e - ?q))) \<le> rne (x / 2 powi ?q)"
    using assms(1) by (intro rne_mono) (simp add: split pos_le_divide_eq)
  then have "2 ^ nat (e - ?q) \<le> rne (x / 2 powi ?q)" by (simp only: rne_of_int)
  then show ?thesis
    by (simp add: fl_eq split)
qed

lemma fl_nonneg: "0 \<le> x \<Longrightarrow> 0 \<le> fl x"
  using rne_mono [of 0 "x / 2 powi quantum_exp x"] rne_of_int [of 0]
  by (simp add: fl_eq)

lemma fl_mono_pos:
  assumes "0 < x" and "x \<le> y"
  shows "fl x \<le> fl y"
proof (cases "quantum_exp x = quantum_exp y")
  case True
  then show ?thesis
    using assms by (simp add: fl_eq rne_mono divide_right_mono)
next
  case False
  have "quantum_exp x \<le> quantum_exp y"
    using ilog2_mono [OF assms] assms by (simp add: quantum_exp_def)
  with False have less: "quantum_exp x < quantum_exp y" by simp
  with assms have y: "quantum_exp y = ilog2 y - 52" and "ilog2 x < ilog2 y"
    by (auto simp: quantum_exp_def max_def split: if_splits)
  then have "x \<le> 2 powi ilog2 y"
    using ilog2_bounds(2) [OF assms(1)] powi2_mono [of "ilog2 x + 1" "ilog2 y"] by linarith
  then have "fl x \<le> 2 powi ilog2 y"
    using assms less y by (intro fl_le_powi) auto
  also have "\<dots> \<le> fl y"
    using assms y ilog2_bounds(1) [of y] by (intro fl_ge_powi) auto
  finally show ?thesis .
qed

lemma fl_mono:
  assumes "x \<le> y"
  shows "fl x \<le> fl y"
proof (cases "0 < x")
  case True
  from this assms show ?thesis by (rule fl_mono_pos)
next
  case x: False
  show ?thesis
  proof (cases "0 \<le> y")
    case True
    have "fl x \<le> 0"
      using fl_nonneg [of "- x"] x by (simp add: fl_minus)
    also have "0 \<le> fl y" using True by (rule fl_nonneg)
    finally show ?thesis .
  next
    case False
    then have "fl (- y) \<le> fl (- x)"
      using assms by (intro fl_mono_pos) auto
    then show ?thesis by (simp add: fl_minus)
  qed
qed


locale rounding =
  fixes rnd :: "rat \<Rightarrow> rat"
  assumes rnd_mono: "x \<le> y \<Longrightarrow> rnd x \<le> rnd y"
    and rnd_zero: "rnd 0 = 0"
    and rnd_minus: "rnd (- x) = - rnd x"
begin

lemma rnd_nonneg: "0 \<le> x \<Longrightarrow> 0 \<le> rnd x"
  using rnd_mono [of 0 x] by (simp add: rnd_zero)

lemma rnd_nonpos: "x \<le> 0 \<Longrightarrow> rnd x \<le> 0"
  using rnd_mono [of x 0] by (simp add: rnd_zero)

lemma rnd_between: "lo \<le> x \<Longrightarrow> x \<le> hi \<Longrightarrow> rnd lo = lo \<Longrightarrow> rnd hi = hi \<Longrightarrow> lo \<le> rnd x \<and> rnd x \<le> hi"
  using rnd_mono [of lo x] rnd_mono [of x hi] by simp

text \<open>A rounded value that is positive comes from a positive one.\<close>

lemma rnd_pos_imp: "0 < rnd x \<Longrightarrow> 0 < x"
  using rnd_nonpos [of x] by linarith

lemma rnd_neg_imp: "rnd x < 0 \<Longrightarrow> x < 0"
  using rnd_nonneg [of x] by linarith

end

interpretation dbl: rounding fl
  by unfold_locales (auto intro: fl_mono simp: fl_minus)

text \<open>Integers of up to 53 bits are doubles, and the error of a rounding is half a unit in the last place.\<close>

lemma fl_of_int:
  assumes "\<bar>n\<bar> \<le> 2 ^ 53"
  shows "fl (of_int n) = of_int n"
proof (cases "n = 0")
  case False
  let ?x = "of_int n :: rat"
  have "2 powi ilog2 \<bar>?x\<bar> \<le> (2::rat) powi 53"
    using ilog2_bounds(1) [of "\<bar>?x\<bar>"] assms False
    by (simp flip: of_int_abs)
  then have "ilog2 \<bar>?x\<bar> \<le> 53"
    by (metis linorder_not_le powi2_less_iff)
  show ?thesis
  proof (cases "ilog2 \<bar>?x\<bar> = 53")
    case True
    then have "(2::rat) powi 53 \<le> \<bar>?x\<bar>"
      using ilog2_bounds(1) [of "\<bar>?x\<bar>"] False by simp
    then have "(2::rat) ^ 53 \<le> of_int \<bar>n\<bar>" by simp
    then have "\<bar>n\<bar> = 2 ^ 53"
      using assms by (metis of_int_le_iff of_int_numeral of_int_power order_antisym)
    then have "n = 2 ^ 53 \<or> n = - (2 ^ 53)" by linarith
    then have "?x = 2 * of_int (n div 2)" by auto
    moreover have "quantum_exp ?x = 1" using True by (simp add: quantum_exp_def)
    ultimately show ?thesis by (simp add: fl_eq)
  next
    case False
    with \<open>ilog2 \<bar>?x\<bar> \<le> 53\<close> have q: "quantum_exp ?x \<le> 0" by (simp add: quantum_exp_def)
    define k where "k = nat (- quantum_exp ?x)"
    have pw: "(2::rat) powi quantum_exp ?x = 1 / 2 ^ k"
      using q by (simp add: power_int_def k_def power_one_over inverse_eq_divide)
    have "?x / 2 powi quantum_exp ?x = of_int (n * 2 ^ k)"
      by (simp add: pw)
    then have "rne (?x / 2 powi quantum_exp ?x) = n * 2 ^ k"
      by (simp only: rne_of_int)
    then show ?thesis
      unfolding fl_eq pw by simp
  qed
qed simp

lemma fl_error_powi:
  assumes "\<bar>x\<bar> \<le> 2 powi k" and "- 1022 \<le> k"
  shows "\<bar>fl x - x\<bar> \<le> 2 powi (k - 53)"
proof (cases "x = 0")
  case False
  have "2 powi ilog2 \<bar>x\<bar> \<le> (2::rat) powi k"
    using ilog2_bounds(1) [of "\<bar>x\<bar>"] assms(1) False by linarith
  then have "ilog2 \<bar>x\<bar> \<le> k"
    by (metis linorder_not_le powi2_less_iff)
  then have "quantum_exp x \<le> k - 52"
    using assms(2) by (simp add: quantum_exp_def)
  then have "(2::rat) powi quantum_exp x \<le> 2 powi (k - 53 + 1)"
    by (intro powi2_mono) simp
  also have "\<dots> = 2 powi (k - 53) * 2"
    by (subst power_int_add) simp_all
  finally show ?thesis using fl_error [of x] by linarith
qed simp

section \<open>Values and operations\<close>

datatype float64 = Fin rat | PInf | NInf | NaN

record go_arch =
  fused :: bool
  int_ovf :: "float64 \<Rightarrow> 64 word"

abbreviation f64_limit :: rat where "f64_limit \<equiv> 2 ^ 1024"

definition of_exact :: "rat \<Rightarrow> float64" where
  "of_exact x = (let r = fl x in if f64_limit \<le> r then PInf else if r \<le> - f64_limit then NInf else Fin r)"

fun f_neg :: "float64 \<Rightarrow> float64" where
  "f_neg (Fin a) = Fin (- a)"
| "f_neg PInf = NInf"
| "f_neg NInf = PInf"
| "f_neg NaN = NaN"

fun f_add :: "float64 \<Rightarrow> float64 \<Rightarrow> float64" where
  "f_add (Fin a) (Fin b) = of_exact (a + b)"
| "f_add NaN _ = NaN"
| "f_add _ NaN = NaN"
| "f_add PInf NInf = NaN"
| "f_add NInf PInf = NaN"
| "f_add PInf _ = PInf"
| "f_add _ PInf = PInf"
| "f_add NInf _ = NInf"
| "f_add _ NInf = NInf"

definition f_sub :: "float64 \<Rightarrow> float64 \<Rightarrow> float64" where
  "f_sub a b = f_add a (f_neg b)"

definition inf_of_sign :: "rat \<Rightarrow> float64" where
  "inf_of_sign s = (if s = 0 then NaN else if 0 < s then PInf else NInf)"

fun f_sgn :: "float64 \<Rightarrow> rat" where
  "f_sgn (Fin a) = sgn a"
| "f_sgn PInf = 1"
| "f_sgn NInf = - 1"
| "f_sgn NaN = 0"

fun f_mul :: "float64 \<Rightarrow> float64 \<Rightarrow> float64" where
  "f_mul (Fin a) (Fin b) = of_exact (a * b)"
| "f_mul a b = inf_of_sign (f_sgn a * f_sgn b)"

text \<open>Division by the finite non-zero divisors the code has.\<close>

fun f_div :: "float64 \<Rightarrow> rat \<Rightarrow> float64" where
  "f_div (Fin a) d = of_exact (a / d)"
| "f_div a d = inf_of_sign (f_sgn a * sgn d)"

fun f_lt :: "float64 \<Rightarrow> float64 \<Rightarrow> bool" where
  "f_lt (Fin a) (Fin b) = (a < b)"
| "f_lt NInf (Fin _) = True"
| "f_lt NInf PInf = True"
| "f_lt (Fin _) PInf = True"
| "f_lt _ _ = False"

text \<open>\<open>x*y + z\<close> in one expression: fused on some platforms, two roundings on others.\<close>

fun f_muladd :: "go_arch \<Rightarrow> float64 \<Rightarrow> float64 \<Rightarrow> float64 \<Rightarrow> float64" where
  "f_muladd ar (Fin a) (Fin b) (Fin c) =
     (if fused ar then of_exact (a * b + c) else f_add (of_exact (a * b)) (Fin c))"
| "f_muladd ar a b c = f_add (f_mul a b) c"

definition trunc0 :: "rat \<Rightarrow> int" where
  "trunc0 x = (if 0 \<le> x then \<lfloor>x\<rfloor> else \<lceil>x\<rceil>)"

text \<open>\<open>int64(f)\<close>: truncation toward zero, the platform's value out of range.\<close>

definition to_int64 :: "go_arch \<Rightarrow> float64 \<Rightarrow> int" where
  "to_int64 ar f = (case f of
       Fin x \<Rightarrow> (if - (2 ^ 63) \<le> trunc0 x \<and> trunc0 x < 2 ^ 63 then trunc0 x else sint (int_ovf ar f))
     | _ \<Rightarrow> sint (int_ovf ar f))"

lemma to_int64_range: "- (2 ^ 63) \<le> to_int64 ar f \<and> to_int64 ar f < 2 ^ 63"
proof -
  have "- (2 ^ 63) \<le> sint w \<and> sint w < 2 ^ 63" for w :: "64 word"
    using sint_greater_eq [of w] sint_less [of w] by simp
  then show ?thesis by (auto simp: to_int64_def split: float64.splits)
qed

lemma trunc0_sign: "0 \<le> x \<Longrightarrow> 0 \<le> trunc0 x" "x \<le> 0 \<Longrightarrow> trunc0 x \<le> 0"
  by (auto simp: trunc0_def)

end
