(* ===== verification/Schema.thy ===== *)
theory Schema imports Go_Float begin

text \<open>
  The database of \<open>migrations/0001_init.up.sql\<close> and \<open>migrations/0002_metrics_tables.up.sql\<close>:
  one record per table row, one list of rows per table, the column types' coercions and the CHECK
  constraints, and the three ways \<open>pgx\<close> runs a statement (\<open>Exec\<close>, \<open>QueryRow\<close>, \<open>Query\<close>).

  Every SQL statement of the code is a function over the record \<open>db\<close>. A statement can fail
  before it takes effect, take effect and lose its reply, or deliver only a prefix of its rows:
  the environment decides that through the script \<open>faults\<close> of the state. A script that is used
  up stands for a healthy connection.
\<close>

section \<open>Errors\<close>

datatype sql_error =
    ConnFail
  | NoRows
  | NumericOverflow
  | IntOutOfRange
  | InvalidEnum
  | InvalidText
  | CheckViolation string
  | UniqueViolation
  | CardinalityViolation

text \<open>Go error values, with the chain that \<open>%w\<close> builds and \<open>errors.Is\<close> walks.\<close>

datatype go_error =
    Sql sql_error
  | ErrNotFound
  | ErrValidation string
  | ErrInvalidToken
  | Canceled
  | DeadlineExceeded
  | RedisNil
  | Plain string
  | Wrap string go_error

fun unwraps_to :: "go_error \<Rightarrow> go_error \<Rightarrow> bool" where
  "unwraps_to (Wrap m e) t = (Wrap m e = t \<or> unwraps_to e t)"
| "unwraps_to e t = (e = t)"

section \<open>Enumerated types\<close>

datatype asset_class = Equity | Crypto | Forex
datatype trade_direction = Long | Short
datatype trade_status = Open | Closed | Cancelled
datatype trade_outcome = Win | Loss
datatype emotional_state = Calm | Anxious | Greedy | Fearful | Neutral

fun asset_class_text :: "asset_class \<Rightarrow> string" where
  "asset_class_text Equity = ''equity''"
| "asset_class_text Crypto = ''crypto''"
| "asset_class_text Forex = ''forex''"

fun direction_text :: "trade_direction \<Rightarrow> string" where
  "direction_text Long = ''long''"
| "direction_text Short = ''short''"

fun status_text :: "trade_status \<Rightarrow> string" where
  "status_text Open = ''open''"
| "status_text Closed = ''closed''"
| "status_text Cancelled = ''cancelled''"

fun outcome_text :: "trade_outcome \<Rightarrow> string" where
  "outcome_text Win = ''win''"
| "outcome_text Loss = ''loss''"

fun emotion_text :: "emotional_state \<Rightarrow> string" where
  "emotion_text Calm = ''calm''"
| "emotion_text Anxious = ''anxious''"
| "emotion_text Greedy = ''greedy''"
| "emotion_text Fearful = ''fearful''"
| "emotion_text Neutral = ''neutral''"

text \<open>Casting a text to an enum finds the label or raises an error.\<close>

definition enum_of :: "('e \<Rightarrow> string) \<Rightarrow> 'e list \<Rightarrow> string \<Rightarrow> sql_error + 'e" where
  "enum_of txt all s = (case find (\<lambda>e. txt e = s) all of None \<Rightarrow> Inl InvalidEnum | Some e \<Rightarrow> Inr e)"

definition asset_class_of :: "string \<Rightarrow> sql_error + asset_class" where
  "asset_class_of = enum_of asset_class_text [Equity, Crypto, Forex]"

definition direction_of :: "string \<Rightarrow> sql_error + trade_direction" where
  "direction_of = enum_of direction_text [Long, Short]"

definition status_of :: "string \<Rightarrow> sql_error + trade_status" where
  "status_of = enum_of status_text [Open, Closed, Cancelled]"

definition outcome_of :: "string \<Rightarrow> sql_error + trade_outcome" where
  "outcome_of = enum_of outcome_text [Win, Loss]"

definition emotion_of :: "string \<Rightarrow> sql_error + emotional_state" where
  "emotion_of = enum_of emotion_text [Calm, Anxious, Greedy, Fearful, Neutral]"

lemmas enum_defs = asset_class_of_def direction_of_def status_of_def outcome_of_def emotion_of_def enum_of_def

lemma enum_of_text [simp]:
  "asset_class_of (asset_class_text a) = Inr a"
  "direction_of (direction_text d) = Inr d"
  "status_of (status_text st) = Inr st"
  "outcome_of (outcome_text oc) = Inr oc"
  "emotion_of (emotion_text em) = Inr em"
proof -
  show "asset_class_of (asset_class_text a) = Inr a" by (cases a) (simp_all add: enum_defs)
  show "direction_of (direction_text d) = Inr d" by (cases d) (simp_all add: enum_defs)
  show "status_of (status_text st) = Inr st" by (cases st) (simp_all add: enum_defs)
  show "outcome_of (outcome_text oc) = Inr oc" by (cases oc) (simp_all add: enum_defs)
  show "emotion_of (emotion_text em) = Inr em" by (cases em) (simp_all add: enum_defs)
qed

lemma text_of_enum:
  "asset_class_of s = Inr a \<Longrightarrow> asset_class_text a = s"
  "direction_of s = Inr d \<Longrightarrow> direction_text d = s"
  "status_of s = Inr st \<Longrightarrow> status_text st = s"
  "outcome_of s = Inr oc \<Longrightarrow> outcome_text oc = s"
  "emotion_of s = Inr em \<Longrightarrow> emotion_text em = s"
  by (auto simp: enum_defs split: if_splits)

section \<open>Column coercions\<close>

text \<open>\<open>NUMERIC(p, s)\<close> rounds half away from zero to \<open>s\<close> decimals and has \<open>p - s\<close> digits before the point.\<close>

definition numeric_round :: "nat \<Rightarrow> rat \<Rightarrow> rat" where
  "numeric_round sc x =
     (let y = x * 10 ^ sc in of_int (if 0 \<le> y then \<lfloor>y + 1/2\<rfloor> else \<lceil>y - 1/2\<rceil>) / 10 ^ sc)"

definition to_numeric :: "nat \<Rightarrow> nat \<Rightarrow> rat \<Rightarrow> sql_error + rat" where
  "to_numeric p sc x =
     (let r = numeric_round sc x in if \<bar>r\<bar> < 10 ^ (p - sc) then Inr r else Inl NumericOverflow)"

text \<open>\<open>TIMESTAMPTZ\<close> keeps microseconds.\<close>

definition to_timestamptz :: "instant \<Rightarrow> instant" where
  "to_timestamptz t = t div 1000 * 1000"

text \<open>\<open>INTEGER\<close> is a 32-bit value; an expression that leaves its range is an error.\<close>

definition to_int4 :: "int \<Rightarrow> sql_error + int" where
  "to_int4 n = (if - (2 ^ 31) \<le> n \<and> n < 2 ^ 31 then Inr n else Inl IntOutOfRange)"

definition to_int2 :: "int \<Rightarrow> sql_error + int" where
  "to_int2 n = (if - (2 ^ 15) \<le> n \<and> n < 2 ^ 15 then Inr n else Inl IntOutOfRange)"

text \<open>\<open>TEXT\<close> cannot hold the zero byte; \<open>length\<close> counts characters, and a Go string holds UTF-8 bytes.\<close>

definition to_text :: "string \<Rightarrow> sql_error + string" where
  "to_text s = (if CHR 0x00 \<in> set s then Inl InvalidText else Inr s)"

definition utf8_cont :: "char \<Rightarrow> bool" where
  "utf8_cont c \<longleftrightarrow> 128 \<le> (of_char c :: nat) \<and> (of_char c :: nat) < 192"

definition utf8_length :: "string \<Rightarrow> nat" where
  "utf8_length s = length (filter (\<lambda>c. \<not> utf8_cont c) s)"

lemma utf8_length_le: "utf8_length s \<le> length s"
  by (simp add: utf8_length_def)

lemma to_timestamptz_le: "to_timestamptz t \<le> t" "t < to_timestamptz t + 1000"
  unfolding to_timestamptz_def using mod_less_divisor [of 1000] div_mult_mod_eq [of t 1000]
    pos_mod_sign [of 1000 t] pos_mod_bound [of 1000 t] by linarith+

lemma to_timestamptz_idem [simp]: "to_timestamptz (to_timestamptz t) = to_timestamptz t"
  by (simp add: to_timestamptz_def)

lemma to_timestamptz_mono: "a \<le> b \<Longrightarrow> to_timestamptz a \<le> to_timestamptz b"
  by (simp add: to_timestamptz_def zdiv_mono1)

lemma numeric_round_sign:
  "0 \<le> x \<Longrightarrow> 0 \<le> numeric_round sc x" "x \<le> 0 \<Longrightarrow> numeric_round sc x \<le> 0"
proof -
  show "0 \<le> numeric_round sc x" if "0 \<le> x"
    using that by (simp add: numeric_round_def Let_def)
  show "numeric_round sc x \<le> 0" if "x \<le> 0"
  proof (cases "x = 0")
    case False
    with that have "x * 10 ^ sc < 0" by (simp add: mult_neg_pos)
    then have "\<lceil>x * 10 ^ sc - 1/2\<rceil> \<le> 0" by (simp add: ceiling_le_iff)
    then show ?thesis
      using \<open>x * 10 ^ sc < 0\<close> by (simp add: numeric_round_def Let_def divide_le_0_iff)
  next
    case True
    have "\<lfloor>1/2 :: rat\<rfloor> = 0" by (rule floor_unique) simp_all
    with True show ?thesis by (simp add: numeric_round_def)
  qed
qed

lemma numeric_round_error: "\<bar>numeric_round sc x - x\<bar> \<le> 1 / (2 * 10 ^ sc)"
proof -
  define y where "y = x * 10 ^ sc"
  define n where "n = (if 0 \<le> y then \<lfloor>y + 1/2\<rfloor> else \<lceil>y - 1/2\<rceil>)"
  have le: "\<bar>of_int n - y\<bar> \<le> 1/2"
  proof (cases "0 \<le> y")
    case True
    have "of_int \<lfloor>y + 1/2\<rfloor> \<le> y + 1/2" "y + 1/2 < of_int \<lfloor>y + 1/2\<rfloor> + 1"
      by linarith+
    with True show ?thesis by (simp only: n_def if_True abs_le_iff) linarith
  next
    case False
    have "y - 1/2 \<le> of_int \<lceil>y - 1/2\<rceil>" "of_int \<lceil>y - 1/2\<rceil> - 1 < y - 1/2"
      by linarith+
    with False show ?thesis by (simp only: n_def if_False abs_le_iff) linarith
  qed
  have eq: "numeric_round sc x - x = (of_int n - y) / 10 ^ sc"
    by (simp add: numeric_round_def n_def y_def Let_def diff_divide_distrib)
  have "\<bar>numeric_round sc x - x\<bar> = \<bar>of_int n - y\<bar> / 10 ^ sc"
    unfolding eq by simp
  also have "\<dots> \<le> (1/2) / 10 ^ sc"
    using le by (rule divide_right_mono) simp
  finally show ?thesis by simp
qed

lemma numeric_round_of_int: "numeric_round sc (of_int n) = of_int n"
proof -
  have y: "of_int n * 10 ^ sc = (of_int (n * 10 ^ sc) :: rat)" by simp
  have "\<lfloor>of_int m + 1/2 :: rat\<rfloor> = m" "\<lceil>of_int m - 1/2 :: rat\<rceil> = m" for m
    by (simp_all add: floor_eq_iff ceiling_eq_iff)
  then have i: "(if 0 \<le> (of_int m :: rat) then \<lfloor>of_int m + 1/2 :: rat\<rfloor> else \<lceil>of_int m - 1/2 :: rat\<rceil>) = m" for m
    by presburger
  show ?thesis unfolding numeric_round_def Let_def y i by simp
qed

lemma numeric_round_numeral [simp]:
  "numeric_round sc 0 = 0" "numeric_round sc 1 = 1" "numeric_round sc (numeral k) = numeral k"
  "numeric_round sc (- numeral k) = - numeral k"
  using numeric_round_of_int [of sc 0] numeric_round_of_int [of sc 1]
    numeric_round_of_int [of sc "numeral k"] numeric_round_of_int [of sc "- numeral k"] by simp_all

section \<open>Tables\<close>

record trade_row =
  trade_id :: uuid
  user_id :: uuid
  trader_name :: "string option"
  session_id :: uuid
  asset :: string
  asset_class :: asset_class
  direction :: trade_direction
  entry_price :: rat
  exit_price :: "rat option"
  quantity :: rat
  entry_at :: instant
  exit_at :: "instant option"
  status :: trade_status
  outcome :: "trade_outcome option"
  pnl :: "rat option"
  plan_adherence :: "int option"
  emotional_state :: "emotional_state option"
  entry_rationale :: "string option"
  revenge_flag :: bool
  ground_truth_pathologies :: "string option"
  created_at :: instant
  updated_at :: instant

text \<open>The CHECK constraints of \<open>trades\<close>, in the order of their names.\<close>

definition trade_checks :: "trade_row \<Rightarrow> string option" where
  "trade_checks r =
     (if status r = Closed \<and> (exit_at r = None \<or> exit_price r = None) then Some ''closed_has_exit''
      else if \<not> 0 < entry_price r then Some ''trades_entry_price_check''
      else if (case entry_rationale r of None \<Rightarrow> False | Some t \<Rightarrow> 500 < utf8_length t)
        then Some ''trades_entry_rationale_check''
      else if (case plan_adherence r of None \<Rightarrow> False | Some v \<Rightarrow> \<not> (1 \<le> v \<and> v \<le> 5))
        then Some ''trades_plan_adherence_check''
      else if \<not> 0 < quantity r then Some ''trades_quantity_check''
      else None)"

record user_metrics_row =
  um_user_id :: uuid
  plan_adherence_score :: "rat option"
  plan_adherence_window :: int
  revenge_trades_count :: int
  overtrading_events_count :: int
  um_updated_at :: instant

record emotion_row =
  ue_user_id :: uuid
  ue_emotion :: emotional_state
  wins :: int
  losses :: int
  ue_updated_at :: instant

record session_row =
  sm_session_id :: uuid
  sm_user_id :: uuid
  total_trades :: int
  loss_following_trades :: int
  tilt_index :: rat
  last_outcome :: "trade_outcome option"
  last_exit_at :: "instant option"
  sm_updated_at :: instant

record overtrading_row =
  event_id :: uuid
  ot_user_id :: uuid
  window_start :: instant
  window_end :: instant
  trade_count :: int
  detected_at :: instant

abbreviation ue_key :: "emotion_row \<Rightarrow> uuid \<times> emotional_state" where
  "ue_key r \<equiv> (ue_user_id r, ue_emotion r)"

datatype fault = FOk | FFail | FLost | FCut nat

record db =
  trades :: "trade_row list"
  user_metrics :: "user_metrics_row list"
  user_emotion_metrics :: "emotion_row list"
  session_metrics :: "session_row list"
  overtrading_events :: "overtrading_row list"
  clock :: instant
  draws :: nat
  faults :: "fault list"

text \<open>
  What the code uses of the libraries around it: the decimal \<open>pgx\<close> sends for a double and the
  double it reads back from a numeric, \<open>uuid.New\<close>, \<open>uuid.Parse\<close> and \<open>UUID.String\<close>.
\<close>

record platform =
  arch :: go_arch
  float_text :: "rat \<Rightarrow> rat"
  text_float :: "rat \<Rightarrow> rat"
  new_uuid :: "nat \<Rightarrow> uuid"
  parse_uuid :: "string \<Rightarrow> uuid option"
  show_uuid :: "uuid \<Rightarrow> string"

section \<open>Keyed tables of the schema\<close>

interpretation um_table: keyed_table "tbl_lookup um_user_id" "tbl_upsert um_user_id"
    "keeps_key um_user_id" "\<lambda>t. distinct (map um_user_id t)"
  by (rule keyed_table_list)

interpretation ue_table: keyed_table "tbl_lookup ue_key" "tbl_upsert ue_key"
    "keeps_key ue_key" "\<lambda>t. distinct (map ue_key t)"
  by (rule keyed_table_list)

interpretation sm_table: keyed_table "tbl_lookup sm_session_id" "tbl_upsert sm_session_id"
    "keeps_key sm_session_id" "\<lambda>t. distinct (map sm_session_id t)"
  by (rule keyed_table_list)

section \<open>Running statements\<close>

definition next_fault :: "db \<Rightarrow> fault \<times> db" where
  "next_fault s = (case faults s of [] \<Rightarrow> (FOk, s) | f # fs \<Rightarrow> (f, s\<lparr>faults := fs\<rparr>))"

text \<open>\<open>pool.Exec\<close>: the statement's effect and whether the caller saw it succeed.\<close>

definition db_exec :: "(db \<Rightarrow> sql_error + db) \<Rightarrow> db \<Rightarrow> (sql_error + unit) \<times> db" where
  "db_exec stmt s = (case next_fault s of (f, s1) \<Rightarrow>
     (case f of
        FOk \<Rightarrow> (case stmt s1 of Inl e \<Rightarrow> (Inl e, s1) | Inr s2 \<Rightarrow> (Inr (), s2))
      | FLost \<Rightarrow> (Inl ConnFail, case stmt s1 of Inl e \<Rightarrow> s1 | Inr s2 \<Rightarrow> s2)
      | _ \<Rightarrow> (Inl ConnFail, s1)))"

text \<open>\<open>pool.QueryRow(...).Scan\<close>: no row is \<open>pgx.ErrNoRows\<close>.\<close>

definition db_query_row :: "(db \<Rightarrow> sql_error + ('a option \<times> db)) \<Rightarrow> db \<Rightarrow> (sql_error + 'a) \<times> db" where
  "db_query_row stmt s = (case next_fault s of (f, s1) \<Rightarrow>
     (case f of
        FOk \<Rightarrow> (case stmt s1 of
            Inl e \<Rightarrow> (Inl e, s1)
          | Inr (None, s2) \<Rightarrow> (Inl NoRows, s2)
          | Inr (Some v, s2) \<Rightarrow> (Inr v, s2))
      | FLost \<Rightarrow> (Inl ConnFail, case stmt s1 of Inl e \<Rightarrow> s1 | Inr (_, s2) \<Rightarrow> s2)
      | _ \<Rightarrow> (Inl ConnFail, s1)))"

text \<open>
  \<open>pool.Query\<close> and the \<open>rows.Next\<close> loop: the rows delivered before the stream ended, and the error
  \<open>rows.Err()\<close> then holds, if the stream was cut.
\<close>

definition db_query :: "(db \<Rightarrow> 'a list) \<Rightarrow> db \<Rightarrow> (sql_error + ('a list \<times> sql_error option)) \<times> db" where
  "db_query sel s = (case next_fault s of (f, s1) \<Rightarrow>
     (case f of
        FOk \<Rightarrow> (Inr (sel s1, None), s1)
      | FFail \<Rightarrow> (Inl ConnFail, s1)
      | FLost \<Rightarrow> (Inr ([], Some ConnFail), s1)
      | FCut n \<Rightarrow> (Inr (take n (sel s1), Some ConnFail), s1)))"

text \<open>A pure read of one row.\<close>

definition read_row :: "(db \<Rightarrow> 'a option) \<Rightarrow> db \<Rightarrow> sql_error + ('a option \<times> db)" where
  "read_row sel s = Inr (sel s, s)"

lemmas stmt_defs = db_exec_def db_query_row_def db_query_def next_fault_def read_row_def

lemma db_exec_healthy [db_simps]:
  "faults s = [] \<Longrightarrow>
   db_exec stmt s = (case stmt s of Inl e \<Rightarrow> (Inl e, s) | Inr s2 \<Rightarrow> (Inr (), s2))"
  by (simp add: stmt_defs)

lemma db_query_row_healthy [db_simps]:
  "faults s = [] \<Longrightarrow>
   db_query_row stmt s = (case stmt s of Inl e \<Rightarrow> (Inl e, s)
     | Inr (None, s2) \<Rightarrow> (Inl NoRows, s2) | Inr (Some v, s2) \<Rightarrow> (Inr v, s2))"
  by (simp add: stmt_defs)

lemma db_query_healthy [db_simps]:
  "faults s = [] \<Longrightarrow> db_query sel s = (Inr (sel s, None), s)"
  by (simp add: stmt_defs)

text \<open>Dropping the head of the fault script changes nothing else.\<close>

definition same_tables :: "db \<Rightarrow> db \<Rightarrow> bool" where
  "same_tables s s' \<longleftrightarrow> s'\<lparr>faults := []\<rparr> = s\<lparr>faults := []\<rparr>"

lemma same_tables_refl [simp, intro]: "same_tables s s"
  by (simp add: same_tables_def)

lemma same_tables_sym: "same_tables s s' \<Longrightarrow> same_tables s' s"
  by (simp add: same_tables_def)

lemma same_tables_trans [trans]: "same_tables a b \<Longrightarrow> same_tables b c \<Longrightarrow> same_tables a c"
  by (simp add: same_tables_def)

lemma same_tables_faults [simp]: "same_tables s (s\<lparr>faults := fs\<rparr>)"
  by (simp add: same_tables_def)

lemma same_tables_next: "same_tables s (snd (next_fault s))"
  by (auto simp: next_fault_def split: list.splits)

lemma same_tables_fields:
  assumes "same_tables s s'"
  shows "trades s' = trades s" "user_metrics s' = user_metrics s"
    "user_emotion_metrics s' = user_emotion_metrics s" "session_metrics s' = session_metrics s"
    "overtrading_events s' = overtrading_events s" "clock s' = clock s" "draws s' = draws s"
proof -
  have "trades (s'\<lparr>faults := []\<rparr>) = trades (s\<lparr>faults := []\<rparr>)"
    "user_metrics (s'\<lparr>faults := []\<rparr>) = user_metrics (s\<lparr>faults := []\<rparr>)"
    "user_emotion_metrics (s'\<lparr>faults := []\<rparr>) = user_emotion_metrics (s\<lparr>faults := []\<rparr>)"
    "session_metrics (s'\<lparr>faults := []\<rparr>) = session_metrics (s\<lparr>faults := []\<rparr>)"
    "overtrading_events (s'\<lparr>faults := []\<rparr>) = overtrading_events (s\<lparr>faults := []\<rparr>)"
    "clock (s'\<lparr>faults := []\<rparr>) = clock (s\<lparr>faults := []\<rparr>)"
    "draws (s'\<lparr>faults := []\<rparr>) = draws (s\<lparr>faults := []\<rparr>)"
    using assms unfolding same_tables_def by simp_all
  then show "trades s' = trades s" "user_metrics s' = user_metrics s"
    "user_emotion_metrics s' = user_emotion_metrics s" "session_metrics s' = session_metrics s"
    "overtrading_events s' = overtrading_events s" "clock s' = clock s" "draws s' = draws s"
    by simp_all
qed

lemma same_tables_iff:
  "same_tables s s' \<longleftrightarrow> trades s' = trades s \<and> user_metrics s' = user_metrics s \<and>
     user_emotion_metrics s' = user_emotion_metrics s \<and> session_metrics s' = session_metrics s \<and>
     overtrading_events s' = overtrading_events s \<and> clock s' = clock s \<and> draws s' = draws s"
proof
  assume "same_tables s s'"
  then show "trades s' = trades s \<and> user_metrics s' = user_metrics s \<and>
     user_emotion_metrics s' = user_emotion_metrics s \<and> session_metrics s' = session_metrics s \<and>
     overtrading_events s' = overtrading_events s \<and> clock s' = clock s \<and> draws s' = draws s"
    by (simp add: same_tables_fields)
next
  assume "trades s' = trades s \<and> user_metrics s' = user_metrics s \<and>
     user_emotion_metrics s' = user_emotion_metrics s \<and> session_metrics s' = session_metrics s \<and>
     overtrading_events s' = overtrading_events s \<and> clock s' = clock s \<and> draws s' = draws s"
  then show "same_tables s s'" unfolding same_tables_def by (cases s; cases s') simp
qed

lemma db_query_same: "same_tables s (snd (db_query sel s))"
  using same_tables_next [of s] by (auto simp: db_query_def split: prod.splits fault.splits)

lemma db_read_same: "same_tables s (snd (db_query_row (read_row sel) s))"
  using same_tables_next [of s]
  by (auto simp: db_query_row_def read_row_def split: prod.splits fault.splits option.splits)

lemma db_read_cases:
  "db_query_row (read_row sel) s = (res, s') \<Longrightarrow>
     same_tables s s' \<and> (res = Inl ConnFail \<or> (\<exists>s1. same_tables s s1 \<and>
        res = (case sel s1 of None \<Rightarrow> Inl NoRows | Some v \<Rightarrow> Inr v)))"
  using same_tables_next [of s]
  by (auto simp: db_query_row_def read_row_def split: prod.splits fault.splits option.splits)

text \<open>An executed statement either left the tables alone or applied its effect to them.\<close>

lemma db_exec_cases:
  assumes "db_exec stmt s = (res, s')"
  obtains (skipped) e where "res = Inl e" "same_tables s s'"
  | (applied) s1 where "same_tables s s1" "stmt s1 = Inr s'"
  using assms same_tables_next [of s]
  by (auto simp: db_exec_def split: prod.splits fault.splits sum.splits)

lemma db_exec_ok: "db_exec stmt s = (Inr u, s') \<Longrightarrow> \<exists>s1. same_tables s s1 \<and> stmt s1 = Inr s'"
  by (erule db_exec_cases) auto


section \<open>A concrete platform\<close>

text \<open>
  An instance of the library behaviour the model abstracts from, for closed examples: exact decimals,
  the overflow value of amd64, and identifiers printed in unary.
\<close>

definition ref_arch :: go_arch where
  "ref_arch = \<lparr>fused = False, int_ovf = (\<lambda>_. 2 ^ 63)\<rparr>"

definition ref_platform :: platform where
  "ref_platform = \<lparr>arch = ref_arch, float_text = (\<lambda>x. x), text_float = (\<lambda>x. x),
     new_uuid = (\<lambda>n. of_nat (Suc n)),
     parse_uuid = (\<lambda>s. if s \<noteq> [] \<and> list_all (\<lambda>c. c = CHR ''0'') s then Some (of_nat (length s - 1)) else None),
     show_uuid = (\<lambda>u. replicate (Suc (unat u)) CHR ''0'')\<rparr>"

definition empty_db :: db where
  "empty_db = \<lparr>trades = [], user_metrics = [], user_emotion_metrics = [], session_metrics = [],
     overtrading_events = [], clock = 0, draws = 0, faults = []\<rparr>"

lemma empty_db_simps [simp]:
  "trades empty_db = []" "user_metrics empty_db = []" "user_emotion_metrics empty_db = []"
  "session_metrics empty_db = []" "overtrading_events empty_db = []" "clock empty_db = 0"
  "draws empty_db = 0" "faults empty_db = []"
  by (simp_all add: empty_db_def)

lemma ref_platform_simps [simp]:
  "arch ref_platform = ref_arch" "float_text ref_platform x = x" "text_float ref_platform x = x"
  "parse_uuid ref_platform (show_uuid ref_platform u) = Some u"
  by (simp_all add: ref_platform_def list_all_iff)

text \<open>What the code relies on: \<open>uuid.Parse\<close> reads what \<open>String\<close> prints.\<close>

definition uuid_codec :: "platform \<Rightarrow> bool" where
  "uuid_codec P \<longleftrightarrow> (\<forall>u. parse_uuid P (show_uuid P u) = Some u)"

lemma ref_uuid_codec: "uuid_codec ref_platform"
  by (simp add: uuid_codec_def ref_platform_def list_all_iff)

end
