(* ===== verification/Go_Time.thy ===== *)
theory Go_Time imports Prelude begin

text \<open>
  What the code uses of Go's \<open>time\<close> package: the calendar, \<open>Time.Format\<close> for the stream's layout
  \<open>2006-01-02T15:04:05.000Z07:00\<close>, and \<open>time.Parse\<close> for that layout and for \<open>time.RFC3339Nano\<close>.
  Times are instants, nanoseconds since the Unix epoch, and are read in UTC.
\<close>

section \<open>The calendar\<close>

definition is_leap :: "int \<Rightarrow> bool" where
  "is_leap y \<longleftrightarrow> y mod 4 = 0 \<and> (y mod 100 \<noteq> 0 \<or> y mod 400 = 0)"

text \<open>Days from the first of January of year 1 to the first of January of year \<open>y\<close>.\<close>

definition year_start :: "int \<Rightarrow> int" where
  "year_start y = (let k = y - 1 in 365 * k + k div 4 - k div 100 + k div 400)"

text \<open>The year a day lies in: an estimate by the mean year, corrected by at most one.\<close>

definition year_of_day :: "int \<Rightarrow> int" where
  "year_of_day d =
     (let y = 400 * d div 146097 + 1
      in if d < year_start y then y - 1 else if year_start (y + 1) \<le> d then y + 1 else y)"

definition month_lengths :: "int \<Rightarrow> int list" where
  "month_lengths y = [31, if is_leap y then 29 else 28, 31, 30, 31, 30, 31, 31, 30, 31, 30, 31]"

fun split_month :: "int list \<Rightarrow> int \<Rightarrow> int \<Rightarrow> int \<times> int" where
  "split_month [] m d = (m, d)"
| "split_month (l # ls) m d = (if d < l then (m, d) else split_month ls (m + 1) (d - l))"

definition days_in :: "int \<Rightarrow> int \<Rightarrow> int" where
  "days_in y m = month_lengths y ! nat (m - 1)"

definition day_of_date :: "int \<Rightarrow> int \<Rightarrow> int \<Rightarrow> int" where
  "day_of_date y m d = year_start y + sum_list (take (nat (m - 1)) (month_lengths y)) + (d - 1)"

definition date_of_day :: "int \<Rightarrow> int \<times> int \<times> int" where
  "date_of_day n =
     (let y = year_of_day n; (m, d) = split_month (month_lengths y) 1 (n - year_start y) in (y, m, d + 1))"

lemma div_pred:
  fixes c y :: int
  assumes "0 < c"
  shows "y div c = (y - 1) div c + (if y mod c = 0 then 1 else 0)"
proof -
  have y: "y = c * (y div c) + y mod c" by simp
  have b: "0 \<le> y mod c" "y mod c < c" using assms by simp_all
  show ?thesis
  proof (cases "y mod c = 0")
    case True
    then have "y - 1 = c * (y div c - 1) + (c - 1)" using y by (simp add: right_diff_distrib)
    then have "(y - 1) div c = y div c - 1" by (rule int_div_pos_eq) (use assms in simp_all)
    with True show ?thesis by simp
  next
    case False
    have "y - 1 = c * (y div c) + (y mod c - 1)" using y by simp
    then have "(y - 1) div c = y div c" by (rule int_div_pos_eq) (use b False in linarith)+
    with False show ?thesis by simp
  qed
qed

lemma year_start_step: "year_start (y + 1) = year_start y + (if is_leap y then 366 else 365)"
proof -
  have m: "y mod 100 = 0 \<Longrightarrow> y mod 4 = 0" "y mod 400 = 0 \<Longrightarrow> y mod 100 = 0" by presburger+
  have arith: "365 * y + (a + (if p then 1 else 0)) - (b + (if q then 1 else 0)) + (c + (if r then 1 else 0)) =
      365 * (y - 1) + a - b + c + (if p \<and> (\<not> q \<or> r) then 366 else 365)"
    if "q \<Longrightarrow> p" "r \<Longrightarrow> q" for a b c :: int and p q r
    using that by (cases p; cases q; cases r) simp_all
  have "year_start (y + 1) = 365 * y + y div 4 - y div 100 + y div 400"
    by (simp only: year_start_def Let_def add_diff_cancel_right')
  also have "\<dots> = 365 * y + ((y - 1) div 4 + (if y mod 4 = 0 then 1 else 0)) -
      ((y - 1) div 100 + (if y mod 100 = 0 then 1 else 0)) + ((y - 1) div 400 + (if y mod 400 = 0 then 1 else 0))"
    using div_pred [of 4 y] div_pred [of 100 y] div_pred [of 400 y] by (simp only: zero_less_numeral simp_thms)
  also have "\<dots> = year_start y + (if is_leap y then 366 else 365)"
    unfolding year_start_def Let_def is_leap_def by (rule arith [OF m])
  finally show ?thesis .
qed

lemma year_start_mono: "a \<le> b \<Longrightarrow> year_start a \<le> year_start b"
proof (induction b rule: int_ge_induct)
  case (step b)
  then show ?case using year_start_step [of b] by (auto split: if_splits)
qed simp

lemma year_start_strict: "a < b \<Longrightarrow> year_start a + 365 \<le> year_start b"
  using year_start_step [of a] year_start_mono [of "a + 1" b] by (auto split: if_splits)

lemma year_start_bounds:
  "146097 * (y - 1) - 699 \<le> 400 * year_start y" "400 * year_start y \<le> 146097 * (y - 1) + 396"
proof -
  have arith: "146097 * k - 699 \<le> 400 * (365 * k + a - b + c) \<and> 400 * (365 * k + a - b + c) \<le> 146097 * k + 396"
    if h: "k = 4 * a + m4" "k = 100 * b + m100" "k = 400 * c + m400" "0 \<le> m4" "m4 < 4" "0 \<le> m100" "m100 < 100"
      "0 \<le> m400" "m400 < 400" for k a b c m4 m100 m400 :: int
  proof -
    have "400 * (365 * k + a - b + c) = 146097 * k - 100 * m4 + 4 * m100 - m400"
      using h(1-3) by (simp add: algebra_simps)
    then show ?thesis using h(4-9) by simp
  qed
  show "146097 * (y - 1) - 699 \<le> 400 * year_start y" "400 * year_start y \<le> 146097 * (y - 1) + 396"
    unfolding year_start_def Let_def
    using arith [OF mult_div_mod_eq [symmetric] mult_div_mod_eq [symmetric] mult_div_mod_eq [symmetric], of "y - 1"]
    by simp_all
qed

lemma year_of_day: "year_start (year_of_day d) \<le> d" "d < year_start (year_of_day d + 1)"
proof -
  let ?y = "400 * d div 146097 + 1"
  have arith: "146097 * q \<le> n \<and> n < 146097 * (q + 1)" if "n = 146097 * q + r" "0 \<le> r" "r < 146097" for n q r :: int
    using that by (simp add: distrib_left)
  have "146097 * (?y - 1) \<le> 400 * d" "400 * d < 146097 * ?y"
    using arith [OF mult_div_mod_eq [symmetric], of "400 * d"] by simp_all
  moreover have "year_start (y - 1) \<le> d \<and> d < year_start (y + 2)" if "146097 * (y - 1) \<le> 400 * d" "400 * d < 146097 * y" for y
    using that year_start_bounds [of "y - 1"] year_start_bounds [of "y + 2"] by (simp add: algebra_simps)
  ultimately have "year_start (?y - 1) \<le> d" "d < year_start (?y + 2)" by blast+
  then show "year_start (year_of_day d) \<le> d" "d < year_start (year_of_day d + 1)"
    by (auto simp: year_of_day_def Let_def add.assoc)
qed

lemma year_of_day_unique: "year_start y \<le> d \<Longrightarrow> d < year_start (y + 1) \<Longrightarrow> year_of_day d = y"
  using year_of_day [of d] year_start_mono [of "y + 1" "year_of_day d"] year_start_mono [of "year_of_day d + 1" y]
  by linarith

lemma split_month_sound:
  assumes "0 \<le> d" and "d < sum_list ls" and "\<forall>l \<in> set ls. 0 < l"
  shows "\<exists>k < length ls. split_month ls m d = (m + int k, d - sum_list (take k ls)) \<and>
    sum_list (take k ls) \<le> d \<and> d < sum_list (take k ls) + ls ! k"
  using assms
proof (induction ls arbitrary: m d)
  case (Cons l ls)
  show ?case
  proof (cases "d < l")
    case False
    then obtain k where "k < length ls" "split_month ls (m + 1) (d - l) = (m + 1 + int k, d - l - sum_list (take k ls))"
        "sum_list (take k ls) \<le> d - l" "d - l < sum_list (take k ls) + ls ! k"
      using Cons.IH [of "d - l" "m + 1"] Cons.prems by auto
    with False show ?thesis by (intro exI [of _ "Suc k"]) auto
  qed (use Cons.prems in \<open>auto intro: exI [of _ 0]\<close>)
qed simp

lemma split_month_complete:
  assumes "k < length ls" and "\<forall>l \<in> set ls. 0 < l" and "0 \<le> d" and "d < ls ! k"
  shows "split_month ls m (sum_list (take k ls) + d) = (m + int k, d)"
  using assms
proof (induction ls arbitrary: m k)
  case (Cons l ls)
  show ?case
  proof (cases k)
    case (Suc j)
    have "0 \<le> sum_list (take j ls)"
      using Cons.prems(2) by (intro sum_list_nonneg) (meson in_set_takeD less_imp_le list.set_intros(2))
    with Suc Cons show ?thesis by (simp add: add.assoc)
  qed (use Cons.prems in simp)
qed simp

lemma month_lengths_facts:
  "length (month_lengths y) = 12" "\<forall>l \<in> set (month_lengths y). 28 \<le> l \<and> l \<le> 31"
  "sum_list (month_lengths y) = (if is_leap y then 366 else 365)"
  by (simp_all add: month_lengths_def)

definition valid_date :: "int \<Rightarrow> int \<Rightarrow> int \<Rightarrow> bool" where
  "valid_date y m d \<longleftrightarrow> 1 \<le> m \<and> m \<le> 12 \<and> 1 \<le> d \<and> d \<le> days_in y m"

text \<open>A day is the date it is printed as, and a valid date the day it denotes.\<close>

lemma day_of_date_of_day:
  assumes "date_of_day n = (y, m, d)"
  shows "day_of_date y m d = n" and "valid_date y m d"
proof -
  let ?y = "year_of_day n" and ?r = "n - year_start (year_of_day n)"
  have r: "0 \<le> ?r" "?r < sum_list (month_lengths ?y)"
    using year_of_day [of n] year_start_step [of ?y] by (auto simp: month_lengths_facts)
  moreover have "\<forall>l \<in> set (month_lengths ?y). 0 < l" using month_lengths_facts(2) [of ?y] by auto
  ultimately obtain k where k: "k < 12" "split_month (month_lengths ?y) 1 ?r = (1 + int k, ?r - sum_list (take k (month_lengths ?y)))"
      "sum_list (take k (month_lengths ?y)) \<le> ?r" "?r < sum_list (take k (month_lengths ?y)) + month_lengths ?y ! k"
    using split_month_sound [of ?r "month_lengths ?y" 1] by (auto simp: month_lengths_facts)
  then show "day_of_date y m d = n" "valid_date y m d"
    using assms by (auto simp: date_of_day_def Let_def day_of_date_def valid_date_def days_in_def)
qed

lemma date_of_day_of_date:
  assumes "valid_date y m d"
  shows "date_of_day (day_of_date y m d) = (y, m, d)"
proof -
  define k where "k = nat (m - 1)"
  have k: "k < 12" "m = 1 + int k" using assms by (auto simp: valid_date_def k_def)
  have d: "1 \<le> d" "d \<le> month_lengths y ! k" using assms by (simp_all add: valid_date_def days_in_def k_def)
  have pos: "\<forall>l \<in> set (month_lengths y). 0 < l" using month_lengths_facts(2) [of y] by auto
  let ?s = "sum_list (take k (month_lengths y))"
  have "sum_list (month_lengths y) = ?s + (month_lengths y ! k + sum_list (drop (Suc k) (month_lengths y)))"
    using k(1) by (metis Cons_nth_drop_Suc append_take_drop_id month_lengths_facts(1) sum_list.Cons sum_list_append)
  moreover have "0 \<le> sum_list (drop (Suc k) (month_lengths y))" "0 \<le> ?s"
    using pos by (intro sum_list_nonneg; meson in_set_dropD in_set_takeD less_imp_le)+
  ultimately have "year_start y \<le> year_start y + ?s + (d - 1)" "year_start y + ?s + (d - 1) < year_start (y + 1)"
    using d year_start_step [of y] by (simp_all add: month_lengths_facts)
  then have "year_of_day (year_start y + ?s + (d - 1)) = y" by (rule year_of_day_unique)
  moreover have "split_month (month_lengths y) 1 (?s + (d - 1)) = (1 + int k, d - 1)"
    using k d pos by (intro split_month_complete) (simp_all add: month_lengths_facts)
  ultimately show ?thesis
    by (simp add: date_of_day_def day_of_date_def k_def [symmetric] k(2) Let_def add.assoc)
qed

section \<open>Decimal digits\<close>

definition digit :: "nat \<Rightarrow> char" where "digit n = char_of (48 + n)"

definition is_digit :: "char \<Rightarrow> bool" where "is_digit c \<longleftrightarrow> 48 \<le> (of_char c :: nat) \<and> (of_char c :: nat) \<le> 57"

definition digit_val :: "char \<Rightarrow> int" where "digit_val c = int (of_char c) - 48"

text \<open>The last \<open>k\<close> decimal digits, and \<open>appendInt(b, x, width)\<close>: zero-padded, never truncated.\<close>

fun fixed_digits :: "nat \<Rightarrow> nat \<Rightarrow> string" where
  "fixed_digits 0 n = ''''"
| "fixed_digits (Suc k) n = fixed_digits k (n div 10) @ [digit (n mod 10)]"

fun dec :: "nat \<Rightarrow> string" where
  "dec n = (if n < 10 then [digit n] else dec (n div 10) @ [digit (n mod 10)])"

declare dec.simps [simp del]

definition append_int :: "int \<Rightarrow> nat \<Rightarrow> string" where
  "append_int x w = (if x < 0 then ''-'' else '''') @
     (let ds = dec (nat \<bar>x\<bar>) in if length ds < w then replicate (w - length ds) CHR ''0'' @ ds else ds)"

definition number :: "string \<Rightarrow> int" where
  "number ds = foldl (\<lambda>n c. 10 * n + digit_val c) 0 ds"

section \<open>Formatting\<close>

text \<open>Day, hour, minute, second and nanosecond of an instant in UTC.\<close>

definition clock_of :: "instant \<Rightarrow> int \<times> int \<times> int \<times> int \<times> int" where
  "clock_of t = (let s = t div 10 ^ 9; r = s mod 86400
     in (s div 86400 + 719162, r div 3600, r mod 3600 div 60, r mod 60, t mod 10 ^ 9))"

definition instant_of :: "int \<Rightarrow> int \<Rightarrow> int \<Rightarrow> int \<Rightarrow> int \<Rightarrow> instant" where
  "instant_of day h m s ns = ((day - 719162) * 86400 + h * 3600 + m * 60 + s) * 10 ^ 9 + ns"

text \<open>\<open>t.UTC().Format("2006-01-02T15:04:05.000Z07:00")\<close>: the milliseconds are truncated.\<close>

definition format_ms :: "instant \<Rightarrow> string" where
  "format_ms t = (case clock_of t of (day, h, mi, s, ns) \<Rightarrow> case date_of_day day of (y, m, d) \<Rightarrow>
     append_int y 4 @ ''-'' @ append_int m 2 @ ''-'' @ append_int d 2 @ ''T'' @ append_int h 2 @ '':'' @
     append_int mi 2 @ '':'' @ append_int s 2 @ ''.'' @ append_int (ns div 10 ^ 6) 3 @ ''Z'')"

section \<open>Parsing\<close>

fun lit :: "char \<Rightarrow> string \<Rightarrow> string option" where
  "lit c (x # xs) = (if x = c then Some xs else None)"
| "lit c [] = None"

text \<open>\<open>getnum(s, fixed)\<close>: two digits, or one where the layout element is not fixed.\<close>

fun getnum :: "bool \<Rightarrow> string \<Rightarrow> (int \<times> string) option" where
  "getnum fixed (a # b # r) =
     (if \<not> is_digit a then None
      else if is_digit b then Some (10 * digit_val a + digit_val b, r)
      else if fixed then None else Some (digit_val a, b # r))"
| "getnum fixed [a] = (if is_digit a \<and> \<not> fixed then Some (digit_val a, []) else None)"
| "getnum fixed [] = None"

definition in_range :: "int \<Rightarrow> int \<Rightarrow> (int \<times> string) option \<Rightarrow> (int \<times> string) option" where
  "in_range lo hi r = (case r of None \<Rightarrow> None | Some (v, rest) \<Rightarrow> if lo \<le> v \<and> v \<le> hi then r else None)"

text \<open>The package's \<open>atoi\<close>: an optional sign and digits; nothing else may follow.\<close>

fun time_atoi :: "string \<Rightarrow> int option" where
  "time_atoi (c # cs) =
     (let ds = if c = CHR ''-'' \<or> c = CHR ''+'' then cs else c # cs
      in if list_all is_digit ds then Some (if c = CHR ''-'' then - number ds else number ds) else None)"
| "time_atoi [] = Some 0"

fun year_elem :: "string \<Rightarrow> (int \<times> string) option" where
  "year_elem (a # b # c # d # r) =
     (if list_all is_digit [a, b, c, d] then Some (number [a, b, c, d], r) else None)"
| "year_elem _ = None"

text \<open>\<open>parseNanoseconds\<close>: a point or comma, and at most nine of the digits after it.\<close>

definition parse_nanoseconds :: "string \<Rightarrow> int option" where
  "parse_nanoseconds s =
     (case take 10 s of
        [] \<Rightarrow> None
      | c # ds \<Rightarrow>
          if c \<noteq> CHR ''.'' \<and> c \<noteq> CHR '','' then None
          else (case time_atoi ds of
                  None \<Rightarrow> None
                | Some n \<Rightarrow> if n < 0 then None else Some (n * 10 ^ (9 - length ds))))"

text \<open>The fraction elements \<open>.000\<close> and \<open>.999999999\<close>.\<close>

definition frac_fixed :: "nat \<Rightarrow> string \<Rightarrow> (int \<times> string) option" where
  "frac_fixed k s =
     (if length s < Suc k then None
      else (case parse_nanoseconds (take (Suc k) s) of None \<Rightarrow> None | Some n \<Rightarrow> Some (n, drop (Suc k) s)))"

definition frac_opt :: "string \<Rightarrow> (int \<times> string) option" where
  "frac_opt s =
     (case s of
        c # d # r \<Rightarrow>
          if (c = CHR ''.'' \<or> c = CHR '','') \<and> is_digit d
          then (case parse_nanoseconds (c # takeWhile is_digit (d # r)) of
                  None \<Rightarrow> None | Some n \<Rightarrow> Some (n, dropWhile is_digit (d # r)))
          else Some (0, s)
      | _ \<Rightarrow> Some (0, s))"

text \<open>\<open>Z07:00\<close>: the letter Z or a signed offset, in seconds east of UTC.\<close>

definition zone_elem :: "string \<Rightarrow> (int \<times> string) option" where
  "zone_elem s =
     (case s of
        [] \<Rightarrow> None
      | z # r \<Rightarrow>
          if z = CHR ''Z'' then Some (0, r)
          else if length s < 6 \<or> s ! 3 \<noteq> CHR '':'' then None
          else (case (in_range 0 24 (getnum True (take 2 r)), in_range 0 60 (getnum True (take 2 (drop 3 r)))) of
                  (Some (hr, _), Some (mm, _)) \<Rightarrow>
                    if z = CHR ''+'' then Some ((hr * 60 + mm) * 60, drop 5 r)
                    else if z = CHR ''-'' then Some (- ((hr * 60 + mm) * 60), drop 5 r)
                    else None
                | _ \<Rightarrow> None))"

text \<open>
  \<open>time.Parse\<close> for \<open>2006-01-02T15:04:05\<close>, a fraction element and \<open>Z07:00\<close>: the instant and the
  offset of its zone from UTC in seconds.
\<close>

definition parse_time :: "(string \<Rightarrow> (int \<times> string) option) \<Rightarrow> string \<Rightarrow> (instant \<times> int) option" where
  "parse_time fraction v =
     Option.bind (year_elem v) (\<lambda>(y, v). Option.bind (lit CHR ''-'' v) (\<lambda>v.
     Option.bind (in_range 1 12 (getnum True v)) (\<lambda>(m, v). Option.bind (lit CHR ''-'' v) (\<lambda>v.
     Option.bind (getnum True v) (\<lambda>(d, v). Option.bind (lit CHR ''T'' v) (\<lambda>v.
     Option.bind (in_range 0 23 (getnum False v)) (\<lambda>(h, v). Option.bind (lit CHR '':'' v) (\<lambda>v.
     Option.bind (in_range 0 59 (getnum True v)) (\<lambda>(mi, v). Option.bind (lit CHR '':'' v) (\<lambda>v.
     Option.bind (in_range 0 59 (getnum True v)) (\<lambda>(s, v).
     Option.bind (fraction v) (\<lambda>(ns, v).
     Option.bind (zone_elem v) (\<lambda>(off, v).
       if v \<noteq> [] \<or> d < 1 \<or> days_in y m < d then None
       else Some (instant_of (day_of_date y m d) h mi s ns - off * 10 ^ 9, off))))))))))))))"

definition parse_ms :: "string \<Rightarrow> instant option" where
  "parse_ms v = map_option fst (parse_time (frac_fixed 3) v)"

definition parse_rfc3339nano :: "string \<Rightarrow> (instant \<times> int) option" where
  "parse_rfc3339nano = parse_time frac_opt"

section \<open>Reading back what was printed\<close>

lemma digit_zero [simp]: "digit 0 = CHR ''0''"
  by code_simp

lemma digit_facts: "n < 10 \<Longrightarrow> is_digit (digit n)" "n < 10 \<Longrightarrow> digit_val (digit n) = int n"
  by (simp_all add: is_digit_def digit_def digit_val_def of_char_of)

lemma length_fixed_digits [simp]: "length (fixed_digits k n) = k"
  by (induction k arbitrary: n) simp_all

lemma fixed_digits_digits: "list_all is_digit (fixed_digits k n)"
  by (induction k arbitrary: n) (simp_all add: digit_facts)

lemma number_fixed_digits: "n < 10 ^ k \<Longrightarrow> number (fixed_digits k n) = int n"
proof (induction k arbitrary: n)
  case (Suc k)
  then have "number (fixed_digits k (n div 10)) = int (n div 10)" by (simp add: less_mult_imp_div_less mult.commute)
  moreover have "10 * int (n div 10) + int (n mod 10) = int n" by (simp add: zdiv_int zmod_int)
  ultimately show ?case by (simp add: number_def digit_facts)
qed (simp add: number_def)

lemma fixed_digits_zero: "n < 10 ^ j \<Longrightarrow> fixed_digits (i + j) n = replicate i CHR ''0'' @ fixed_digits j n"
proof (induction j arbitrary: n)
  case 0
  have "fixed_digits i 0 = replicate i CHR ''0''"
    by (induction i) (simp_all add: replicate_append_same)
  with 0 show ?case by simp
next
  case (Suc j)
  then show ?case using Suc.IH [of "n div 10"] by (simp add: less_mult_imp_div_less mult.commute)
qed

lemma dec_fixed: "\<exists>k. dec n = fixed_digits (Suc k) n \<and> n < 10 ^ Suc k \<and> (0 < n \<longrightarrow> 10 ^ k \<le> n)"
proof (induction n rule: dec.induct)
  case (1 n)
  show ?case
  proof (cases "n < 10")
    case True
    then show ?thesis by (intro exI [of _ 0]) (simp add: dec.simps)
  next
    case False
    with 1 obtain k where k: "dec (n div 10) = fixed_digits (Suc k) (n div 10)" "n div 10 < 10 ^ Suc k"
        "10 ^ k \<le> n div 10" by auto
    have "dec n = fixed_digits (Suc (Suc k)) n" using False k(1) by (subst dec.simps) simp
    moreover have "n < 10 ^ Suc (Suc k)" "10 ^ Suc k \<le> n" using k(2,3) by simp_all
    ultimately show ?thesis by blast
  qed
qed

lemma append_int_fixed:
  assumes "n < 10 ^ w" and "0 < w"
  shows "append_int (int n) w = fixed_digits w n"
proof -
  obtain k where k: "dec n = fixed_digits (Suc k) n" "n < 10 ^ Suc k" "0 < n \<longrightarrow> 10 ^ k \<le> n"
    using dec_fixed by blast
  have "Suc k \<le> w"
  proof (cases "n = 0")
    case True
    then show ?thesis using k dec.simps [of 0] length_fixed_digits [of "Suc k" n] assms(2) by simp
  next
    case False
    have "(10::nat) ^ k < 10 ^ w" by (rule le_less_trans [OF _ assms(1)]) (use k(3) False in simp)
    then have "k < w" by (rule power_less_imp_less_exp [rotated]) simp
    then show ?thesis by simp
  qed
  then have "fixed_digits w n = replicate (w - Suc k) CHR ''0'' @ dec n"
    using fixed_digits_zero [OF k(2), of "w - Suc k"] by (simp only: le_add_diff_inverse2 k(1))
  moreover have "length (dec n) = Suc k" by (simp only: k(1) length_fixed_digits)
  ultimately show ?thesis using \<open>Suc k \<le> w\<close> by (auto simp: append_int_def Let_def)
qed


lemma fixed_digits_2: "n < 100 \<Longrightarrow> fixed_digits 2 n = [digit (n div 10), digit (n mod 10)]"
  by (simp add: numeral_2_eq_2)

lemma getnum_fixed_digits:
  assumes "n < 100"
  shows "getnum b (fixed_digits 2 n @ r) = Some (int n, r)"
proof -
  have "n div 10 < 10" "n mod 10 < 10" using assms by auto
  moreover have "10 * int (n div 10) + int (n mod 10) = int n" by (simp add: zdiv_int zmod_int)
  ultimately show ?thesis using assms by (simp add: fixed_digits_2 digit_facts)
qed

lemma list_of_length:
  fixes xs :: string
  shows "length xs = 3 \<Longrightarrow> \<exists>a b c. xs = [a, b, c]"
    and "length xs = 4 \<Longrightarrow> \<exists>a b c d. xs = [a, b, c, d]"
    and "4 < length xs \<Longrightarrow> \<exists>a b c d e r. xs = a # b # c # d # e # r"
  by (cases xs rule: year_elem.cases; auto simp: neq_Nil_conv)+

lemma year_elem_fixed_digits:
  assumes "n < 10000"
  shows "year_elem (fixed_digits 4 n @ r) = Some (int n, r)"
proof -
  obtain a b c d where l: "fixed_digits 4 n = [a, b, c, d]"
    using list_of_length(2) [OF length_fixed_digits] by blast
  have "list_all is_digit [a, b, c, d]" "number [a, b, c, d] = int n"
    using fixed_digits_digits [of 4 n] number_fixed_digits [of n 4] assms unfolding l by simp_all
  then show ?thesis by (simp add: l)
qed

lemma frac_fixed_digits:
  assumes "n < 1000"
  shows "frac_fixed 3 (CHR ''.'' # fixed_digits 3 n @ r) = Some (int n * 10 ^ 6, r)"
proof -
  obtain a b c where l: "fixed_digits 3 n = [a, b, c]"
    using list_of_length(1) [OF length_fixed_digits] by blast
  have d: "list_all is_digit [a, b, c]" "number [a, b, c] = int n"
    using fixed_digits_digits [of 3 n] number_fixed_digits [of n 3] assms unfolding l by simp_all
  then have "a \<noteq> CHR ''-''" "a \<noteq> CHR ''+''" by (auto simp: is_digit_def)
  with d have "time_atoi [a, b, c] = Some (int n)" by (simp add: Let_def)
  then show ?thesis by (simp add: frac_fixed_def parse_nanoseconds_def l)
qed

lemma div_bound: "0 < c \<Longrightarrow> x < b * c \<Longrightarrow> x div c < b" for b c x :: int
  by (metis div_mult_mod_eq le_add_same_cancel1 le_less_trans mult_less_cancel_right_pos pos_mod_sign)

lemma clock_of_fields:
  assumes "clock_of t = (day, h, mi, s, ns)"
  shows "0 \<le> h" "h < 24" "0 \<le> mi" "mi < 60" "0 \<le> s" "s < 60" "0 \<le> ns" "ns < 10 ^ 9"
    "instant_of day h mi s ns = t"
proof -
  define sec where "sec = t div 10 ^ 9"
  define r where "r = sec mod 86400"
  define q where "q = r mod 3600"
  have f: "day = sec div 86400 + 719162" "h = r div 3600" "mi = q div 60" "s = r mod 60" "ns = t mod 10 ^ 9"
    using assms by (simp_all add: clock_of_def Let_def r_def q_def sec_def)
  have r: "0 \<le> r" "r < 24 * 3600" "0 \<le> q" "q < 60 * 60" unfolding r_def q_def by simp_all
  show "0 \<le> h" "0 \<le> mi" "0 \<le> s" "s < 60" unfolding f using r by (simp_all add: pos_imp_zdiv_nonneg_iff)
  show "h < 24" "mi < 60" unfolding f by (rule div_bound [OF _ r(2)] div_bound [OF _ r(4)]; simp)+
  show "0 \<le> ns" "ns < 10 ^ 9" unfolding f by simp_all
  have "r mod 60 = q mod 60" unfolding q_def by (rule mod_mod_cancel [symmetric]) simp
  then have "mi * 60 + s = q" unfolding f by (simp only: div_mult_mod_eq)
  then have "h * 3600 + mi * 60 + s = r" unfolding f(2) q_def by (simp only: add.assoc div_mult_mod_eq)
  then have "(day - 719162) * 86400 + h * 3600 + mi * 60 + s = sec"
    unfolding f(1) r_def by (simp only: add.assoc div_mult_mod_eq add_diff_cancel_right')
  then show "instant_of day h mi s ns = t"
    unfolding instant_of_def f(5) sec_def by (simp only: div_mult_mod_eq)
qed

definition year_of :: "instant \<Rightarrow> int" where
  "year_of t = fst (date_of_day (fst (clock_of t)))"

lemma instant_of_ns: "instant_of day h mi s ns = instant_of day h mi s 0 + ns"
  by (simp add: instant_of_def)

lemma parse_format_ms:
  assumes "0 \<le> year_of t" and "year_of t < 10000"
  shows "parse_ms (format_ms t) = Some (t - t mod 10 ^ 6)"
proof -
  obtain day h mi s ns where c: "clock_of t = (day, h, mi, s, ns)" by (cases "clock_of t") auto
  obtain y m d where dt: "date_of_day day = (y, m, d)" by (cases "date_of_day day") auto
  note cf = clock_of_fields [OF c]
  have y: "0 \<le> y" "y < 10000" using assms by (simp_all add: year_of_def c dt)
  have v: "1 \<le> m" "m \<le> 12" "1 \<le> d" "d \<le> days_in y m" "day_of_date y m d = day"
    using day_of_date_of_day [OF dt] by (simp_all add: valid_date_def)
  have "days_in y m \<le> 31"
    using month_lengths_facts(1,2) [of y] v(1,2) by (auto simp: days_in_def)
  then have d: "d < 100" using v(4) by simp
  define ms where "ms = nat (ns div 10 ^ 6)"
  have ms: "ms < 1000" "int ms = ns div 10 ^ 6" using cf(7,8) by (auto simp: ms_def)
  have "int ms * 10 ^ 6 = ns - ns mod 10 ^ 6" unfolding ms(2) by (simp add: minus_mod_eq_div_mult)
  also have "ns mod 10 ^ 6 = t mod 10 ^ 6"
  proof -
    have "ns = t mod 10 ^ 9" using c by (simp add: clock_of_def Let_def)
    moreover have "(10::int) ^ 6 dvd 10 ^ 9" by simp
    ultimately show ?thesis by (simp only: mod_mod_cancel)
  qed
  finally have ms_ns: "int ms * 10 ^ 6 = ns - t mod 10 ^ 6" .
  have shift: "instant_of day h mi s n = u \<Longrightarrow> m = n - k \<Longrightarrow> instant_of day h mi s m = u - k" for n u m k
    by (simp add: instant_of_def)
  have inst: "instant_of day h mi s (int ms * 10 ^ 6) = t - t mod 10 ^ 6"
    by (rule shift [OF cf(9) ms_ns])
  have two: "append_int x 2 = fixed_digits 2 (nat x)" if "0 \<le> x" "x < 100" for x
    using append_int_fixed [of "nat x" 2] that by simp
  have year: "append_int y 4 = fixed_digits 4 (nat y)" using append_int_fixed [of "nat y" 4] y by simp
  have frac: "append_int (ns div 10 ^ 6) 3 = fixed_digits 3 ms" using append_int_fixed [of ms 3] ms by simp
  have "format_ms t = fixed_digits 4 (nat y) @ ''-'' @ fixed_digits 2 (nat m) @ ''-'' @ fixed_digits 2 (nat d) @ ''T'' @
      fixed_digits 2 (nat h) @ '':'' @ fixed_digits 2 (nat mi) @ '':'' @ fixed_digits 2 (nat s) @ ''.'' @ fixed_digits 3 ms @ ''Z''"
    unfolding format_ms_def c prod.case dt year frac using v d cf by (simp add: two)
  then show ?thesis
    using y v d cf ms inst
    by (simp add: parse_ms_def parse_time_def year_elem_fixed_digits getnum_fixed_digits frac_fixed_digits in_range_def
        zone_elem_def nat_less_iff)
qed

text \<open>Outside the years 0 to 9999 the text has a sign or a fifth digit where the layout has none.\<close>

lemma parse_format_ms_far:
  assumes "year_of t < 0 \<or> 10000 \<le> year_of t"
  shows "parse_ms (format_ms t) = None"
proof -
  obtain day h mi s ns where c: "clock_of t = (day, h, mi, s, ns)" by (cases "clock_of t") auto
  obtain y m d where dt: "date_of_day day = (y, m, d)" by (cases "date_of_day day") auto
  from assms have "y < 0 \<or> 10000 \<le> y" by (simp add: year_of_def c dt)
  then show ?thesis
  proof
    assume "y < 0"
    then obtain r where "format_ms t = CHR ''-'' # r" by (simp add: format_ms_def c dt append_int_def)
    moreover have "year_elem (CHR ''-'' # r) = None" by (cases r rule: year_elem.cases) (auto simp: is_digit_def)
    ultimately show ?thesis by (simp add: parse_ms_def parse_time_def)
  next
    assume y: "10000 \<le> y"
    obtain k where k: "dec (nat y) = fixed_digits (Suc k) (nat y)" "nat y < 10 ^ Suc k"
      using dec_fixed by blast
    have "(10::nat) ^ 4 < 10 ^ Suc k" using k(2) y by simp
    then have "4 < Suc k" by (rule power_less_imp_less_exp [rotated]) simp
    then obtain a b e f g r where l: "dec (nat y) = a # b # e # f # g # r"
      using list_of_length(3) [of "dec (nat y)"] length_fixed_digits [of "Suc k" "nat y"] k(1) by auto
    have "list_all is_digit (dec (nat y))" unfolding k(1) by (rule fixed_digits_digits)
    then have "g \<noteq> CHR ''-''" by (auto simp: l is_digit_def)
    moreover obtain r' where "format_ms t = a # b # e # f # g # r'"
      using y by (simp add: format_ms_def c dt append_int_def l Let_def)
    ultimately show ?thesis by (simp add: parse_ms_def parse_time_def)
  qed
qed

end
