(* ===== verification/Queue.thy ===== *)
theory Queue imports Schema Go_Time begin

text \<open>
  The stream of \<open>internal/queue\<close>: the event, its publication (\<open>producer.go\<close>) and its consumption
  through a consumer group (\<open>queue.go\<close>, \<open>consumer.go\<close>).

  The Redis client is a record of the commands the code issues, over the opaque state \<open>'q\<close> of the
  server and of the passing time. A command may fail with any error and may then still have taken
  effect. A context is what the code asks of it: its error, and whether it ends while the code sleeps.
\<close>

section \<open>Error values\<close>

text \<open>\<open>Error()\<close>, where the code reads it.\<close>

fun error_text :: "go_error \<Rightarrow> string" where
  "error_text (Plain m) = m"
| "error_text (ErrValidation m) = ''validation failed: '' @ m"
| "error_text (Wrap m e) = m @ '': '' @ error_text e"
| "error_text ErrInvalidToken = ''invalid token''"
| "error_text Canceled = ''context canceled''"
| "error_text DeadlineExceeded = ''context deadline exceeded''"
| "error_text RedisNil = ''redis: nil''"
| "error_text _ = ''''"

definition is_ctx_error :: "go_error \<Rightarrow> bool" where
  "is_ctx_error e \<longleftrightarrow> unwraps_to e Canceled \<or> unwraps_to e DeadlineExceeded"

lemma unwraps_to_Wrap_iff [simp]: "t \<noteq> Wrap m e \<Longrightarrow> unwraps_to (Wrap m e) t = unwraps_to e t"
  by auto

section \<open>Events\<close>

definition EventTradeOpened :: string where "EventTradeOpened = ''trade.opened''"

definition EventTradeClosed :: string where "EventTradeClosed = ''trade.closed''"

definition EventOvertradingDetected :: string where "EventOvertradingDetected = ''overtrading.detected''"

lemmas event_types = EventTradeOpened_def EventTradeClosed_def EventOvertradingDetected_def

record event =
  ev_type :: string
  ev_trade_id :: string
  ev_user_id :: string
  ev_session_id :: string
  ev_occurred_at :: instant

section \<open>The client\<close>

type_synonym fields = "string \<rightharpoonup> string"
type_synonym entry = "string \<times> fields"

record pending =
  pend_id :: string
  pend_retry_count :: int

record 'q redis =
  xadd :: "string \<Rightarrow> fields \<Rightarrow> 'q \<Rightarrow> (go_error + string) \<times> 'q"
  xack :: "string \<Rightarrow> string \<Rightarrow> string \<Rightarrow> 'q \<Rightarrow> (go_error + int) \<times> 'q"
  xpending :: "string \<Rightarrow> string \<Rightarrow> 'q \<Rightarrow> (go_error + int) \<times> 'q"
  xread_group :: "string \<Rightarrow> string \<Rightarrow> string \<Rightarrow> int \<Rightarrow> int \<Rightarrow> 'q \<Rightarrow> (go_error + (string \<times> entry list) list) \<times> 'q"
  xpending_ext :: "string \<Rightarrow> string \<Rightarrow> int \<Rightarrow> int \<Rightarrow> 'q \<Rightarrow> (go_error + pending list) \<times> 'q"
  xclaim :: "string \<Rightarrow> string \<Rightarrow> string \<Rightarrow> int \<Rightarrow> string list \<Rightarrow> 'q \<Rightarrow> (go_error + entry list) \<times> 'q"
  xgroup_create_mkstream :: "string \<Rightarrow> string \<Rightarrow> string \<Rightarrow> 'q \<Rightarrow> (go_error + unit) \<times> 'q"

record 'q go_context =
  ctx_err :: "'q \<Rightarrow> go_error option"
  ctx_sleep :: "int \<Rightarrow> 'q \<Rightarrow> go_error option \<times> 'q"

section \<open>Producer\<close>

definition event_fields :: "event \<Rightarrow> fields" where
  "event_fields ev =
     [''type'' \<mapsto> ev_type ev, ''tradeId'' \<mapsto> ev_trade_id ev, ''userId'' \<mapsto> ev_user_id ev,
      ''sessionId'' \<mapsto> ev_session_id ev, ''occurredAt'' \<mapsto> format_ms (ev_occurred_at ev)]"

definition publishOnce :: "'q redis \<Rightarrow> string \<Rightarrow> event \<Rightarrow> 'q \<Rightarrow> (go_error + string) \<times> 'q" where
  "publishOnce R stream ev q =
     (case xadd R stream (event_fields ev) q of
        (Inl e, q1) \<Rightarrow> (Inl (Wrap ''xadd'' e), q1)
      | (Inr eid, q1) \<Rightarrow> (Inr eid, q1))"

definition shouldRetry :: "'q go_context \<Rightarrow> go_error \<Rightarrow> 'q \<Rightarrow> bool" where
  "shouldRetry C e q \<longleftrightarrow> \<not> (unwraps_to e Canceled \<or> unwraps_to e DeadlineExceeded) \<and> ctx_err C q = None"

definition Publish :: "'q redis \<Rightarrow> 'q go_context \<Rightarrow> string \<Rightarrow> event \<Rightarrow> 'q \<Rightarrow> (go_error + string) \<times> 'q" where
  "Publish R C stream ev q =
     (case publishOnce R stream ev q of
        (Inr eid, q1) \<Rightarrow> (Inr eid, q1)
      | (Inl e, q1) \<Rightarrow>
          if \<not> shouldRetry C e q1 then (Inl e, q1)
          else (case ctx_sleep C (20 * 10 ^ 6) q1 of
                  (Some e', q2) \<Rightarrow> (Inl e', q2)
                | (None, q2) \<Rightarrow>
                    (case publishOnce R stream ev q2 of
                       (Inl e'', q3) \<Rightarrow> (Inl (Wrap ''xadd (after retry)'' e''), q3)
                     | (Inr eid, q3) \<Rightarrow> (Inr eid, q3))))"

section \<open>Consumer\<close>

definition busy_group :: string where
  "busy_group = ''BUSYGROUP Consumer Group name already exists''"

definition EnsureGroup :: "'q redis \<Rightarrow> string \<Rightarrow> string \<Rightarrow> 'q \<Rightarrow> (go_error + unit) \<times> 'q" where
  "EnsureGroup R stream grp q =
     (case xgroup_create_mkstream R stream grp ''$'' q of
        (Inr _, q1) \<Rightarrow> (Inr (), q1)
      | (Inl e, q1) \<Rightarrow> if error_text e = busy_group then (Inr (), q1) else (Inl (Wrap ''ensure group'' e), q1))"

record message =
  msg_id :: string
  msg_stream :: string
  msg_group :: string
  msg_event :: event
  msg_deliveries :: int

record consumer =
  c_stream :: string
  c_group :: string
  c_name :: string

definition Ack :: "'q redis \<Rightarrow> message \<Rightarrow> 'q \<Rightarrow> go_error option \<times> 'q" where
  "Ack R m q = (case xack R (msg_stream m) (msg_group m) (msg_id m) q of
     (Inl e, q1) \<Rightarrow> (Some e, q1) | (Inr _, q1) \<Rightarrow> (None, q1))"

definition QueueLag :: "'q redis \<Rightarrow> consumer \<Rightarrow> 'q \<Rightarrow> (go_error + int) \<times> 'q" where
  "QueueLag R c q =
     (case xpending R (c_stream c) (c_group c) q of
        (Inl e, q1) \<Rightarrow> (if unwraps_to e RedisNil then Inr 0 else Inl (Wrap ''xpending'' e), q1)
      | (Inr n, q1) \<Rightarrow> (Inr n, q1))"

text \<open>A field that is absent reads as the empty string.\<close>

definition get_field :: "fields \<Rightarrow> string \<Rightarrow> string" where
  "get_field v k = (case v k of None \<Rightarrow> '''' | Some s \<Rightarrow> s)"

definition decodeValues :: "fields \<Rightarrow> go_error + event" where
  "decodeValues v =
     (case parse_ms (get_field v ''occurredAt'') of
        None \<Rightarrow> Inl (Wrap ''parse occurredAt'' (Plain (get_field v ''occurredAt'')))
      | Some t \<Rightarrow> Inr \<lparr>ev_type = get_field v ''type'', ev_trade_id = get_field v ''tradeId'',
          ev_user_id = get_field v ''userId'', ev_session_id = get_field v ''sessionId'', ev_occurred_at = t\<rparr>)"

text \<open>The loop over the entries of a batch: what does not decode is acknowledged and dropped.\<close>

fun decode_batch :: "'q redis \<Rightarrow> consumer \<Rightarrow> (string \<Rightarrow> int) \<Rightarrow> entry list \<Rightarrow> 'q \<Rightarrow> message list \<times> 'q" where
  "decode_batch R c cnt [] q = ([], q)"
| "decode_batch R c cnt ((i, v) # es) q =
     (case decodeValues v of
        Inl e \<Rightarrow> decode_batch R c cnt es (snd (xack R (c_stream c) (c_group c) i q))
      | Inr ev \<Rightarrow>
          (case decode_batch R c cnt es q of
             (ms, q1) \<Rightarrow> (\<lparr>msg_id = i, msg_stream = c_stream c, msg_group = c_group c, msg_event = ev,
                          msg_deliveries = cnt i\<rparr> # ms, q1)))"

definition Read :: "'q redis \<Rightarrow> consumer \<Rightarrow> int \<Rightarrow> int \<Rightarrow> 'q \<Rightarrow> (go_error + message list) \<times> 'q" where
  "Read R c n block q =
     (case xread_group R (c_group c) (c_name c) (c_stream c) n block q of
        (Inl e, q1) \<Rightarrow> (if unwraps_to e RedisNil then Inr [] else Inl (Wrap ''xreadgroup'' e), q1)
      | (Inr res, q1) \<Rightarrow>
          (case decode_batch R c (\<lambda>_. 1) (concat (map snd res)) q1 of (ms, q2) \<Rightarrow> (Inr ms, q2)))"

definition delivery_count :: "pending list \<Rightarrow> string \<Rightarrow> int" where
  "delivery_count ps i = (case map_of (rev (map (\<lambda>p. (pend_id p, pend_retry_count p)) ps)) i of None \<Rightarrow> 0 | Some n \<Rightarrow> n)"

definition ClaimStuck :: "'q redis \<Rightarrow> consumer \<Rightarrow> int \<Rightarrow> int \<Rightarrow> 'q \<Rightarrow> (go_error + message list) \<times> 'q" where
  "ClaimStuck R c minIdle n q =
     (case xpending_ext R (c_stream c) (c_group c) minIdle n q of
        (Inl e, q1) \<Rightarrow> (if unwraps_to e RedisNil then Inr [] else Inl (Wrap ''xpending'' e), q1)
      | (Inr ps, q1) \<Rightarrow>
          if ps = [] then (Inr [], q1)
          else (case xclaim R (c_stream c) (c_group c) (c_name c) minIdle (map pend_id ps) q1 of
                  (Inl e, q2) \<Rightarrow> (Inl (Wrap ''xclaim'' e), q2)
                | (Inr es, q2) \<Rightarrow>
                    (case decode_batch R c (delivery_count ps) es q2 of (ms, q3) \<Rightarrow> (Inr ms, q3))))"

section \<open>What arrives of what was published\<close>

text \<open>The instant of an event loses its microseconds on the way.\<close>

definition ms_floor :: "instant \<Rightarrow> instant" where
  "ms_floor t = t - t mod 10 ^ 6"

lemma get_event_fields:
  "get_field (event_fields ev) ''occurredAt'' = format_ms (ev_occurred_at ev)"
  "get_field (event_fields ev) ''type'' = ev_type ev"
  "get_field (event_fields ev) ''tradeId'' = ev_trade_id ev"
  "get_field (event_fields ev) ''userId'' = ev_user_id ev"
  "get_field (event_fields ev) ''sessionId'' = ev_session_id ev"
  by (simp_all add: get_field_def event_fields_def)

lemma decode_event_fields:
  "decodeValues (event_fields ev) =
     (if 0 \<le> year_of (ev_occurred_at ev) \<and> year_of (ev_occurred_at ev) < 10000
      then Inr (ev\<lparr>ev_occurred_at := ms_floor (ev_occurred_at ev)\<rparr>)
      else Inl (Wrap ''parse occurredAt'' (Plain (format_ms (ev_occurred_at ev)))))"
  by (auto simp: decodeValues_def get_event_fields parse_format_ms parse_format_ms_far ms_floor_def not_le not_less)

text \<open>
  C26: what \<open>publishOnce\<close> writes, \<open>decodeValues\<close> reads back: all fields as they were and the time
  rounded down to the millisecond, whatever strings the fields hold. The exceptions are times whose
  UTC year has not four digits: those events never decode, and \<open>Read\<close> and \<open>ClaimStuck\<close> acknowledge
  and drop them.
\<close>
theorem event_roundtrip:
  "decodeValues (event_fields ev) =
     (if 0 \<le> year_of (ev_occurred_at ev) \<and> year_of (ev_occurred_at ev) < 10000
      then Inr (ev\<lparr>ev_occurred_at := ev_occurred_at ev - ev_occurred_at ev mod 10 ^ 6\<rparr>)
      else Inl (Wrap ''parse occurredAt'' (Plain (format_ms (ev_occurred_at ev)))))"
  by (simp add: decode_event_fields ms_floor_def)

definition sample_event :: event where
  "sample_event = \<lparr>ev_type = ''trade.opened'', ev_trade_id = ''t'', ev_user_id = ''u'', ev_session_id = ''s'',
     ev_occurred_at = 1735689600123456789\<rparr>"

lemma sample_event_fields: "event_fields sample_event ''occurredAt'' = Some ''2025-01-01T00:00:00.123Z''"
  by code_simp

end
