(* ===== verification/Trades.thy ===== *)
theory Trades imports Schema begin

text \<open>
  The trade resource of \<open>internal/trades\<close>: the request and response shapes (\<open>types.go\<close>), the
  validation of a request (\<open>validate.go\<close>), the derived profit and outcome, and the repository's
  statements on the table \<open>trades\<close> (\<open>repo.go\<close>).

  A price is a finite double, held as the rational it denotes: \<open>encoding/json\<close> yields no other.
\<close>

section \<open>Types\<close>

record trade_input =
  TradeID :: uuid
  UserID :: uuid
  SessionID :: uuid
  Asset :: string
  AssetClass :: string
  Direction :: string
  EntryPrice :: rat
  ExitPrice :: "rat option"
  Quantity :: rat
  EntryAt :: instant
  ExitAt :: "instant option"
  Status :: string
  PlanAdherence :: "int option"
  EmotionalState :: "string option"
  EntryRationale :: "string option"

record trade = trade_input +
  Outcome :: "string option"
  PnL :: "rat option"
  RevengeFlag :: bool
  CreatedAt :: instant
  UpdatedAt :: instant

text \<open>\<open>time.Time{}\<close> is midnight of the first of January of year 1.\<close>

definition zero_time :: instant where
  "zero_time = - 62135596800 * 10 ^ 9"

section \<open>Validation\<close>

definition validate :: "trade_input \<Rightarrow> go_error option" where
  "validate inp =
     (if TradeID inp = uuid_nil then Some (ErrValidation ''tradeId required'')
      else if UserID inp = uuid_nil then Some (ErrValidation ''userId required'')
      else if SessionID inp = uuid_nil then Some (ErrValidation ''sessionId required'')
      else if Asset inp = '''' then Some (ErrValidation ''asset required'')
      else if AssetClass inp \<notin> {''equity'', ''crypto'', ''forex''}
        then Some (ErrValidation ''assetClass must be equity|crypto|forex'')
      else if Direction inp \<notin> {''long'', ''short''}
        then Some (ErrValidation ''direction must be long|short'')
      else if EntryPrice inp \<le> 0 then Some (ErrValidation ''entryPrice must be > 0'')
      else if Quantity inp \<le> 0 then Some (ErrValidation ''quantity must be > 0'')
      else if EntryAt inp = zero_time then Some (ErrValidation ''entryAt required'')
      else if Status inp \<notin> {''open'', ''closed'', ''cancelled''}
        then Some (ErrValidation ''status must be open|closed|cancelled'')
      else if Status inp = ''closed'' \<and> (case ExitAt inp of None \<Rightarrow> True | Some t \<Rightarrow> t = zero_time)
        then Some (ErrValidation ''closed trade requires exitAt'')
      else if Status inp = ''closed'' \<and> (case ExitPrice inp of None \<Rightarrow> True | Some x \<Rightarrow> x \<le> 0)
        then Some (ErrValidation ''closed trade requires exitPrice > 0'')
      else if (case PlanAdherence inp of None \<Rightarrow> False | Some v \<Rightarrow> v < 1 \<or> 5 < v)
        then Some (ErrValidation ''planAdherence must be 1..5'')
      else if (case EmotionalState inp of None \<Rightarrow> False
               | Some e \<Rightarrow> e \<notin> {''calm'', ''anxious'', ''greedy'', ''fearful'', ''neutral''})
        then Some (ErrValidation ''emotionalState invalid'')
      else if (case EntryRationale inp of None \<Rightarrow> False | Some t \<Rightarrow> 500 < length t)
        then Some (ErrValidation ''entryRationale must be <= 500 chars'')
      else None)"

section \<open>Derived fields\<close>

definition signf :: "float64 \<Rightarrow> rat" where
  "signf f = (if f_lt f (Fin 0) then - 1 else 1)"

definition round8 :: "go_arch \<Rightarrow> float64 \<Rightarrow> float64" where
  "round8 ar f =
     f_div (of_exact (of_int (to_int64 ar (f_muladd ar f (Fin 100000000) (Fin (1/2 * signf f))))))
       100000000"

definition derive :: "go_arch \<Rightarrow> trade_input \<Rightarrow> float64 option \<times> string option" where
  "derive ar inp =
     (case ExitPrice inp of
        None \<Rightarrow> (None, None)
      | Some exit \<Rightarrow>
          if Status inp \<noteq> ''closed'' then (None, None)
          else (let delta = f_sub (Fin exit) (Fin (EntryPrice inp));
                    delta = (if Direction inp = ''short'' then f_neg delta else delta);
                    p = round8 ar (f_mul delta (Fin (Quantity inp)));
                    oc = (if f_lt p (Fin 0) then ''loss'' else ''win'')
                in (Some p, Some oc)))"

section \<open>The repository\<close>

definition float_column :: "platform \<Rightarrow> float64 \<Rightarrow> sql_error + rat" where
  "float_column P f = (case f of Fin x \<Rightarrow> to_numeric 18 8 (float_text P x) | _ \<Rightarrow> Inl NumericOverflow)"

text \<open>The row the VALUES list of the INSERT builds, columns it leaves out at their defaults.\<close>

definition new_trade_row ::
    "platform \<Rightarrow> trade_input \<Rightarrow> float64 option \<Rightarrow> string option \<Rightarrow> instant \<Rightarrow> sql_error + trade_row" where
  "new_trade_row P inp p oc now =
     bind_ok (to_text (Asset inp)) (\<lambda>asset_c.
     bind_ok (asset_class_of (AssetClass inp)) (\<lambda>class_c.
     bind_ok (direction_of (Direction inp)) (\<lambda>direction_c.
     bind_ok (float_column P (Fin (EntryPrice inp))) (\<lambda>entry_price_c.
     bind_ok (opt_ok (\<lambda>x. float_column P (Fin x)) (ExitPrice inp)) (\<lambda>exit_price_c.
     bind_ok (float_column P (Fin (Quantity inp))) (\<lambda>quantity_c.
     bind_ok (status_of (Status inp)) (\<lambda>status_c.
     bind_ok (opt_ok to_int2 (PlanAdherence inp)) (\<lambda>plan_c.
     bind_ok (opt_ok emotion_of (EmotionalState inp)) (\<lambda>emotion_c.
     bind_ok (opt_ok to_text (EntryRationale inp)) (\<lambda>rationale_c.
     bind_ok (opt_ok outcome_of oc) (\<lambda>outcome_c.
     bind_ok (opt_ok (float_column P) p) (\<lambda>pnl_c.
       Inr \<lparr>trade_id = TradeID inp, user_id = UserID inp, trader_name = None,
         session_id = SessionID inp, asset = asset_c, asset_class = class_c,
         direction = direction_c, entry_price = entry_price_c, exit_price = exit_price_c,
         quantity = quantity_c, entry_at = to_timestamptz (EntryAt inp),
         exit_at = map_option to_timestamptz (ExitAt inp), status = status_c,
         outcome = outcome_c, pnl = pnl_c, plan_adherence = plan_c,
         emotional_state = emotion_c, entry_rationale = rationale_c, revenge_flag = False,
         ground_truth_pathologies = None, created_at = now, updated_at = now\<rparr>))))))))))))"

text \<open>
  \<open>INSERT ... ON CONFLICT (trade_id) DO NOTHING RETURNING\<close>: PostgreSQL checks the new row's
  constraints before it looks for a conflict, and a skipped insert returns no row.
\<close>

definition insert_stmt ::
    "platform \<Rightarrow> trade_input \<Rightarrow> float64 option \<Rightarrow> string option \<Rightarrow> db
     \<Rightarrow> sql_error + (trade_row option \<times> db)" where
  "insert_stmt P inp p oc s =
     bind_ok (new_trade_row P inp p oc (clock s)) (\<lambda>row.
       case trade_checks row of
         Some c \<Rightarrow> Inl (CheckViolation c)
       | None \<Rightarrow>
           if tbl_lookup trade_id (trade_id row) (trades s) \<noteq> None then Inr (None, s)
           else Inr (Some row, s\<lparr>trades := trades s @ [row]\<rparr>))"

definition scan :: "platform \<Rightarrow> trade_row \<Rightarrow> trade" where
  "scan P r =
     \<lparr>TradeID = trade_id r, UserID = user_id r, SessionID = session_id r, Asset = asset r,
      AssetClass = asset_class_text (asset_class r), Direction = direction_text (direction r),
      EntryPrice = text_float P (entry_price r), ExitPrice = map_option (text_float P) (exit_price r),
      Quantity = text_float P (quantity r), EntryAt = entry_at r, ExitAt = exit_at r,
      Status = status_text (status r), PlanAdherence = plan_adherence r,
      EmotionalState = map_option emotion_text (emotional_state r),
      EntryRationale = entry_rationale r, Outcome = map_option outcome_text (outcome r),
      PnL = map_option (text_float P) (pnl r), RevengeFlag = revenge_flag r,
      CreatedAt = created_at r, UpdatedAt = updated_at r\<rparr>"

definition Get :: "platform \<Rightarrow> uuid \<Rightarrow> db \<Rightarrow> (go_error + trade) \<times> db" where
  "Get P tid s =
     (case db_query_row (read_row (\<lambda>s. tbl_lookup trade_id tid (trades s))) s of
        (Inr r, s1) \<Rightarrow> (Inr (scan P r), s1)
      | (Inl e, s1) \<Rightarrow>
          (if e = NoRows then Inl ErrNotFound else Inl (Wrap ''get'' (Sql e)), s1))"

definition Insert :: "platform \<Rightarrow> trade_input \<Rightarrow> db \<Rightarrow> (go_error + trade \<times> bool) \<times> db" where
  "Insert P inp s =
     (case derive (arch P) inp of (p, oc) \<Rightarrow>
        (case db_query_row (insert_stmt P inp p oc) s of
           (Inr row, s1) \<Rightarrow> (Inr (scan P row, True), s1)
         | (Inl e, s1) \<Rightarrow>
             if e \<noteq> NoRows then (Inl (Wrap ''insert'' (Sql e)), s1)
             else (case Get P (TradeID inp) s1 of
                     (Inl e', s2) \<Rightarrow> (Inl (Wrap ''idempotent fetch'' e'), s2)
                   | (Inr got, s2) \<Rightarrow> (Inr (got, False), s2))))"

text \<open>The trigger \<open>trades_set_updated_at\<close> stamps every updated row.\<close>

definition touch :: "instant \<Rightarrow> trade_row \<Rightarrow> trade_row" where
  "touch now r = r\<lparr>updated_at := now\<rparr>"

definition set_flag_stmt :: "uuid \<Rightarrow> bool \<Rightarrow> db \<Rightarrow> sql_error + db" where
  "set_flag_stmt tid flag s =
     Inr (s\<lparr>trades := map (\<lambda>r. if trade_id r = tid then touch (clock s) (r\<lparr>revenge_flag := flag\<rparr>) else r)
       (trades s)\<rparr>)"

definition SetRevengeFlag :: "uuid \<Rightarrow> bool \<Rightarrow> db \<Rightarrow> (go_error + unit) \<times> db" where
  "SetRevengeFlag tid flag s =
     (case db_exec (set_flag_stmt tid flag) s of
        (Inl e, s1) \<Rightarrow> (Inl (Wrap ''set revenge flag'' (Sql e)), s1)
      | (Inr _, s1) \<Rightarrow> (Inr (), s1))"

end
