(* ===== verification/Pnl.thy ===== *)
theory Pnl imports Trades begin

text \<open>
  Facts about the derived profit of a closed trade (\<open>derive\<close>, \<open>round8\<close> and \<open>signf\<close> of
  \<open>internal/trades/repo.go\<close>): when nothing overflows, the rounding is exact to one unit of the
  eighth decimal, and the outcome label agrees with the sign of the stored profit and with the
  direction of the price move. The argument rests on the laws of \<open>rounding\<close> alone, so it
  holds with and without fused multiply-add.
\<close>

section \<open>The rounding to eight decimals\<close>

lemma fl_consts:
  "fl 9000000000000000000 = 9000000000000000000"
  "fl (18000000000000000001 / 2) = 9000000000000000000"
  "fl (9000000000000000000 + 1/2) = 9000000000000000000"
  by code_simp+

text \<open>A rounding stays within bounds that are themselves doubles.\<close>

lemma fl_abs_le:
  assumes "\<bar>x\<bar> \<le> b" and "fl b = b"
  shows "\<bar>fl x\<bar> \<le> b"
  using dbl.rnd_between [of "- b" x b] assms by (auto simp: fl_minus abs_le_iff)

lemma of_exact_Fin: "\<bar>fl x\<bar> < f64_limit \<Longrightarrow> of_exact x = Fin (fl x)"
  by (auto simp: of_exact_def Let_def abs_less_iff)

lemma of_exact_small:
  assumes "\<bar>x\<bar> \<le> 1267650600228229401496703205376"
  shows "of_exact x = Fin (fl x)"
proof (rule of_exact_Fin)
  have "fl 1267650600228229401496703205376 = 1267650600228229401496703205376" by code_simp
  then have "\<bar>fl x\<bar> \<le> 1267650600228229401496703205376" using assms by (rule fl_abs_le [rotated])
  also have "(1267650600228229401496703205376::rat) = 2 ^ 100" by simp
  also have "(2::rat) ^ 100 < 2 ^ 1024" by (rule power_strict_increasing) simp_all
  finally show "\<bar>fl x\<bar> < f64_limit" .
qed

definition half_away :: "rat \<Rightarrow> rat" where
  "half_away a = (if a < 0 then - 1/2 else 1/2)"

text \<open>The value \<open>f*scale+0.5*signf(f)\<close> of \<open>round8\<close> as a rational, for arguments in range.\<close>

definition scaled :: "go_arch \<Rightarrow> rat \<Rightarrow> rat" where
  "scaled ar a = (if fused ar then fl (a * 100000000 + half_away a)
                  else fl (fl (a * 100000000) + half_away a))"

lemma muladd_scaled:
  assumes "\<bar>a\<bar> \<le> 90000000000"
  shows "f_muladd ar (Fin a) (Fin 100000000) (Fin (1/2 * signf (Fin a))) = Fin (scaled ar a)"
proof -
  have half: "1/2 * signf (Fin a) = half_away a" by (simp add: signf_def half_away_def)
  have ab: "\<bar>a * 100000000\<bar> \<le> 9000000000000000000" using assms by (simp add: abs_mult)
  then have "\<bar>fl (a * 100000000)\<bar> \<le> 9000000000000000000" by (rule fl_abs_le) (rule fl_consts)
  moreover have "\<bar>half_away a\<bar> \<le> 1" by (simp add: half_away_def)
  ultimately have "\<bar>a * 100000000 + half_away a\<bar> \<le> 1267650600228229401496703205376"
      "\<bar>fl (a * 100000000) + half_away a\<bar> \<le> 1267650600228229401496703205376" "\<bar>a * 100000000\<bar> \<le> 1267650600228229401496703205376"
    using ab by linarith+
  then show ?thesis by (simp only: half f_muladd.simps scaled_def of_exact_small f_add.simps if_distrib if_cancel cong: if_cong) simp
qed

lemma scaled_nonpos:
  assumes "a < 0"
  shows "scaled ar a \<le> 0"
proof -
  have "fl (a * 100000000) \<le> 0" using assms by (intro dbl.rnd_nonpos) simp
  then have "fl (fl (a * 100000000) + - 1/2) \<le> 0" "fl (a * 100000000 + - 1/2) \<le> 0"
    using assms by (intro dbl.rnd_nonpos; simp)+
  then show ?thesis using assms by (simp add: scaled_def half_away_def)
qed

lemma scaled_bounds:
  assumes "\<bar>a\<bar> \<le> 90000000000"
  shows "\<bar>scaled ar a\<bar> \<le> 9000000000000000000" and "0 \<le> a \<Longrightarrow> 0 \<le> scaled ar a" and "a \<le> 0 \<Longrightarrow> trunc0 (scaled ar a) \<le> 0"
proof -
  have ab: "\<bar>a * 100000000\<bar> \<le> 9000000000000000000" using assms by (simp add: abs_mult)
  then have fb: "\<bar>fl (a * 100000000)\<bar> \<le> 9000000000000000000" by (rule fl_abs_le) (rule fl_consts)
  have h: "\<bar>half_away a\<bar> = 1/2" by (simp add: half_away_def)
  have up: "\<bar>fl x\<bar> \<le> 9000000000000000000" if "\<bar>x\<bar> \<le> 9000000000000000000 + 1/2" for x
  proof -
    have "fl x \<le> fl (9000000000000000000 + 1/2)" "fl (- x) \<le> fl (9000000000000000000 + 1/2)"
      using that by (intro dbl.rnd_mono; simp add: abs_le_iff)+
    then show ?thesis by (simp only: fl_consts dbl.rnd_minus abs_le_iff)
  qed
  show "\<bar>scaled ar a\<bar> \<le> 9000000000000000000"
  proof -
    have "\<bar>a * 100000000 + half_away a\<bar> \<le> 9000000000000000000 + 1/2"
      "\<bar>fl (a * 100000000) + half_away a\<bar> \<le> 9000000000000000000 + 1/2"
      using ab fb h by linarith+
    then show ?thesis by (simp only: scaled_def up split: if_split) simp
  qed
  show "0 \<le> scaled ar a" if "0 \<le> a"
    using that unfolding scaled_def half_away_def
    by (auto intro!: dbl.rnd_nonneg add_nonneg_nonneg)
  show "trunc0 (scaled ar a) \<le> 0" if "a \<le> 0"
  proof (cases "a = 0")
    case True
    have "fl (1/2) = 1/2" by code_simp
    with True show ?thesis by (simp add: scaled_def half_away_def trunc0_def)
  next
    case False
    with that have "scaled ar a \<le> 0" by (intro scaled_nonpos) simp
    then show ?thesis by (rule trunc0_sign)
  qed
qed

lemma to_int64_scaled:
  assumes "\<bar>a\<bar> \<le> 90000000000"
  shows "to_int64 ar (Fin (scaled ar a)) = trunc0 (scaled ar a)"
proof -
  let ?z = "scaled ar a"
  have "\<bar>?z\<bar> \<le> 9000000000000000000" by (rule scaled_bounds(1)) (rule assms)
  then have "\<bar>trunc0 ?z\<bar> \<le> 9000000000000000000"
    unfolding trunc0_def abs_le_iff by (simp; linarith)
  then show ?thesis by (simp add: to_int64_def abs_le_iff)
qed

definition round8_value :: "go_arch \<Rightarrow> rat \<Rightarrow> rat" where
  "round8_value ar a = fl (fl (of_int (trunc0 (scaled ar a))) / 100000000)"

lemma round8_Fin:
  assumes "\<bar>a\<bar> \<le> 90000000000"
  shows "round8 ar (Fin a) = Fin (round8_value ar a)"
proof -
  let ?n = "trunc0 (scaled ar a)"
  have n: "\<bar>of_int ?n\<bar> \<le> (9000000000000000000::rat)"
    using scaled_bounds(1) [OF assms, of ar]
    by (auto simp: trunc0_def abs_le_iff) linarith+
  then have fn: "\<bar>fl (of_int ?n)\<bar> \<le> 9000000000000000000" by (rule fl_abs_le) (rule fl_consts)
  have "of_exact (of_int ?n) = Fin (fl (of_int ?n))"
    using n by (intro of_exact_small) linarith
  moreover have "of_exact (fl (of_int ?n) / 100000000) = Fin (round8_value ar a)"
    unfolding round8_value_def using fn by (intro of_exact_small) (simp add: abs_le_iff)
  ultimately show ?thesis
    by (simp only: round8_def muladd_scaled [OF assms] to_int64_scaled [OF assms] f_div.simps)
qed

lemma round8_sign:
  assumes "\<bar>a\<bar> \<le> 90000000000"
  shows "0 \<le> a \<Longrightarrow> 0 \<le> round8_value ar a" and "a \<le> 0 \<Longrightarrow> round8_value ar a \<le> 0"
proof -
  show "0 \<le> round8_value ar a" if "0 \<le> a"
    using scaled_bounds(2) [OF assms that, of ar] unfolding round8_value_def
    by (intro dbl.rnd_nonneg divide_nonneg_nonneg) (simp_all add: trunc0_sign)
  show "round8_value ar a \<le> 0" if "a \<le> 0"
    using scaled_bounds(3) [OF assms that, of ar] unfolding round8_value_def
    by (intro dbl.rnd_nonpos divide_nonpos_nonneg) (simp_all)
qed

text \<open>Accuracy: up to ten million, \<open>round8\<close> moves a value by at most one unit of the eighth decimal.\<close>

lemma round8_accuracy:
  assumes "\<bar>a\<bar> \<le> 10000000"
  shows "\<bar>round8_value ar a - a\<bar> \<le> 1 / 100000000"
proof -
  let ?y = "a * 100000000" and ?z = "scaled ar a" and ?h = "half_away a"
  have e: "(2::rat) powi (50 - 53) = 1/8" "(2::rat) powi 50 = 1125899906842624"
    "(2::rat) powi (24 - 53) = 1/536870912" "(2::rat) powi 24 = 16777216"
    by (simp_all add: power_int_def power_one_over)
  have h: "?h = 1/2 \<or> ?h = - 1/2" by (simp add: half_away_def)
  have y: "\<bar>?y\<bar> \<le> 1000000000000000" using assms by (simp add: abs_mult)
  have err: "\<bar>fl x - x\<bar> \<le> 1/8" if "\<bar>x\<bar> \<le> 1125899906842624" for x
    using fl_error_powi [of x 50] that by (simp only: e)
  have fy: "\<bar>fl ?y - ?y\<bar> \<le> 1/8" using y by (intro err) linarith
  have z: "\<bar>?z - (?y + ?h)\<bar> \<le> 1/4"
  proof (cases "fused ar")
    case True
    have "\<bar>fl (?y + ?h) - (?y + ?h)\<bar> \<le> 1/8" using y h by (intro err) linarith
    with True show ?thesis by (simp add: scaled_def)
  next
    case False
    have "\<bar>fl (fl ?y + ?h) - (fl ?y + ?h)\<bar> \<le> 1/8" using y h fy by (intro err) linarith
    with fy have "\<bar>fl (fl ?y + ?h) - (?y + ?h)\<bar> \<le> 1/4" by linarith
    with False show ?thesis by (simp add: scaled_def)
  qed
  define n where "n = trunc0 ?z"
  have sgn: "0 \<le> a \<Longrightarrow> 0 \<le> ?z" "a < 0 \<Longrightarrow> ?z \<le> 0"
  proof -
    show "0 \<le> ?z" if "0 \<le> a" using that assms by (intro scaled_bounds(2)) linarith+
    show "?z \<le> 0" if "a < 0" using that by (rule scaled_nonpos)
  qed
  have n: "\<bar>of_int n - ?y\<bar> \<le> 3/4"
  proof (cases "0 \<le> a")
    case True
    with sgn have "n = \<lfloor>?z\<rfloor>" by (simp add: n_def trunc0_def)
    then have "of_int n \<le> ?z" "?z < of_int n + 1" by linarith+
    moreover have "?h = 1/2" using True by (simp add: half_away_def)
    ultimately show ?thesis using z by linarith
  next
    case False
    with sgn have "?z \<le> 0" by simp
    then have "n = \<lceil>?z\<rceil>" by (cases "?z = 0") (simp_all add: n_def trunc0_def)
    then have "?z \<le> of_int n" "of_int n - 1 < ?z" by linarith+
    moreover have "?h = - 1/2" using False by (simp add: half_away_def)
    ultimately show ?thesis using z by linarith
  qed
  have "\<bar>of_int n\<bar> \<le> (9007199254740992::rat)" using n y by linarith
  then have "\<bar>of_int n\<bar> \<le> (2::rat) ^ 53" by simp
  then have "\<bar>n\<bar> \<le> 2 ^ 53" by (metis of_int_abs of_int_le_iff of_int_numeral of_int_power)
  then have fn: "fl (of_int n) = of_int n" by (rule fl_of_int)
  have q: "\<bar>of_int n / 100000000 - a\<bar> \<le> 3/400000000"
    using n by linarith
  have "\<bar>fl (of_int n / 100000000) - of_int n / 100000000\<bar> \<le> 1/536870912"
    using fl_error_powi [of "of_int n / 100000000" 24] q assms by (simp only: e)
  with q have "\<bar>fl (of_int n / 100000000) - a\<bar> \<le> 1 / 100000000" by linarith
  then show ?thesis by (simp only: round8_value_def n_def [symmetric] fn)
qed

section \<open>Derivation\<close>

text \<open>The unrounded profit the code computes, when it is finite.\<close>

definition raw_pnl :: "trade_input \<Rightarrow> rat \<Rightarrow> rat" where
  "raw_pnl inp exit =
     fl ((if Direction inp = ''short'' then - fl (exit - EntryPrice inp) else fl (exit - EntryPrice inp))
         * Quantity inp)"

definition in_range :: "trade_input \<Rightarrow> rat \<Rightarrow> bool" where
  "in_range inp exit \<longleftrightarrow> \<bar>exit - EntryPrice inp\<bar> \<le> 1267650600228229401496703205376
     \<and> \<bar>raw_pnl inp exit\<bar> \<le> 90000000000"

lemma derive_none: "Status inp \<noteq> ''closed'' \<or> ExitPrice inp = None \<Longrightarrow> derive ar inp = (None, None)"
  by (auto simp: derive_def split: option.splits)

lemma derive_closed:
  assumes "Status inp = ''closed''" and "ExitPrice inp = Some exit" and "in_range inp exit"
  shows "derive ar inp =
    (Some (Fin (round8_value ar (raw_pnl inp exit))),
     Some (if round8_value ar (raw_pnl inp exit) < 0 then ''loss'' else ''win''))"
proof -
  let ?d = "exit - EntryPrice inp"
  have d: "f_sub (Fin exit) (Fin (EntryPrice inp)) = Fin (fl ?d)"
    using assms(3) by (simp add: f_sub_def of_exact_small in_range_def)
  have raw: "\<bar>raw_pnl inp exit\<bar> \<le> 90000000000" using assms(3) by (simp add: in_range_def)
  have lim: "(90000000000::rat) < f64_limit"
  proof -
    have "(90000000000::rat) < 2 ^ 100" by simp
    also have "\<dots> < (2::rat) ^ 1024" by (rule power_strict_increasing) simp_all
    finally show ?thesis .
  qed
  have "f_mul (if Direction inp = ''short'' then f_neg (Fin (fl ?d)) else Fin (fl ?d)) (Fin (Quantity inp))
      = Fin (raw_pnl inp exit)"
    using raw lim of_exact_Fin [of "- (fl ?d) * Quantity inp"] of_exact_Fin [of "fl ?d * Quantity inp"]
    by (simp add: raw_pnl_def del: power_numeral split: if_splits)
  then show ?thesis
    by (simp only: derive_def assms(1,2) option.case d Let_def round8_Fin [OF raw] f_lt.simps)
      simp
qed

lemma raw_pnl_sign:
  assumes "0 < Quantity inp"
  shows "Direction inp \<noteq> ''short'' \<Longrightarrow> EntryPrice inp \<le> exit \<Longrightarrow> 0 \<le> raw_pnl inp exit"
    and "Direction inp \<noteq> ''short'' \<Longrightarrow> exit \<le> EntryPrice inp \<Longrightarrow> raw_pnl inp exit \<le> 0"
    and "Direction inp = ''short'' \<Longrightarrow> exit \<le> EntryPrice inp \<Longrightarrow> 0 \<le> raw_pnl inp exit"
    and "Direction inp = ''short'' \<Longrightarrow> EntryPrice inp \<le> exit \<Longrightarrow> raw_pnl inp exit \<le> 0"
  using assms dbl.rnd_nonneg [of "exit - EntryPrice inp"] dbl.rnd_nonpos [of "exit - EntryPrice inp"]
  by (auto simp: raw_pnl_def intro!: dbl.rnd_nonneg dbl.rnd_nonpos mult_nonneg_nonneg mult_nonpos_nonneg)

section \<open>Properties\<close>

text \<open>
  C8: Within range, a closed trade always gets a profit and an outcome; the outcome is loss exactly
  when the rounded profit is negative, a price move in the trade's favour (up for long, down for
  short) never yields a negative profit, a move against it never a positive one, and the
  rounding to eight decimals moves a profit of at most ten million by at most one unit of the eighth
  decimal.
\<close>

theorem derive_outcome:
  assumes "Status inp = ''closed''" and "ExitPrice inp = Some exit"
    and "0 < Quantity inp" and "in_range inp exit"
  shows "\<exists>p. derive ar inp = (Some (Fin p), Some (if p < 0 then ''loss'' else ''win'')) \<and>
    (Direction inp \<noteq> ''short'' \<longrightarrow> (EntryPrice inp \<le> exit \<longrightarrow> 0 \<le> p) \<and> (exit \<le> EntryPrice inp \<longrightarrow> p \<le> 0)) \<and>
    (Direction inp = ''short'' \<longrightarrow> (exit \<le> EntryPrice inp \<longrightarrow> 0 \<le> p) \<and> (EntryPrice inp \<le> exit \<longrightarrow> p \<le> 0)) \<and>
    (\<bar>raw_pnl inp exit\<bar> \<le> 10000000 \<longrightarrow> \<bar>p - raw_pnl inp exit\<bar> \<le> 1 / 100000000)"
proof -
  have raw: "\<bar>raw_pnl inp exit\<bar> \<le> 90000000000" using assms(4) by (simp add: in_range_def)
  show ?thesis
    using raw_pnl_sign [OF assms(3)] round8_sign [OF raw, of ar] round8_accuracy
    by (intro exI [of _ "round8_value ar (raw_pnl inp exit)"])
       (simp add: derive_closed [OF assms(1,2,4)])
qed

definition sample_input :: trade_input where
  "sample_input = \<lparr>TradeID = 1, UserID = 2, SessionID = 3, Asset = ''AAPL'', AssetClass = ''equity'',
     Direction = ''long'', EntryPrice = 100, ExitPrice = Some 110, Quantity = 1, EntryAt = 1000,
     ExitAt = Some 2000, Status = ''closed'', PlanAdherence = Some 4, EmotionalState = Some ''calm'',
     EntryRationale = None\<rparr>"

lemma sample_input_fields [simp]:
  "TradeID sample_input = 1" "UserID sample_input = 2" "SessionID sample_input = 3"
  "Status sample_input = ''closed''" "Direction sample_input = ''long''"
  "EntryPrice sample_input = 100" "ExitPrice sample_input = Some 110" "Quantity sample_input = 1"
  "EntryAt sample_input = 1000" "ExitAt sample_input = Some 2000"
  by (simp_all add: sample_input_def)

lemma sample_raw_pnl: "raw_pnl sample_input 110 = 10"
  using fl_of_int [of 10] by (simp add: raw_pnl_def)

theorem derive_outcome_witness:
  "\<exists>p. derive ref_arch sample_input = (Some (Fin p), Some (if p < 0 then ''loss'' else ''win'')) \<and>
     0 \<le> p \<and> \<bar>p - 10\<bar> \<le> 1 / 100000000"
proof -
  have "in_range sample_input 110"
    unfolding in_range_def sample_raw_pnl by simp
  then obtain p where "derive ref_arch sample_input = (Some (Fin p), Some (if p < 0 then ''loss'' else ''win''))"
      "0 \<le> p" "\<bar>p - raw_pnl sample_input 110\<bar> \<le> 1 / 100000000"
    using derive_outcome [of sample_input 110 ref_arch] by (force simp: sample_raw_pnl)
  then show ?thesis by (auto simp only: sample_raw_pnl)
qed

end
