(* ===== verification/Trade_Store.thy ===== *)
theory Trade_Store imports Pnl begin

text \<open>
  Facts about validation and the repository of \<open>internal/trades\<close>: what an accepted request
  guarantees, which failures are left for the database, and the contract \<open>trade_store\<close> of
  \<open>Insert\<close> and \<open>Get\<close>, from which idempotency follows.
\<close>

section \<open>What validation guarantees\<close>

text \<open>The constraints the OpenAPI schema declares, with the enums read off the database's types.\<close>

definition valid_input :: "trade_input \<Rightarrow> bool" where
  "valid_input inp \<longleftrightarrow>
     TradeID inp \<noteq> uuid_nil \<and> UserID inp \<noteq> uuid_nil \<and> SessionID inp \<noteq> uuid_nil \<and> Asset inp \<noteq> '''' \<and>
     (\<exists>c. asset_class_of (AssetClass inp) = Inr c) \<and> (\<exists>d. direction_of (Direction inp) = Inr d) \<and>
     0 < EntryPrice inp \<and> 0 < Quantity inp \<and> EntryAt inp \<noteq> zero_time \<and>
     (\<exists>st. status_of (Status inp) = Inr st) \<and>
     (Status inp = ''closed'' \<longrightarrow> (\<exists>t. ExitAt inp = Some t \<and> t \<noteq> zero_time)) \<and>
     (Status inp = ''closed'' \<longrightarrow> (\<exists>x. ExitPrice inp = Some x \<and> 0 < x)) \<and>
     (\<forall>v. PlanAdherence inp = Some v \<longrightarrow> 1 \<le> v \<and> v \<le> 5) \<and>
     (\<forall>e. EmotionalState inp = Some e \<longrightarrow> (\<exists>em. emotion_of e = Inr em)) \<and>
     (\<forall>t. EntryRationale inp = Some t \<longrightarrow> length t \<le> 500)"

lemma enum_strings:
  "(\<exists>c. asset_class_of s = Inr c) \<longleftrightarrow> s \<in> {''equity'', ''crypto'', ''forex''}"
  "(\<exists>d. direction_of s = Inr d) \<longleftrightarrow> s \<in> {''long'', ''short''}"
  "(\<exists>st. status_of s = Inr st) \<longleftrightarrow> s \<in> {''open'', ''closed'', ''cancelled''}"
  "(\<exists>em. emotion_of s = Inr em) \<longleftrightarrow> s \<in> {''calm'', ''anxious'', ''greedy'', ''fearful'', ''neutral''}"
  by (auto simp: enum_defs)

lemma if_Some_None: "(if b then Some x else y) = None \<longleftrightarrow> \<not> b \<and> y = None"
  by simp

lemma not_case_None_True: "\<not> (case x of None \<Rightarrow> True | Some t \<Rightarrow> P t) \<longleftrightarrow> (\<exists>t. x = Some t \<and> \<not> P t)"
  by (cases x) auto

lemma not_case_None_False: "\<not> (case x of None \<Rightarrow> False | Some t \<Rightarrow> P t) \<longleftrightarrow> (\<forall>t. x = Some t \<longrightarrow> \<not> P t)"
  by (cases x) auto

lemma not_conj_imp: "\<not> (a \<and> b) \<longleftrightarrow> (a \<longrightarrow> \<not> b)"
  by blast

lemma validate_iff: "validate inp = None \<longleftrightarrow> valid_input inp"
  unfolding valid_input_def enum_strings validate_def
  by (simp only: if_Some_None not_conj_imp not_case_None_True not_case_None_False
        de_Morgan_disj not_less not_le not_not simp_thms)

section \<open>What a validated request can run into at the database\<close>

text \<open>The only failures left are those of the column types: a zero byte in a text, a number too
  large for \<open>NUMERIC(18, 8)\<close>, or a positive number that rounds to zero there.\<close>

definition overflows :: "platform \<Rightarrow> trade_input \<Rightarrow> bool" where
  "overflows P inp \<longleftrightarrow>
     (\<exists>f \<in> {Fin (EntryPrice inp), Fin (Quantity inp)} \<union> Fin ` set_option (ExitPrice inp)
          \<union> set_option (fst (derive (arch P) inp)). float_column P f = Inl NumericOverflow)"

definition column_failure :: "platform \<Rightarrow> trade_input \<Rightarrow> sql_error \<Rightarrow> bool" where
  "column_failure P inp e \<longleftrightarrow>
     (e = InvalidText \<and> (CHR 0x00 \<in> set (Asset inp) \<or> (\<exists>t. EntryRationale inp = Some t \<and> CHR 0x00 \<in> set t))) \<or>
     (e = NumericOverflow \<and> overflows P inp) \<or>
     (e = CheckViolation ''trades_entry_price_check'' \<and> numeric_round 8 (float_text P (EntryPrice inp)) \<le> 0) \<or>
     (e = CheckViolation ''trades_quantity_check'' \<and> numeric_round 8 (float_text P (Quantity inp)) \<le> 0)"

lemma derive_outcome_label: "derive ar inp = (p, oc) \<Longrightarrow> oc = None \<or> (\<exists>c. opt_ok outcome_of oc = Inr c)"
  by (auto simp: derive_def Let_def outcome_of_def enum_of_def split: option.splits if_splits)

lemma to_numeric_Inr: "to_numeric p sc x = Inr r \<Longrightarrow> r = numeric_round sc x \<and> \<bar>r\<bar> < 10 ^ (p - sc)"
  by (auto simp: to_numeric_def Let_def split: if_splits)

lemma to_numeric_Inl: "to_numeric p sc x = Inl e \<Longrightarrow> e = NumericOverflow"
  by (auto simp: to_numeric_def Let_def split: if_splits)

lemma float_column_Inl: "float_column P f = Inl e \<Longrightarrow> e = NumericOverflow"
  by (auto simp: float_column_def dest: to_numeric_Inl split: float64.splits)

lemma to_text_Inl: "to_text t = Inl e \<longleftrightarrow> e = InvalidText \<and> CHR 0x00 \<in> set t"
  by (auto simp: to_text_def)

lemma opt_ok_Inl: "opt_ok f x = Inl e \<longleftrightarrow> (\<exists>v. x = Some v \<and> f v = Inl e)"
  by (cases x) (auto simp: bind_ok_Inl_iff)

lemma column_errors:
  "to_text t = Inl e \<Longrightarrow> e = InvalidText"
  "asset_class_of t = Inl e \<Longrightarrow> e = InvalidEnum"
  "direction_of t = Inl e \<Longrightarrow> e = InvalidEnum"
  "status_of t = Inl e \<Longrightarrow> e = InvalidEnum"
  "outcome_of t = Inl e \<Longrightarrow> e = InvalidEnum"
  "emotion_of t = Inl e \<Longrightarrow> e = InvalidEnum"
  "to_int2 n = Inl e \<Longrightarrow> e = IntOutOfRange"
  by (auto simp: to_text_def to_int2_def asset_class_of_def direction_of_def status_of_def
      outcome_of_def emotion_of_def enum_of_def split: if_splits option.splits)

lemma new_trade_row_errors:
  "new_trade_row P inp p oc now = Inl e \<Longrightarrow> e \<in> {InvalidText, InvalidEnum, NumericOverflow, IntOutOfRange}"
  unfolding new_trade_row_def
  by (auto simp: bind_ok_Inl_iff opt_ok_Inl dest: column_errors float_column_Inl)

lemma new_trade_row_Inl:
  assumes "valid_input inp" and "derive (arch P) inp = (p, oc)"
    and "new_trade_row P inp p oc now = Inl e"
  shows "column_failure P inp e"
proof -
  from assms(1) obtain c d st where "asset_class_of (AssetClass inp) = Inr c"
      "direction_of (Direction inp) = Inr d" "status_of (Status inp) = Inr st"
    by (auto simp: valid_input_def)
  moreover have "opt_ok to_int2 (PlanAdherence inp) = Inr (PlanAdherence inp)"
    using assms(1) by (cases "PlanAdherence inp") (auto simp: valid_input_def to_int2_def)
  moreover obtain em where "opt_ok emotion_of (EmotionalState inp) = Inr em"
    using assms(1) by (cases "EmotionalState inp") (auto simp: valid_input_def)
  moreover obtain ov where "opt_ok outcome_of oc = Inr ov"
    using derive_outcome_label [OF assms(2)] by (cases oc) auto
  ultimately have "(e = InvalidText \<and> (CHR 0x00 \<in> set (Asset inp) \<or> (\<exists>t. EntryRationale inp = Some t \<and> CHR 0x00 \<in> set t))) \<or>
      float_column P (Fin (EntryPrice inp)) = Inl e \<or>
      (\<exists>x. ExitPrice inp = Some x \<and> float_column P (Fin x) = Inl e) \<or>
      float_column P (Fin (Quantity inp)) = Inl e \<or> (\<exists>f. p = Some f \<and> float_column P f = Inl e)"
    using assms(3) unfolding new_trade_row_def
    by (auto simp: bind_ok_Inl_iff to_text_Inl opt_ok_Inl)
  then show ?thesis
    using float_column_Inl [of P _ e]
    by (elim disjE exE conjE) (auto simp: column_failure_def overflows_def assms(2))
qed

lemma new_trade_row_cases:
  assumes "new_trade_row P inp p oc now = Inr r"
  obtains c d ep xp q st em ov pn where
    "asset_class_of (AssetClass inp) = Inr c" "direction_of (Direction inp) = Inr d"
    "float_column P (Fin (EntryPrice inp)) = Inr ep"
    "opt_ok (\<lambda>x. float_column P (Fin x)) (ExitPrice inp) = Inr xp"
    "float_column P (Fin (Quantity inp)) = Inr q" "status_of (Status inp) = Inr st"
    "opt_ok emotion_of (EmotionalState inp) = Inr em" "opt_ok outcome_of oc = Inr ov"
    "opt_ok (float_column P) p = Inr pn"
    "r = \<lparr>trade_id = TradeID inp, user_id = UserID inp, trader_name = None,
         session_id = SessionID inp, asset = Asset inp, asset_class = c,
         direction = d, entry_price = ep, exit_price = xp,
         quantity = q, entry_at = to_timestamptz (EntryAt inp),
         exit_at = map_option to_timestamptz (ExitAt inp), status = st,
         outcome = ov, pnl = pn, plan_adherence = PlanAdherence inp,
         emotional_state = em, entry_rationale = EntryRationale inp, revenge_flag = False,
         ground_truth_pathologies = None, created_at = now, updated_at = now\<rparr>"
proof -
  have t: "to_text x = Inr y \<Longrightarrow> y = x" for x y by (auto simp: to_text_def split: if_splits)
  have o: "opt_ok to_text x = Inr y \<Longrightarrow> y = x" for x y by (cases x) (auto simp: bind_ok_Inr_iff dest: t)
  have i: "opt_ok to_int2 x = Inr y \<Longrightarrow> y = x" for x y
    by (cases x) (auto simp: bind_ok_Inr_iff to_int2_def split: if_splits)
  show thesis
    using assms unfolding new_trade_row_def bind_ok_Inr_iff
    by (elim exE conjE, intro that; (assumption | simp only: sum.inject)) (metis t o i)?
qed


lemma new_trade_row_fields:
  assumes "new_trade_row P inp p oc now = Inr r"
  shows "trade_id r = TradeID inp" "user_id r = UserID inp" "session_id r = SessionID inp"
    "status_text (status r) = Status inp" "direction_text (direction r) = Direction inp"
    "map_option outcome_text (outcome r) = oc" "opt_ok (float_column P) p = Inr (pnl r)"
    "entry_price r = numeric_round 8 (float_text P (EntryPrice inp))"
    "quantity r = numeric_round 8 (float_text P (Quantity inp))"
    "entry_at r = to_timestamptz (EntryAt inp)" "exit_at r = map_option to_timestamptz (ExitAt inp)"
    "exit_price r = None \<longleftrightarrow> ExitPrice inp = None"
    "plan_adherence r = PlanAdherence inp" "entry_rationale r = EntryRationale inp"
    "map_option emotion_text (emotional_state r) = EmotionalState inp" "revenge_flag r = False"
    "created_at r = now"
  using assms
  by (cases rule: new_trade_row_cases [OF assms];
      auto simp: float_column_def opt_ok_Inr_None opt_ok_def bind_ok_Inr_iff text_of_enum
        dest!: to_numeric_Inr split: option.splits)+

text \<open>The clock only stamps the row.\<close>

lemma new_trade_row_clock:
  "new_trade_row P inp p oc now' =
     (case new_trade_row P inp p oc now of Inl e \<Rightarrow> Inl e
      | Inr r \<Rightarrow> Inr (r\<lparr>created_at := now', updated_at := now'\<rparr>))"
  unfolding new_trade_row_def by (simp add: bind_ok_def split: sum.split)

lemma trade_checks_clock [simp]:
  "trade_checks (r\<lparr>created_at := a, updated_at := b\<rparr>) = trade_checks r"
  by (simp add: trade_checks_def)

text \<open>A request whose row the table would accept.\<close>

definition insertable :: "platform \<Rightarrow> trade_input \<Rightarrow> bool" where
  "insertable P inp \<longleftrightarrow> (case derive (arch P) inp of (p, oc) \<Rightarrow>
     \<exists>r. new_trade_row P inp p oc 0 = Inr r \<and> trade_checks r = None)"

definition built_row :: "platform \<Rightarrow> trade_input \<Rightarrow> instant \<Rightarrow> trade_row" where
  "built_row P inp now = (case derive (arch P) inp of (p, oc) \<Rightarrow>
     (case new_trade_row P inp p oc now of Inr r \<Rightarrow> r | Inl e \<Rightarrow> undefined))"

lemma insertable_row:
  assumes "insertable P inp" and "derive (arch P) inp = (p, oc)"
  shows "new_trade_row P inp p oc now = Inr (built_row P inp now)"
    and "trade_checks (built_row P inp now) = None"
proof -
  from assms obtain r where r: "new_trade_row P inp p oc 0 = Inr r" "trade_checks r = None"
    by (auto simp: insertable_def)
  then show "new_trade_row P inp p oc now = Inr (built_row P inp now)"
    using assms(2) by (simp add: built_row_def new_trade_row_clock [of P inp p oc now 0])
  show "trade_checks (built_row P inp now) = None"
    using r assms(2) by (simp add: built_row_def new_trade_row_clock [of P inp p oc now 0])
qed

text \<open>On a healthy connection an insert appends a new row, answers with the existing one, or fails
  without touching the table.\<close>

lemma Insert_healthy:
  assumes "faults s = []"
  shows "insertable P inp \<Longrightarrow> tbl_lookup trade_id (TradeID inp) (trades s) = None \<Longrightarrow>
      Insert P inp s = (Inr (scan P (built_row P inp (clock s)), True),
                        s\<lparr>trades := trades s @ [built_row P inp (clock s)]\<rparr>)"
    and "insertable P inp \<Longrightarrow> tbl_lookup trade_id (TradeID inp) (trades s) = Some r \<Longrightarrow>
      Insert P inp s = (Inr (scan P r, False), s)"
    and "\<not> insertable P inp \<Longrightarrow> \<exists>e. Insert P inp s = (Inl (Wrap ''insert'' (Sql e)), s)"
proof -
  obtain p oc where d: "derive (arch P) inp = (p, oc)" by fastforce
  show "Insert P inp s = (Inr (scan P (built_row P inp (clock s)), True),
                        s\<lparr>trades := trades s @ [built_row P inp (clock s)]\<rparr>)"
    if "insertable P inp" "tbl_lookup trade_id (TradeID inp) (trades s) = None"
    using that assms insertable_row [OF that(1) d, of "clock s"] new_trade_row_fields(1) [of P inp p oc "clock s"]
    by (simp add: Insert_def d insert_stmt_def db_simps)
  show "Insert P inp s = (Inr (scan P r, False), s)"
    if "insertable P inp" "tbl_lookup trade_id (TradeID inp) (trades s) = Some r"
    using that assms insertable_row [OF that(1) d, of "clock s"] new_trade_row_fields(1) [of P inp p oc "clock s"]
    by (simp add: Insert_def d insert_stmt_def db_simps Get_def read_row_def)
  show "\<exists>e. Insert P inp s = (Inl (Wrap ''insert'' (Sql e)), s)" if "\<not> insertable P inp"
  proof (cases "new_trade_row P inp p oc (clock s)")
    case (Inl e)
    then have "e \<noteq> NoRows" by (auto dest: new_trade_row_errors)
    then show ?thesis using assms Inl by (simp add: Insert_def d insert_stmt_def db_simps)
  next
    case (Inr r)
    with that d have "trade_checks r \<noteq> None"
      by (auto simp: insertable_def new_trade_row_clock [of P inp p oc 0 "clock s"])
    then show ?thesis using assms Inr by (auto simp: Insert_def d insert_stmt_def db_simps)
  qed
qed

section \<open>The store contract\<close>

text \<open>
  What a client of the repository relies on: an insert is visible under its key, touches no other
  key, and answers a key that is present with the stored record. On a record of the store the
  contract makes resubmission idempotent, and keeps it stable under any later inserts.
\<close>

locale trade_store =
  fixes insert :: "'i \<Rightarrow> 's \<Rightarrow> ('e + 't \<times> bool) \<times> 's"
    and get :: "'k \<Rightarrow> 's \<Rightarrow> ('e + 't) \<times> 's"
    and key :: "'i \<Rightarrow> 'k"
    and healthy :: "'s \<Rightarrow> bool"
    and accepts :: "'i \<Rightarrow> bool"
  assumes healthy_insert: "healthy s \<Longrightarrow> healthy (snd (insert i s))"
    and get_inserted: "healthy s \<Longrightarrow> insert i s = (Inr (t, b), s') \<Longrightarrow> get (key i) s' = (Inr t, s')"
    and insert_present: "healthy s \<Longrightarrow> accepts i \<Longrightarrow> get (key i) s = (Inr t, s) \<Longrightarrow>
      insert i s = (Inr (t, False), s)"
    and insert_refused: "healthy s \<Longrightarrow> \<not> accepts i \<Longrightarrow> (\<exists>e. insert i s = (Inl e, s))"
    and get_other: "healthy s \<Longrightarrow> k \<noteq> key i \<Longrightarrow> get k s = (Inr t, s) \<Longrightarrow>
      get k (snd (insert i s)) = (Inr t, snd (insert i s))"
begin

fun insert_all :: "'i list \<Rightarrow> 's \<Rightarrow> 's" where
  "insert_all [] s = s"
| "insert_all (i # is) s = insert_all is (snd (insert i s))"

lemma healthy_insert_all: "healthy s \<Longrightarrow> healthy (insert_all is s)"
  by (induction "is" arbitrary: s) (auto intro: healthy_insert)

lemma get_stable_step:
  assumes "healthy s" and "get k s = (Inr t, s)"
  shows "get k (snd (insert i s)) = (Inr t, snd (insert i s))"
proof (cases "k = key i \<and> accepts i")
  case True
  with assms show ?thesis by (auto simp: insert_present)
next
  case False
  show ?thesis
  proof (cases "accepts i")
    case True
    with False assms show ?thesis by (intro get_other) auto
  next
    case False
    then show ?thesis using insert_refused [OF assms(1) False] assms(2) by auto
  qed
qed

lemma get_stable:
  "healthy s \<Longrightarrow> get k s = (Inr t, s) \<Longrightarrow> get k (insert_all is s) = (Inr t, insert_all is s)"
  by (induction "is" arbitrary: s) (auto intro: healthy_insert get_stable_step)

lemma accepted:
  assumes "healthy s" and "insert i s = (Inr r, s')"
  shows "accepts i"
  using insert_refused [OF assms(1), of i] assms(2) by auto

text \<open>Resubmission after any number of other inserts returns the first record and changes nothing.\<close>

lemma insert_idempotent:
  assumes "healthy s" and "insert i s = (Inr (t, b), s')"
  shows "insert i (insert_all is s') = (Inr (t, False), insert_all is s')"
proof (rule insert_present)
  have h: "healthy s'" using healthy_insert [OF assms(1), of i] assms(2) by simp
  show "healthy (insert_all is s')" using h by (rule healthy_insert_all)
  show "accepts i" using assms by (rule accepted)
  show "get (key i) (insert_all is s') = (Inr t, insert_all is s')"
    using h get_inserted [OF assms] by (rule get_stable)
qed

end

lemma Get_healthy:
  "faults s = [] \<Longrightarrow> Get P k s =
     (case tbl_lookup trade_id k (trades s) of None \<Rightarrow> (Inl ErrNotFound, s) | Some r \<Rightarrow> (Inr (scan P r), s))"
  by (simp add: Get_def db_simps read_row_def split: option.split)

lemma Insert_cases:
  assumes "faults s = []"
  obtains (refused) e where "\<not> insertable P inp" "Insert P inp s = (Inl (Wrap ''insert'' (Sql e)), s)"
  | (present) r where "insertable P inp" "tbl_lookup trade_id (TradeID inp) (trades s) = Some r"
      "Insert P inp s = (Inr (scan P r, False), s)"
  | (fresh) "insertable P inp" "tbl_lookup trade_id (TradeID inp) (trades s) = None"
      "Insert P inp s = (Inr (scan P (built_row P inp (clock s)), True),
                         s\<lparr>trades := trades s @ [built_row P inp (clock s)]\<rparr>)"
  using Insert_healthy [OF assms, of P inp]
  by (cases "insertable P inp"; cases "tbl_lookup trade_id (TradeID inp) (trades s)") auto

lemma built_row_id: "insertable P inp \<Longrightarrow> trade_id (built_row P inp now) = TradeID inp"
  by (metis insertable_row(1) new_trade_row_fields(1) surj_pair)

interpretation store: trade_store "Insert P" "Get P" TradeID "\<lambda>s :: db. faults s = []" "insertable P" for P
proof
  fix s :: db and i t b s' k
  assume h: "faults s = []"
  show "faults (snd (Insert P i s)) = []"
    using h by (cases rule: Insert_cases [OF h, of P i]) auto
  show "Get P (TradeID i) s' = (Inr t, s')" if "Insert P i s = (Inr (t, b), s')"
    using that h
    by (cases rule: Insert_cases [OF h, of P i]) (auto simp: Get_healthy tbl_lookup_append built_row_id)
  show "Insert P i s = (Inr (t, False), s)" if "insertable P i" "Get P (TradeID i) s = (Inr t, s)"
    using that h Insert_healthy(2) [OF h that(1)] by (auto simp: Get_healthy split: option.splits)
  show "\<exists>e. Insert P i s = (Inl e, s)" if "\<not> insertable P i"
    using Insert_healthy(3) [OF h that] by blast
  show "Get P k (snd (Insert P i s)) = (Inr t, snd (Insert P i s))"
    if "k \<noteq> TradeID i" "Get P k s = (Inr t, s)"
    using that h
    by (cases rule: Insert_cases [OF h, of P i])
       (auto simp: Get_healthy tbl_lookup_append built_row_id split: option.splits)
qed

section \<open>Effects under connection faults\<close>

lemma same_tables_Get: "same_tables s (snd (Get P k s))"
  using db_read_same [of s "\<lambda>s. tbl_lookup trade_id k (trades s)"] by (auto simp: Get_def split: prod.splits sum.splits)

lemma Get_Inr:
  assumes "Get P k s = (Inr t, s')"
  shows "\<exists>r. tbl_lookup trade_id k (trades s) = Some r \<and> t = scan P r"
proof -
  obtain x s1 where x: "db_query_row (read_row (\<lambda>s. tbl_lookup trade_id k (trades s))) s = (x, s1)" by fastforce
  with assms obtain r where r: "x = Inr r" "t = scan P r" by (auto simp: Get_def split: sum.splits if_splits)
  from db_read_cases [OF x] r(1) obtain s2 where "same_tables s s2"
      "Inr r = (case tbl_lookup trade_id k (trades s2) of None \<Rightarrow> Inl NoRows | Some v \<Rightarrow> Inr v)" by auto
  with r(2) show ?thesis by (auto simp: same_tables_iff split: option.splits)
qed

lemma Get_not_found:
  assumes "Get P k s = (Inl ErrNotFound, s')"
  shows "k \<notin> trade_id ` set (trades s)"
proof -
  obtain x s1 where x: "db_query_row (read_row (\<lambda>s. tbl_lookup trade_id k (trades s))) s = (x, s1)" by fastforce
  with assms have "x = Inl NoRows" by (auto simp: Get_def split: sum.splits if_splits)
  with db_read_cases [OF x] show ?thesis by (auto simp: same_tables_iff tbl_lookup_None_iff split: option.splits)
qed

lemma insert_stmt_NoRows: "insert_stmt P inp p oc s \<noteq> Inl NoRows"
  by (auto simp: insert_stmt_def bind_ok_Inl_iff dest: new_trade_row_errors split: option.splits if_splits)

text \<open>The statement alone: a conflict leaves the table as it is, a free key takes the row.\<close>

lemma insert_stmt_cases:
  assumes "derive (arch P) inp = (p, oc)" and "insert_stmt P inp p oc s = Inr (v, s')"
  obtains (conflict) "v = None" "s' = s" "TradeID inp \<in> trade_id ` set (trades s)"
  | (added) "insertable P inp" "TradeID inp \<notin> trade_id ` set (trades s)" "v = Some (built_row P inp (clock s))"
      "s' = s\<lparr>trades := trades s @ [built_row P inp (clock s)]\<rparr>"
proof (cases "new_trade_row P inp p oc (clock s)")
  case (Inr r)
  moreover have "trade_checks r = None \<Longrightarrow> insertable P inp"
    using Inr by (simp add: insertable_def assms(1) new_trade_row_clock [of P inp p oc 0 "clock s"])
  moreover have "built_row P inp (clock s) = r" using Inr by (simp add: built_row_def assms(1))
  ultimately show thesis
    using assms(2) new_trade_row_fields(1) [OF Inr] tbl_lookup_None_iff [of trade_id "TradeID inp" "trades s"] that
    by (auto simp: insert_stmt_def split: option.splits if_splits)
qed (use assms(2) in \<open>simp add: insert_stmt_def\<close>)

text \<open>Whatever the connection does, an insert adds at most the requested row, under a key that was free.\<close>

lemma Insert_effect:
  obtains (nothing) "same_tables s (snd (Insert P inp s))"
  | (appended) "insertable P inp" "tbl_lookup trade_id (TradeID inp) (trades s) = None"
      "same_tables (s\<lparr>trades := trades s @ [built_row P inp (clock s)]\<rparr>) (snd (Insert P inp s))"
proof -
  obtain p oc where d: "derive (arch P) inp = (p, oc)" by fastforce
  obtain f s1 where f: "next_fault s = (f, s1)" by fastforce
  then have same: "same_tables s s1" using same_tables_next [of s] by simp
  note get = same_tables_Get
  have same': "trades s1 = trades s" "clock s1 = clock s" using same by (simp_all add: same_tables_iff)
  have stmt: "s2 = s1 \<and> v = None \<or> insertable P inp \<and> tbl_lookup trade_id (TradeID inp) (trades s) = None \<and>
      s2 = s1\<lparr>trades := trades s1 @ [built_row P inp (clock s1)]\<rparr> \<and> v \<noteq> None"
    if "insert_stmt P inp p oc s1 = Inr (v, s2)" for v s2
    using d that by (cases rule: insert_stmt_cases) (auto simp: same' tbl_lookup_None_iff)
  have app: "same_tables (s\<lparr>trades := trades s @ [built_row P inp (clock s)]\<rparr>)
      (s1\<lparr>trades := trades s1 @ [built_row P inp (clock s1)]\<rparr>)"
    using same by (simp add: same_tables_iff)
  show thesis
  proof (cases "insert_stmt P inp p oc s1")
    case (Inl e)
    have "snd (Insert P inp s) = s1 \<or> snd (Insert P inp s) = snd (Get P (TradeID inp) s1)"
      by (cases f) (simp_all add: Insert_def d db_query_row_def f Inl split: prod.split sum.split)
    then have "same_tables s (snd (Insert P inp s))"
      using same get [of s1 P "TradeID inp"] by (auto intro: same_tables_trans)
    then show thesis by (rule nothing)
  next
    case (Inr res)
    obtain v s2 where r: "res = (v, s2)" by fastforce
    have "snd (Insert P inp s) = s1 \<or> snd (Insert P inp s) = s2 \<or>
        v = None \<and> snd (Insert P inp s) = snd (Get P (TradeID inp) s2)"
      by (cases f; cases v)
         (simp_all add: Insert_def d db_query_row_def f Inr r split: prod.split sum.split)
    moreover note stmt [OF Inr [unfolded r]]
    ultimately consider "snd (Insert P inp s) = s1" | "snd (Insert P inp s) = snd (Get P (TradeID inp) s1)"
      | "insertable P inp" "tbl_lookup trade_id (TradeID inp) (trades s) = None"
        "snd (Insert P inp s) = s1\<lparr>trades := trades s1 @ [built_row P inp (clock s1)]\<rparr>"
      by auto
    then show thesis
    proof cases
      case 1
      with same have "same_tables s (snd (Insert P inp s))" by simp
      then show thesis by (rule nothing)
    next
      case 2
      with same get [of s1 P "TradeID inp"] have "same_tables s (snd (Insert P inp s))"
        by (auto intro: same_tables_trans)
      then show thesis by (rule nothing)
    next
      case 3
      with app have "same_tables (s\<lparr>trades := trades s @ [built_row P inp (clock s)]\<rparr>) (snd (Insert P inp s))"
        by simp
      with 3 show thesis by (intro appended)
    qed
  qed
qed

section \<open>The table invariant\<close>

text \<open>Primary key and CHECK constraints; the instants have the resolution of the column.\<close>

definition trades_ok :: "db \<Rightarrow> bool" where
  "trades_ok s \<longleftrightarrow> distinct (map trade_id (trades s)) \<and>
     (\<forall>r \<in> set (trades s). trade_checks r = None \<and> entry_at r mod 1000 = 0 \<and>
        (\<forall>t. exit_at r = Some t \<longrightarrow> t mod 1000 = 0))"

lemma trades_ok_same: "same_tables s s' \<Longrightarrow> trades_ok s' = trades_ok s"
  by (simp add: trades_ok_def same_tables_fields)

lemma to_timestamptz_mod [simp]: "to_timestamptz t mod 1000 = 0"
  by (simp add: to_timestamptz_def)

lemma built_row_fields:
  assumes "insertable P inp"
  shows "trade_checks (built_row P inp now) = None" "trade_id (built_row P inp now) = TradeID inp"
    "user_id (built_row P inp now) = UserID inp" "session_id (built_row P inp now) = SessionID inp"
    "status_text (status (built_row P inp now)) = Status inp"
    "entry_at (built_row P inp now) = to_timestamptz (EntryAt inp)"
    "exit_at (built_row P inp now) = map_option to_timestamptz (ExitAt inp)"
    "map_option emotion_text (emotional_state (built_row P inp now)) = EmotionalState inp"
    "plan_adherence (built_row P inp now) = PlanAdherence inp"
    "revenge_flag (built_row P inp now) = False" "created_at (built_row P inp now) = now"
proof -
  obtain p oc where d: "derive (arch P) inp = (p, oc)" by fastforce
  show "trade_checks (built_row P inp now) = None" using assms d by (rule insertable_row(2))
qed (use assms in \<open>metis insertable_row(1) new_trade_row_fields surj_pair\<close>)+

lemma Insert_trades_ok:
  assumes "trades_ok s"
  shows "trades_ok (snd (Insert P inp s))"
proof (cases rule: Insert_effect [of s P inp])
  case nothing
  with assms show ?thesis by (simp add: trades_ok_same)
next
  case appended
  have "trades_ok (s\<lparr>trades := trades s @ [built_row P inp (clock s)]\<rparr>)"
    using assms appended(2) built_row_fields [OF appended(1)]
    by (auto simp: trades_ok_def tbl_lookup_None_iff)
  with appended(3) show ?thesis by (simp add: trades_ok_same)
qed

lemma set_flag_effect:
  "same_tables s (snd (SetRevengeFlag k b s)) \<or>
   same_tables (s\<lparr>trades := map (\<lambda>r. if trade_id r = k then touch (clock s) (r\<lparr>revenge_flag := b\<rparr>) else r)
       (trades s)\<rparr>) (snd (SetRevengeFlag k b s))"
  using same_tables_next [of s]
  by (auto simp: SetRevengeFlag_def db_exec_def set_flag_stmt_def next_fault_def same_tables_iff split: list.splits fault.splits)

lemma trade_checks_flag [simp]: "trade_checks (r\<lparr>revenge_flag := b, updated_at := c\<rparr>) = trade_checks r"
  by (simp add: trade_checks_def)

lemma SetRevengeFlag_trades_ok:
  assumes "trades_ok s"
  shows "trades_ok (snd (SetRevengeFlag k b s))"
proof -
  let ?f = "\<lambda>r. if trade_id r = k then touch (clock s) (r\<lparr>revenge_flag := b\<rparr>) else r"
  have "map trade_id (map ?f (trades s)) = map trade_id (trades s)" by (simp add: touch_def)
  then have "distinct (map trade_id (map ?f (trades s)))"
    using assms by (simp only: trades_ok_def)
  then have "trades_ok (s\<lparr>trades := map ?f (trades s)\<rparr>)"
    using assms unfolding trades_ok_def by (auto simp: touch_def simp del: map_map)
  with assms show ?thesis using set_flag_effect [of s k b] by (auto simp: trades_ok_same)
qed

text \<open>A record without what the worker may change in it.\<close>

definition core :: "trade \<Rightarrow> trade" where
  "core t = t\<lparr>RevengeFlag := False, UpdatedAt := 0\<rparr>"

lemma SetRevengeFlag_healthy_stmt:
  "faults s = [] \<Longrightarrow> snd (SetRevengeFlag k b s) =
     s\<lparr>trades := map (\<lambda>r. if trade_id r = k then touch (clock s) (r\<lparr>revenge_flag := b\<rparr>) else r) (trades s)\<rparr>"
  by (simp add: SetRevengeFlag_def db_simps set_flag_stmt_def)

lemma core_touch: "core (scan P (touch now (r\<lparr>revenge_flag := b\<rparr>))) = core (scan P r)"
  by (simp add: core_def touch_def scan_def)

section \<open>Failures after validation\<close>

lemma trade_checks_Some:
  assumes "trade_checks r = Some c"
    and "status r = Closed \<Longrightarrow> exit_at r \<noteq> None \<and> exit_price r \<noteq> None"
    and "\<And>t. entry_rationale r = Some t \<Longrightarrow> utf8_length t \<le> 500"
    and "\<And>v. plan_adherence r = Some v \<Longrightarrow> 1 \<le> v \<and> v \<le> 5"
  shows "c = ''trades_entry_price_check'' \<and> entry_price r \<le> 0 \<or>
         c = ''trades_quantity_check'' \<and> quantity r \<le> 0"
proof -
  have "\<not> (status r = Closed \<and> (exit_at r = None \<or> exit_price r = None))" using assms(2) by blast
  moreover have "\<not> (case entry_rationale r of None \<Rightarrow> False | Some t \<Rightarrow> 500 < utf8_length t)"
    using assms(3) by (cases "entry_rationale r") (simp_all add: not_less)
  moreover have "\<not> (case plan_adherence r of None \<Rightarrow> False | Some v \<Rightarrow> \<not> (1 \<le> v \<and> v \<le> 5))"
    using assms(4) by (cases "plan_adherence r") simp_all
  ultimately show ?thesis
    using assms(1) unfolding trade_checks_def by (simp only: if_False not_less split: if_splits) auto
qed

lemma validated_row_checks:
  assumes v: "valid_input inp" and r: "new_trade_row P inp p oc now = Inr r" and c: "trade_checks r = Some c"
  shows "column_failure P inp (CheckViolation c)"
proof -
  note f = new_trade_row_fields [OF r]
  have st: "Status inp = ''closed''" if "status r = Closed"
    using f(4) that by simp
  have "c = ''trades_entry_price_check'' \<and> entry_price r \<le> 0 \<or>
         c = ''trades_quantity_check'' \<and> quantity r \<le> 0"
  proof (rule trade_checks_Some [OF c])
    show "exit_at r \<noteq> None \<and> exit_price r \<noteq> None" if "status r = Closed"
      using v st [OF that] f(11,12) by (auto simp: valid_input_def)
    show "utf8_length t \<le> 500" if "entry_rationale r = Some t" for t
    proof -
      have "length t \<le> 500" using v that f(14) by (simp add: valid_input_def)
      then show ?thesis by (rule order_trans [OF utf8_length_le])
    qed
    show "1 \<le> v \<and> v \<le> 5" if "plan_adherence r = Some v" for v
      using v that f(13) by (simp add: valid_input_def)
  qed
  then show ?thesis using f(8,9) by (auto simp: column_failure_def)
qed

lemma not_insertable_failure:
  assumes "valid_input inp" and "\<not> insertable P inp" and "faults s = []"
  shows "\<exists>c. Insert P inp s = (Inl (Wrap ''insert'' (Sql c)), s) \<and> column_failure P inp c"
proof -
  obtain p oc where d: "derive (arch P) inp = (p, oc)" by fastforce
  show ?thesis
  proof (cases "new_trade_row P inp p oc (clock s)")
    case (Inl e)
    then have "e \<noteq> NoRows" by (auto dest: new_trade_row_errors)
    with Inl assms d show ?thesis
      by (auto simp: Insert_def insert_stmt_def db_simps intro: new_trade_row_Inl)
  next
    case (Inr r)
    with assms(2) d obtain c where c: "trade_checks r = Some c"
      by (auto simp: insertable_def new_trade_row_clock [of P inp p oc 0 "clock s"])
    then have "column_failure P inp (CheckViolation c)"
      by (rule validated_row_checks [OF assms(1) Inr])
    with Inr c assms(3) d show ?thesis by (simp add: Insert_def insert_stmt_def db_simps)
  qed
qed

section \<open>A sample row\<close>

lemma sample_row: "new_trade_row ref_platform sample_input (Some (Fin 10)) (Some ''win'') now = Inr \<lparr>trade_id = 1, user_id = 2, trader_name = None,
         session_id = 3, asset = ''AAPL'', asset_class = Equity,
         direction = Long, entry_price = 100, exit_price = Some 110,
         quantity = 1, entry_at = 1000,
         exit_at = Some 2000, status = Closed,
         outcome = Some Win, pnl = Some 10, plan_adherence = Some 4,
         emotional_state = Some Calm, entry_rationale = None, revenge_flag = False,
         ground_truth_pathologies = None, created_at = now, updated_at = now\<rparr>"
  by (simp add: new_trade_row_def sample_input_def enum_defs to_text_def float_column_def to_numeric_def to_int2_def to_timestamptz_def)

lemma sample_round8: "round8_value ref_arch 10 = 10"
proof -
  have s: "scaled ref_arch 10 = 2000000001 / 2" by code_simp
  have t: "trunc0 (2000000001 / 2) = 1000000000" by code_simp
  show ?thesis
    unfolding round8_value_def s t using fl_of_int [of 1000000000] fl_of_int [of 10] by simp
qed

lemma sample_derive: "derive ref_arch sample_input = (Some (Fin 10), Some ''win'')"
  using derive_closed [of sample_input 110 ref_arch]
  by (simp add: sample_raw_pnl in_range_def sample_round8)

lemma sample_checks: "trade_checks \<lparr>trade_id = 1, user_id = 2, trader_name = None,
         session_id = 3, asset = ''AAPL'', asset_class = Equity,
         direction = Long, entry_price = 100, exit_price = Some 110,
         quantity = 1, entry_at = 1000,
         exit_at = Some 2000, status = Closed,
         outcome = Some Win, pnl = Some 10, plan_adherence = Some 4,
         emotional_state = Some Calm, entry_rationale = None, revenge_flag = False,
         ground_truth_pathologies = None, created_at = 0, updated_at = 0\<rparr> = None"
  by (simp add: trade_checks_def)

lemma sample_insertable: "insertable ref_platform sample_input"
  unfolding insertable_def ref_platform_simps sample_derive prod.case
  by (rule exI, rule conjI, rule sample_row, rule sample_checks)

section \<open>Properties\<close>


fun Insert_all :: "platform \<Rightarrow> trade_input list \<Rightarrow> db \<Rightarrow> db" where
  "Insert_all P [] s = s"
| "Insert_all P (i # is) s = Insert_all P is (snd (Insert P i s))"

lemma Insert_all_store: "Insert_all P is s = store.insert_all P is s"
  by (induction "is" arbitrary: s) simp_all

lemma sample_fresh:
  "Insert ref_platform sample_input empty_db =
     (Inr (scan ref_platform (built_row ref_platform sample_input 0), True),
      empty_db\<lparr>trades := [built_row ref_platform sample_input 0]\<rparr>)"
  using Insert_healthy(1) [of empty_db ref_platform sample_input] sample_insertable
  by (simp add: empty_db_def)

lemma built_row_amounts:
  assumes "insertable P inp"
  shows "0 < entry_price (built_row P inp now)" "0 < quantity (built_row P inp now)"
    "\<bar>entry_price (built_row P inp now) - float_text P (EntryPrice inp)\<bar> \<le> 1 / (2 * 10 ^ 8)"
    "\<bar>quantity (built_row P inp now) - float_text P (Quantity inp)\<bar> \<le> 1 / (2 * 10 ^ 8)"
proof -
  obtain p oc where d: "derive (arch P) inp = (p, oc)" by fastforce
  have ntr: "new_trade_row P inp p oc now = Inr (built_row P inp now)"
    and chk: "trade_checks (built_row P inp now) = None"
    using assms d by (rule insertable_row)+
  show "0 < entry_price (built_row P inp now)" "0 < quantity (built_row P inp now)"
    using chk unfolding trade_checks_def by (simp_all split: if_splits)
  show "\<bar>entry_price (built_row P inp now) - float_text P (EntryPrice inp)\<bar> \<le> 1 / (2 * 10 ^ 8)"
    unfolding new_trade_row_fields(8) [OF ntr] by (rule numeric_round_error)
  show "\<bar>quantity (built_row P inp now) - float_text P (Quantity inp)\<bar> \<le> 1 / (2 * 10 ^ 8)"
    unfolding new_trade_row_fields(9) [OF ntr] by (rule numeric_round_error)
qed

lemma scan_built_row:
  fixes now
  assumes "insertable P inp"
  defines "t \<equiv> scan P (built_row P inp now)"
  shows "TradeID t = TradeID inp" "UserID t = UserID inp" "SessionID t = SessionID inp" "Asset t = Asset inp"
    "AssetClass t = AssetClass inp" "Direction t = Direction inp" "Status t = Status inp"
    "PlanAdherence t = PlanAdherence inp" "EmotionalState t = EmotionalState inp"
    "EntryRationale t = EntryRationale inp" "Outcome t = snd (derive (arch P) inp)"
    "EntryAt t = to_timestamptz (EntryAt inp)" "ExitAt t = map_option to_timestamptz (ExitAt inp)"
    "\<not> RevengeFlag t" "CreatedAt t = now" "UpdatedAt t = now"
proof -
  obtain p oc where d: "derive (arch P) inp = (p, oc)" by fastforce
  have ntr: "new_trade_row P inp p oc now = Inr (built_row P inp now)"
    using assms(1) d by (rule insertable_row)
  have "asset (built_row P inp now) = Asset inp \<and> asset_class_text (asset_class (built_row P inp now)) = AssetClass inp
      \<and> updated_at (built_row P inp now) = now"
    by (rule new_trade_row_cases [OF ntr]) (simp add: text_of_enum)
  then show "TradeID t = TradeID inp" "UserID t = UserID inp" "SessionID t = SessionID inp" "Asset t = Asset inp"
    "AssetClass t = AssetClass inp" "Direction t = Direction inp" "Status t = Status inp"
    "PlanAdherence t = PlanAdherence inp" "EmotionalState t = EmotionalState inp"
    "EntryRationale t = EntryRationale inp" "Outcome t = snd (derive (arch P) inp)"
    "EntryAt t = to_timestamptz (EntryAt inp)" "ExitAt t = map_option to_timestamptz (ExitAt inp)"
    "\<not> RevengeFlag t" "CreatedAt t = now" "UpdatedAt t = now"
    unfolding t_def by (simp_all add: scan_def new_trade_row_fields [OF ntr] d)
qed

text \<open>
  C3: Submitting a trade is idempotent: once a trade id is stored, resubmitting it, after any number
  of other submissions, answers with the record of the first submission, reports that nothing was
  inserted and leaves the database as it is.
\<close>

theorem Insert_idempotent:
  assumes "faults s = []" and "Insert P inp s = (Inr (t, b), s')"
  shows "Insert P inp (Insert_all P others s') = (Inr (t, False), Insert_all P others s')"
  unfolding Insert_all_store by (rule store.insert_idempotent [OF assms])

theorem Insert_idempotent_witness:
  "\<exists>t s'. Insert ref_platform sample_input empty_db = (Inr (t, True), s') \<and>
     Insert ref_platform sample_input
       (Insert_all ref_platform [sample_input\<lparr>TradeID := 9\<rparr>, sample_input\<lparr>Asset := ''X''\<rparr>] s') =
     (Inr (t, False), Insert_all ref_platform [sample_input\<lparr>TradeID := 9\<rparr>, sample_input\<lparr>Asset := ''X''\<rparr>] s')"
  using sample_fresh Insert_idempotent [OF empty_db_simps(8) sample_fresh] by blast

text \<open>
  Whatever the connection does during the statements, an insert keeps the primary key and the
  CHECK constraints of the table, and leaves the other tables alone; it adds at most one row, at the
  end, for a trade id that was free, with the requested owner and session.
\<close>

theorem Insert_invariant:
  assumes "trades_ok s"
  shows "trades_ok (snd (Insert P inp s)) \<and>
    (trades (snd (Insert P inp s)) = trades s \<or>
     (\<exists>r. trades (snd (Insert P inp s)) = trades s @ [r] \<and> trade_id r = TradeID inp \<and>
        user_id r = UserID inp \<and> session_id r = SessionID inp \<and> TradeID inp \<notin> trade_id ` set (trades s))) \<and>
    user_metrics (snd (Insert P inp s)) = user_metrics s \<and>
    user_emotion_metrics (snd (Insert P inp s)) = user_emotion_metrics s \<and>
    session_metrics (snd (Insert P inp s)) = session_metrics s \<and>
    overtrading_events (snd (Insert P inp s)) = overtrading_events s"
proof (cases rule: Insert_effect [of s P inp])
  case nothing
  then show ?thesis using Insert_trades_ok [OF assms] by (simp add: same_tables_iff)
next
  case appended
  then show ?thesis using Insert_trades_ok [OF assms] built_row_fields [OF appended(1)]
    by (simp add: same_tables_iff tbl_lookup_None_iff)
qed

theorem Insert_invariant_witness:
  "trades_ok (snd (Insert ref_platform sample_input (empty_db\<lparr>faults := [FLost]\<rparr>)))"
  using Insert_invariant [of "empty_db\<lparr>faults := [FLost]\<rparr>" ref_platform sample_input]
  by (simp add: trades_ok_def empty_db_def)

text \<open>
  A request that passes validation can only fail at the database, and then only for the reasons
  of the column types (a zero byte in a text, a number beyond ten digits before the point, a positive
  price or quantity that rounds to zero at eight decimals); a refused insert changes nothing.
\<close>

theorem validated_insert_failures:
  assumes "validate inp = None" and "faults s = []" and "Insert P inp s = (Inl e, s')"
  shows "s' = s \<and> (\<exists>c. e = Wrap ''insert'' (Sql c) \<and> column_failure P inp c)"
proof -
  have v: "valid_input inp" using assms(1) by (simp add: validate_iff)
  show ?thesis
    using assms(3) not_insertable_failure [OF v _ assms(2), of P]
    by (cases rule: Insert_cases [OF assms(2), of P inp]) auto
qed

text \<open>The sample as an open trade, and one whose price is a tenth of the last stored decimal.\<close>

definition open_input :: trade_input where
  "open_input = sample_input\<lparr>Status := ''open'', ExitPrice := None, ExitAt := None\<rparr>"

definition dust_input :: trade_input where
  "dust_input = open_input\<lparr>EntryPrice := 1 / 10 ^ 9\<rparr>"

lemma dust_fields: "validate dust_input = None" "ExitPrice dust_input = None"
    "CHR 0x00 \<notin> set (Asset dust_input)" "EntryRationale dust_input = None"
    "numeric_round 8 (EntryPrice dust_input) = 0" "numeric_round 8 (Quantity dust_input) = 1"
  by code_simp+

definition storable :: "rat \<Rightarrow> bool" where
  "storable x \<longleftrightarrow> 0 < numeric_round 8 x \<and> numeric_round 8 x < 10 ^ 10"

lemma storable_bounds:
  "1 / (2 * 10 ^ 8) \<le> x \<Longrightarrow> x \<le> 10 ^ 10 - 1 \<Longrightarrow> storable x" "x < 1 / (2 * 10 ^ 8) \<Longrightarrow> \<not> storable x"
  unfolding storable_def numeric_round_def Let_def by (auto simp: floor_less_iff le_floor_iff)

lemma float_column_storable:
  "(\<exists>r. float_column P (Fin x) = Inr r \<and> 0 < r) \<longleftrightarrow> storable (float_text P x)"
  by (auto simp: float_column_def to_numeric_def Let_def storable_def)

lemma dust_not_insertable: "\<not> insertable ref_platform dust_input"
proof
  assume "insertable ref_platform dust_input"
  from built_row_fields(1) [OF this, of 0] new_trade_row_fields(8) [OF insertable_row(1) [OF this], of _ _ 0]
  show False using dust_fields(2,5)
    by (auto simp: trade_checks_def derive_def split: if_splits)
qed

definition fits_column :: "platform \<Rightarrow> float64 \<Rightarrow> bool" where
  "fits_column P f \<longleftrightarrow> (case f of Fin x \<Rightarrow> \<bar>numeric_round 8 (float_text P x)\<bar> < 10 ^ 10 | _ \<Rightarrow> False)"

lemma fits_column_iff: "fits_column P f \<longleftrightarrow> (\<exists>r. float_column P f = Inr r)"
  by (auto simp: fits_column_def float_column_def to_numeric_def Let_def split: float64.splits)

lemma storable_fits: "storable (float_text P x) \<Longrightarrow> fits_column P (Fin x)"
  by (auto simp: storable_def fits_column_def)

definition plain_text :: "string \<Rightarrow> bool" where "plain_text t \<longleftrightarrow> CHR 0x00 \<notin> set t"

lemma new_row_texts:
  assumes "new_trade_row P inp p oc now = Inr r"
  shows "plain_text (Asset inp)" "EntryRationale inp = Some t \<Longrightarrow> plain_text t"
  using assms by (auto simp: new_trade_row_def bind_ok_Inr_iff to_text_def plain_text_def split: if_splits)

lemma new_row_columns:
  assumes "new_trade_row P inp p oc now = Inr r"
  shows "float_column P (Fin (EntryPrice inp)) = Inr (entry_price r)" "float_column P (Fin (Quantity inp)) = Inr (quantity r)"
    "ExitPrice inp = Some x \<Longrightarrow> fits_column P (Fin x)" "p = Some f \<Longrightarrow> fits_column P f"
  by (cases rule: new_trade_row_cases [OF assms]; auto simp: fits_column_iff bind_ok_Inr_iff)+

lemma validated_insertable_iff:
  assumes "valid_input inp"
  shows "insertable P inp \<longleftrightarrow>
    plain_text (Asset inp) \<and> (\<forall>t. EntryRationale inp = Some t \<longrightarrow> plain_text t) \<and>
    storable (float_text P (EntryPrice inp)) \<and> storable (float_text P (Quantity inp)) \<and>
    (\<forall>x. ExitPrice inp = Some x \<longrightarrow> fits_column P (Fin x)) \<and>
    (\<forall>p. fst (derive (arch P) inp) = Some p \<longrightarrow> fits_column P p)" (is "_ \<longleftrightarrow> ?ok")
proof
  obtain p oc where d: "derive (arch P) inp = (p, oc)" by fastforce
  assume "insertable P inp"
  then obtain r where r: "new_trade_row P inp p oc 0 = Inr r" "trade_checks r = None" by (auto simp: insertable_def d)
  then have pos: "0 < entry_price r" "0 < quantity r" by (auto simp: trade_checks_def split: if_splits)
  have "storable (float_text P (EntryPrice inp))" "storable (float_text P (Quantity inp))"
    using new_row_columns(1,2) [OF r(1)] pos by (auto simp flip: float_column_storable)
  then show ?ok using new_row_texts [OF r(1)] new_row_columns(3,4) [OF r(1)] by (auto simp: d)
next
  assume ok: ?ok
  show "insertable P inp"
  proof (rule ccontr)
    assume n: "\<not> insertable P inp"
    obtain c where c: "column_failure P inp c" using not_insertable_failure [OF assms n, of empty_db] by auto
    have "\<not> overflows P inp"
    proof
      assume "overflows P inp"
      then obtain f where f: "float_column P f = Inl NumericOverflow"
        "f = Fin (EntryPrice inp) \<or> f = Fin (Quantity inp) \<or> (\<exists>x. ExitPrice inp = Some x \<and> f = Fin x) \<or>
         fst (derive (arch P) inp) = Some f" unfolding overflows_def by auto
      have "fits_column P f" using f(2) ok by (elim disjE exE conjE) (simp_all add: storable_fits)
      with f(1) show False by (auto simp: fits_column_iff)
    qed
    with c ok show False by (auto simp: column_failure_def storable_def plain_text_def)
  qed
qed

text \<open>
  C31: When the database accepts what validation let through. On a healthy connection the insert of a trade that passes
  validation, of any status, succeeds exactly when neither text has a zero byte, the entry price and the quantity,
  rounded to eight decimals, are positive and below ten to the ten, and the exit price and the profit, where there are any,
  round to a magnitude below ten to the ten. Otherwise it is refused with a database error and nothing is stored; in
  particular a positive price under five billionths passes validation and is then refused.
\<close>

theorem validated_accepted_iff:
  assumes "validate inp = None" and "faults s = []"
  shows "((\<exists>t b s'. Insert P inp s = (Inr (t, b), s')) \<longleftrightarrow>
      CHR 0x00 \<notin> set (Asset inp) \<and> (\<forall>t. EntryRationale inp = Some t \<longrightarrow> CHR 0x00 \<notin> set t) \<and>
      storable (float_text P (EntryPrice inp)) \<and> storable (float_text P (Quantity inp)) \<and>
      (\<forall>x. ExitPrice inp = Some x \<longrightarrow> \<bar>numeric_round 8 (float_text P x)\<bar> < 10 ^ 10) \<and>
      (\<forall>p. fst (derive (arch P) inp) = Some p \<longrightarrow> fits_column P p)) \<and>
    ((\<exists>t b s'. Insert P inp s = (Inr (t, b), s')) \<or> (\<exists>e. Insert P inp s = (Inl (Wrap ''insert'' (Sql e)), s))) \<and>
    (float_text P (EntryPrice inp) < 1 / (2 * 10 ^ 8) \<longrightarrow>
      (\<exists>e. Insert P inp s = (Inl (Wrap ''insert'' (Sql e)), s)))"
proof -
  have v: "valid_input inp" using assms(1) by (simp add: validate_iff)
  note iff = validated_insertable_iff [OF v, of P]
  have ins: "(\<exists>t b s'. Insert P inp s = (Inr (t, b), s')) \<longleftrightarrow> insertable P inp"
    by (cases rule: Insert_cases [OF assms(2), of P inp]) auto
  have small: "float_text P (EntryPrice inp) < 1 / (2 * 10 ^ 8) \<Longrightarrow> \<not> insertable P inp"
    using iff storable_bounds(2) by blast
  have "insertable P inp \<longleftrightarrow> CHR 0x00 \<notin> set (Asset inp) \<and> (\<forall>t. EntryRationale inp = Some t \<longrightarrow> CHR 0x00 \<notin> set t) \<and>
      storable (float_text P (EntryPrice inp)) \<and> storable (float_text P (Quantity inp)) \<and>
      (\<forall>x. ExitPrice inp = Some x \<longrightarrow> \<bar>numeric_round 8 (float_text P x)\<bar> < 10 ^ 10) \<and>
      (\<forall>p. fst (derive (arch P) inp) = Some p \<longrightarrow> fits_column P p)"
    unfolding iff by (simp add: plain_text_def fits_column_def)
  with ins small show ?thesis using Insert_healthy(3) [OF assms(2), of P inp] by blast
qed

theorem validated_accepted_iff_witness:
  "(\<exists>e. Insert ref_platform dust_input empty_db = (Inl (Wrap ''insert'' (Sql e)), empty_db)) \<and>
   (\<exists>e. Insert ref_platform (open_input\<lparr>ExitPrice := Some (10 ^ 11)\<rparr>) empty_db = (Inl (Wrap ''insert'' (Sql e)), empty_db))"
proof
  have "EntryPrice dust_input = 1 / 10 ^ 9" by (simp add: dust_input_def)
  then show "\<exists>e. Insert ref_platform dust_input empty_db = (Inl (Wrap ''insert'' (Sql e)), empty_db)"
    using validated_accepted_iff [OF dust_fields(1), of empty_db ref_platform] by simp
  have "validate (open_input\<lparr>ExitPrice := Some (10 ^ 11)\<rparr>) = None" by code_simp
  note iff = validated_accepted_iff [OF this, of empty_db ref_platform]
  have "\<not> \<bar>numeric_round 8 (10 ^ 11)\<bar> < (10 ^ 10 :: rat)" by (simp add: numeric_round_def Let_def)
  then have "\<not> (\<forall>x. ExitPrice (open_input\<lparr>ExitPrice := Some (10 ^ 11)\<rparr>) = Some x \<longrightarrow>
      \<bar>numeric_round 8 (float_text ref_platform x)\<bar> < 10 ^ 10)" by simp
  then show "\<exists>e. Insert ref_platform (open_input\<lparr>ExitPrice := Some (10 ^ 11)\<rparr>) empty_db = (Inl (Wrap ''insert'' (Sql e)), empty_db)"
    using iff by (simp only: empty_db_simps) blast
qed

text \<open>
  C20: A fresh insert stores what was asked. The answer is the new row read back, and a later read
  returns it again: its identifiers, status, direction, adherence, emotion and rationale are the
  request's, the instants are the request's at microsecond resolution, the outcome is the derived
  one, price and quantity are positive and within half a unit of the eighth decimal of the decimals
  sent, and the revenge flag is down.
\<close>

theorem Insert_faithful:
  assumes "faults s = []" and "Insert P inp s = (Inr (t, True), s')"
  shows "Get P (TradeID inp) s' = (Inr t, s') \<and>
    (\<exists>r. trades s' = trades s @ [r] \<and> t = scan P r \<and> 0 < entry_price r \<and> 0 < quantity r \<and>
       \<bar>entry_price r - float_text P (EntryPrice inp)\<bar> \<le> 1 / (2 * 10 ^ 8) \<and>
       \<bar>quantity r - float_text P (Quantity inp)\<bar> \<le> 1 / (2 * 10 ^ 8)) \<and>
    TradeID t = TradeID inp \<and> UserID t = UserID inp \<and> SessionID t = SessionID inp \<and> Asset t = Asset inp \<and>
    AssetClass t = AssetClass inp \<and> Direction t = Direction inp \<and> Status t = Status inp \<and>
    PlanAdherence t = PlanAdherence inp \<and> EmotionalState t = EmotionalState inp \<and>
    EntryRationale t = EntryRationale inp \<and> Outcome t = snd (derive (arch P) inp) \<and>
    EntryAt t = to_timestamptz (EntryAt inp) \<and> ExitAt t = map_option to_timestamptz (ExitAt inp) \<and>
    \<not> RevengeFlag t \<and> CreatedAt t = clock s \<and> UpdatedAt t = clock s"
proof -
  have ins: "insertable P inp" "t = scan P (built_row P inp (clock s))"
      "trades s' = trades s @ [built_row P inp (clock s)]"
    using assms(2) by (cases rule: Insert_cases [OF assms(1), of P inp]; force)+
  have "Get P (TradeID inp) s' = (Inr t, s')" by (rule store.get_inserted [OF assms])
  with ins(3) scan_built_row [OF ins(1), of "clock s"] built_row_amounts [OF ins(1), of "clock s"]
  show ?thesis unfolding ins(2) by blast
qed

theorem Insert_faithful_witness:
  "Status (scan ref_platform (built_row ref_platform sample_input 0)) = ''closed'' \<and>
   Outcome (scan ref_platform (built_row ref_platform sample_input 0)) = Some ''win''"
  using Insert_faithful [OF empty_db_simps(8) sample_fresh] by (simp add: sample_derive)

theorem validated_insert_failures_witness:
  "\<exists>c. Insert ref_platform dust_input empty_db = (Inl (Wrap ''insert'' (Sql c)), empty_db) \<and>
     column_failure ref_platform dust_input c"
proof -
  obtain e where e: "Insert ref_platform dust_input empty_db = (Inl (Wrap ''insert'' (Sql e)), empty_db)"
    using Insert_healthy(3) [OF empty_db_simps(8) dust_not_insertable] by blast
  show ?thesis
    using validated_insert_failures [OF dust_fields(1) empty_db_simps(8) e] e by auto
qed

end
