(* ===== verification/Metrics_Repo.thy ===== *)
theory Metrics_Repo imports Trade_Store begin

text \<open>
  The gateway \<open>internal/metrics/repo.go\<close> to the metric tables: the worker's writes, the snapshot
  and the time series the metrics endpoint reads. PostgreSQL sorts a NULL above every value; the type
  \<open>sql_key\<close> with its order says so.

  \<open>AVG\<close> and numeric division are taken exactly and then rounded to the column's scale: for the
  counts and ratings of this schema the server's extra digits cannot cross a rounding boundary.
  \<open>date_trunc\<close> works in the session's time zone, which is UTC.
\<close>

section \<open>Sorting with NULLs\<close>

datatype 'a sql_key = Val 'a | Null

instantiation sql_key :: (linorder) linorder
begin

fun less_eq_sql_key :: "'a sql_key \<Rightarrow> 'a sql_key \<Rightarrow> bool" where
  "less_eq_sql_key x Null = True"
| "less_eq_sql_key Null (Val b) = False"
| "less_eq_sql_key (Val a) (Val b) = (a \<le> b)"

definition less_sql_key :: "'a sql_key \<Rightarrow> 'a sql_key \<Rightarrow> bool" where
  "less_sql_key x y = (x \<le> y \<and> \<not> y \<le> x)"

instance
proof
  fix x y z :: "'a sql_key"
  show "(x < y) = (x \<le> y \<and> \<not> y \<le> x)" by (simp add: less_sql_key_def)
  show "x \<le> x" by (cases x) simp_all
  show "x \<le> y \<Longrightarrow> y \<le> z \<Longrightarrow> x \<le> z" by (cases x; cases y; cases z) simp_all
  show "x \<le> y \<Longrightarrow> y \<le> x \<Longrightarrow> x = y" by (cases x; cases y) simp_all
  show "x \<le> y \<or> y \<le> x" by (cases x; cases y) auto
qed

end

fun sql_key_of :: "'a option \<Rightarrow> 'a sql_key" where
  "sql_key_of None = Null"
| "sql_key_of (Some v) = Val v"

section \<open>Upserts of several rows\<close>

text \<open>
  \<open>INSERT ... SELECT ... ON CONFLICT DO UPDATE\<close>: \<open>merge new old\<close> is the updated row. A statement
  that proposes two rows with one key fails, whether or not the key was in the table before.
\<close>

fun upsert_each :: "('r \<Rightarrow> 'k) \<Rightarrow> ('r \<Rightarrow> 'r \<Rightarrow> 'r) \<Rightarrow> 'r list \<Rightarrow> 'r list \<Rightarrow> 'r list" where
  "upsert_each key merge [] t = t"
| "upsert_each key merge (n # ns) t = upsert_each key merge ns (tbl_upsert key (key n) n (merge n) t)"

definition upsert_rows ::
    "('r \<Rightarrow> 'k) \<Rightarrow> ('r \<Rightarrow> 'r \<Rightarrow> 'r) \<Rightarrow> 'r list \<Rightarrow> 'r list \<Rightarrow> sql_error + 'r list" where
  "upsert_rows key merge news t =
     (if distinct (map key news) then Inr (upsert_each key merge news t) else Inl CardinalityViolation)"

fun collect_ok :: "('e + 'a) list \<Rightarrow> 'e + 'a list" where
  "collect_ok [] = Inr []"
| "collect_ok (x # xs) = bind_ok x (\<lambda>v. bind_ok (collect_ok xs) (\<lambda>vs. Inr (v # vs)))"

section \<open>Writes to \<open>user_metrics\<close>\<close>

definition default_user_metrics :: "uuid \<Rightarrow> instant \<Rightarrow> user_metrics_row" where
  "default_user_metrics u now = \<lparr>um_user_id = u, plan_adherence_score = None, plan_adherence_window = 0,
     revenge_trades_count = 0, overtrading_events_count = 0, um_updated_at = now\<rparr>"

definition um_upsert_stmt ::
    "uuid \<Rightarrow> user_metrics_row \<Rightarrow> (user_metrics_row \<Rightarrow> user_metrics_row) \<Rightarrow> db \<Rightarrow> db" where
  "um_upsert_stmt u new upd s =
     s\<lparr>user_metrics := tbl_upsert um_user_id u new (\<lambda>r. (upd r)\<lparr>um_updated_at := clock s\<rparr>) (user_metrics s)\<rparr>"

definition score_column :: "platform \<Rightarrow> float64 \<Rightarrow> sql_error + rat" where
  "score_column P f = (case f of Fin x \<Rightarrow> to_numeric 5 4 (float_text P x) | _ \<Rightarrow> Inl NumericOverflow)"

definition sql_result :: "(sql_error + unit) \<times> db \<Rightarrow> (go_error + unit) \<times> db" where
  "sql_result rs = (case rs of (Inl e, s) \<Rightarrow> (Inl (Sql e), s) | (Inr u, s) \<Rightarrow> (Inr u, s))"

definition SetPlanAdherenceScore ::
    "platform \<Rightarrow> uuid \<Rightarrow> float64 \<Rightarrow> int \<Rightarrow> db \<Rightarrow> (go_error + unit) \<times> db" where
  "SetPlanAdherenceScore P u score window s =
     sql_result (db_exec (\<lambda>s.
       bind_ok (score_column P score) (\<lambda>sc.
       bind_ok (to_int4 window) (\<lambda>w.
         Inr (um_upsert_stmt u
               ((default_user_metrics u (clock s))\<lparr>plan_adherence_score := Some sc, plan_adherence_window := w\<rparr>)
               (\<lambda>r. r\<lparr>plan_adherence_score := Some sc, plan_adherence_window := w\<rparr>) s)))) s)"

definition revenge_of :: "uuid \<Rightarrow> db \<Rightarrow> int" where
  "revenge_of u s = (case tbl_lookup um_user_id u (user_metrics s) of None \<Rightarrow> 0 | Some r \<Rightarrow> revenge_trades_count r)"

definition overtrading_of :: "uuid \<Rightarrow> db \<Rightarrow> int" where
  "overtrading_of u s = (case tbl_lookup um_user_id u (user_metrics s) of None \<Rightarrow> 0 | Some r \<Rightarrow> overtrading_events_count r)"

definition IncrementRevengeCount :: "uuid \<Rightarrow> db \<Rightarrow> (go_error + unit) \<times> db" where
  "IncrementRevengeCount u s =
     sql_result (db_exec (\<lambda>s.
       bind_ok (case tbl_lookup um_user_id u (user_metrics s) of
                  None \<Rightarrow> Inr 1 | Some r \<Rightarrow> to_int4 (revenge_trades_count r + 1)) (\<lambda>c.
         Inr (um_upsert_stmt u ((default_user_metrics u (clock s))\<lparr>revenge_trades_count := c\<rparr>)
               (\<lambda>r. r\<lparr>revenge_trades_count := c\<rparr>) s))) s)"

definition IncrementOvertradingCount :: "uuid \<Rightarrow> db \<Rightarrow> (go_error + unit) \<times> db" where
  "IncrementOvertradingCount u s =
     sql_result (db_exec (\<lambda>s.
       bind_ok (case tbl_lookup um_user_id u (user_metrics s) of
                  None \<Rightarrow> Inr 1 | Some r \<Rightarrow> to_int4 (overtrading_events_count r + 1)) (\<lambda>c.
         Inr (um_upsert_stmt u ((default_user_metrics u (clock s))\<lparr>overtrading_events_count := c\<rparr>)
               (\<lambda>r. r\<lparr>overtrading_events_count := c\<rparr>) s))) s)"

section \<open>Overtrading events\<close>

text \<open>\<open>uuid.New\<close> draws the next identifier; the table's primary key is checked.\<close>

definition insert_event_stmt ::
    "uuid \<Rightarrow> uuid \<Rightarrow> instant \<Rightarrow> instant \<Rightarrow> int \<Rightarrow> db \<Rightarrow> sql_error + db" where
  "insert_event_stmt eid u ws we n s =
     bind_ok (to_int4 n) (\<lambda>c.
       if eid \<in> event_id ` set (overtrading_events s) then Inl UniqueViolation
       else Inr (s\<lparr>overtrading_events := overtrading_events s @
              [\<lparr>event_id = eid, ot_user_id = u, window_start = to_timestamptz ws,
                window_end = to_timestamptz we, trade_count = c, detected_at = clock s\<rparr>]\<rparr>))"

definition AddOvertradingEvent ::
    "platform \<Rightarrow> uuid \<Rightarrow> instant \<Rightarrow> instant \<Rightarrow> int \<Rightarrow> db \<Rightarrow> (go_error + unit) \<times> db" where
  "AddOvertradingEvent P u ws we n s =
     (let eid = new_uuid P (draws s); s0 = s\<lparr>draws := Suc (draws s)\<rparr>
      in sql_result (db_exec (insert_event_stmt eid u ws we n) s0))"

section \<open>Wins and losses by emotion\<close>

definition UpsertEmotionStat :: "uuid \<Rightarrow> string \<Rightarrow> bool \<Rightarrow> db \<Rightarrow> (go_error + unit) \<times> db" where
  "UpsertEmotionStat u emo won s =
     sql_result (db_exec (\<lambda>s.
       bind_ok (emotion_of emo) (\<lambda>em.
       bind_ok (case tbl_lookup ue_key (u, em) (user_emotion_metrics s) of
                  None \<Rightarrow> Inr 1 | Some r \<Rightarrow> to_int4 ((if won then wins r else losses r) + 1)) (\<lambda>c.
         Inr (s\<lparr>user_emotion_metrics := tbl_upsert ue_key (u, em)
                \<lparr>ue_user_id = u, ue_emotion = em, wins = (if won then c else 0),
                 losses = (if won then 0 else c), ue_updated_at = clock s\<rparr>
                (\<lambda>r. (if won then r\<lparr>wins := c\<rparr> else r\<lparr>losses := c\<rparr>)\<lparr>ue_updated_at := clock s\<rparr>)
                (user_emotion_metrics s)\<rparr>)))) s)"

section \<open>Session tilt\<close>

text \<open>\<open>LAG(outcome) OVER (... ORDER BY entry_at)\<close>: each row with the outcome of the row before it.\<close>

fun with_lag :: "('r \<Rightarrow> 'v option) \<Rightarrow> 'v option \<Rightarrow> 'r list \<Rightarrow> ('r \<times> 'v option) list" where
  "with_lag f prev [] = []"
| "with_lag f prev (r # rs) = (r, prev) # with_lag f (f r) rs"

text \<open>One group of the outer query: the rows of a session and a user, with their predecessors' outcomes.\<close>

definition tilt_group ::
    "uuid \<Rightarrow> uuid \<Rightarrow> (trade_row \<times> trade_outcome option) list \<Rightarrow> instant \<Rightarrow> sql_error + session_row" where
  "tilt_group sid u grp now =
     (let n = int (length grp); l = count_rows (\<lambda>(_, prev). prev = Some Loss) grp
      in bind_ok (to_int4 n) (\<lambda>total.
         bind_ok (to_int4 l) (\<lambda>loss.
         bind_ok (to_numeric 5 4 (if n = 0 then 0 else of_int l / of_int n)) (\<lambda>tilt.
           Inr \<lparr>sm_session_id = sid, sm_user_id = u, total_trades = total, loss_following_trades = loss,
                tilt_index = tilt, last_outcome = None, last_exit_at = None, sm_updated_at = now\<rparr>))))"

text \<open>
  The rows of the window in order of entry. SQL leaves the order of rows with equal \<open>entry_at\<close> open; the model takes
  the order of the table, and as a table may hold its rows in any order, every order SQL may choose is that of some
  state. What the stored tilt owes to the choice is stated in \<open>Emotion_Tilt\<close> (\<open>entry_order\<close>).
\<close>

definition session_rows :: "uuid \<Rightarrow> db \<Rightarrow> (trade_row \<times> trade_outcome option) list" where
  "session_rows sid s =
     with_lag outcome None
       (sort_key entry_at (filter (\<lambda>r. session_id r = sid \<and> status r = Closed) (trades s)))"

definition tilt_merge :: "instant \<Rightarrow> session_row \<Rightarrow> session_row \<Rightarrow> session_row" where
  "tilt_merge now new old =
     old\<lparr>total_trades := total_trades new, loss_following_trades := loss_following_trades new,
         tilt_index := tilt_index new, sm_updated_at := now\<rparr>"

definition tilt_groups :: "uuid \<Rightarrow> db \<Rightarrow> (sql_error + session_row) list" where
  "tilt_groups sid s =
     (let ordered = session_rows sid s
      in map (\<lambda>u. tilt_group sid u (filter (\<lambda>(r, _). user_id r = u) ordered) (clock s))
           (remdups (map (user_id \<circ> fst) ordered)))"

definition store_tilts :: "(sql_error + session_row) list \<Rightarrow> db \<Rightarrow> sql_error + db" where
  "store_tilts groups s =
     bind_ok (collect_ok groups) (\<lambda>news.
     bind_ok (upsert_rows sm_session_id (tilt_merge (clock s)) news (session_metrics s)) (\<lambda>t.
       Inr (s\<lparr>session_metrics := t\<rparr>)))"

definition tilt_stmt :: "uuid \<Rightarrow> db \<Rightarrow> sql_error + db" where
  "tilt_stmt sid s = store_tilts (tilt_groups sid s) s"

definition UpsertSessionTilt :: "uuid \<Rightarrow> db \<Rightarrow> (go_error + unit) \<times> db" where
  "UpsertSessionTilt sid s = sql_result (db_exec (tilt_stmt sid) s)"

section \<open>The snapshot of a user\<close>

record emotion_stats =
  Wins :: int
  Losses :: int
  WinRate :: rat

record user_metrics =
  UM_UserID :: uuid
  PlanAdherenceScore :: "rat option"
  SessionTiltIndex :: "rat option"
  WinRateByEmotion :: "string \<Rightarrow> emotion_stats option"
  RevengeTrades :: int
  OvertradingEvents :: int

definition emotion_entry :: "emotion_row \<Rightarrow> emotion_stats" where
  "emotion_entry r =
     (let total = wins r + losses r
      in \<lparr>Wins = wins r, Losses = losses r,
          WinRate = (if 0 < total then fl (fl (of_int (wins r)) / fl (of_int total)) else 0)\<rparr>)"

fun emotion_map :: "emotion_row list \<Rightarrow> string \<Rightarrow> emotion_stats option" where
  "emotion_map [] = Map.empty"
| "emotion_map (r # rs) = (\<lambda>k. case emotion_map rs k of None \<Rightarrow>
     (if k = emotion_text (ue_emotion r) then Some (emotion_entry r) else None) | Some e \<Rightarrow> Some e)"

definition avg_tilt :: "uuid \<Rightarrow> db \<Rightarrow> rat option" where
  "avg_tilt u s =
     (let ts = map tilt_index (filter (\<lambda>r. sm_user_id r = u) (session_metrics s))
      in if ts = [] then None else Some (sum_list ts / of_nat (length ts)))"

text \<open>The error of a stream that ended early is not looked at.\<close>

definition LoadSnapshot :: "platform \<Rightarrow> uuid \<Rightarrow> db \<Rightarrow> (go_error + user_metrics) \<times> db" where
  "LoadSnapshot P u s =
     (let out = \<lparr>UM_UserID = u, PlanAdherenceScore = None, SessionTiltIndex = None,
                 WinRateByEmotion = Map.empty, RevengeTrades = 0, OvertradingEvents = 0\<rparr>
      in case db_query_row (read_row (\<lambda>s. tbl_lookup um_user_id u (user_metrics s))) s of (r1, s1) \<Rightarrow>
         if (case r1 of Inl e \<Rightarrow> e \<noteq> NoRows | Inr _ \<Rightarrow> False)
         then (Inl (Wrap ''user_metrics'' (Sql (projl r1))), s1)
         else (let out = (case r1 of Inl _ \<Rightarrow> out
                 | Inr row \<Rightarrow> out\<lparr>PlanAdherenceScore := map_option (text_float P) (plan_adherence_score row),
                     RevengeTrades := revenge_trades_count row,
                     OvertradingEvents := overtrading_events_count row\<rparr>)
               in case db_query (\<lambda>s. filter (\<lambda>r. ue_user_id r = u) (user_emotion_metrics s)) s1 of
                    (Inl e, s2) \<Rightarrow> (Inl (Wrap ''user_emotion_metrics'' (Sql e)), s2)
                  | (Inr (rows, _), s2) \<Rightarrow>
                      (let out = out\<lparr>WinRateByEmotion := emotion_map rows\<rparr>
                       in case db_query_row (read_row (\<lambda>s. Some (avg_tilt u s))) s2 of
                            (Inl e, s3) \<Rightarrow>
                              if e \<noteq> NoRows then (Inl (Wrap ''session_metrics avg'' (Sql e)), s3)
                              else (Inr out, s3)
                          | (Inr tilt, s3) \<Rightarrow>
                              (Inr (out\<lparr>SessionTiltIndex := map_option (text_float P) tilt\<rparr>), s3))))"

section \<open>The time series\<close>

record bucket =
  BucketAt :: instant
  TradeCount :: int
  BucketWinRate :: rat
  BucketPnL :: rat
  AvgPlanAdherence :: rat

datatype trunc_unit = TruncHour | TruncDay

fun date_trunc :: "trunc_unit \<Rightarrow> instant \<Rightarrow> instant" where
  "date_trunc TruncHour t = t div (3600 * 10 ^ 9) * (3600 * 10 ^ 9)"
| "date_trunc TruncDay t = t div (86400 * 10 ^ 9) * (86400 * 10 ^ 9)"

definition bucketExpression :: "string \<Rightarrow> go_error + trunc_unit" where
  "bucketExpression g =
     (if g = ''hourly'' then Inr TruncHour
      else if g = ''daily'' then Inr TruncDay
      else if g = ''rolling30d'' then Inr TruncDay
      else Inl (Plain ''invalid granularity''))"

text \<open>One row of the grouped query and the \<open>Bucket\<close> scanned from it.\<close>

definition bucket_row :: "platform \<Rightarrow> instant \<Rightarrow> trade_row list \<Rightarrow> bucket" where
  "bucket_row P b grp =
     (let won = count_rows (\<lambda>r. outcome r = Some Win) grp;
          decided = count_rows (\<lambda>r. outcome r = Some Win \<or> outcome r = Some Loss) grp;
          pnls = List.map_filter pnl grp;
          plans = List.map_filter plan_adherence grp
      in \<lparr>BucketAt = b, TradeCount = int (length grp),
          BucketWinRate = (if decided = 0 then 0 else fl (fl (of_int won) / fl (of_int decided))),
          BucketPnL = text_float P (sum_list pnls),
          AvgPlanAdherence = (if plans = [] then 0
             else text_float P (of_int (sum_list plans) / of_nat (length plans)))\<rparr>)"

definition in_span :: "uuid \<Rightarrow> instant \<Rightarrow> instant \<Rightarrow> trade_row \<Rightarrow> bool" where
  "in_span u from to r \<longleftrightarrow>
     user_id r = u \<and> to_timestamptz from \<le> entry_at r \<and> entry_at r < to_timestamptz to"

definition bucket_rows ::
    "platform \<Rightarrow> uuid \<Rightarrow> instant \<Rightarrow> instant \<Rightarrow> trunc_unit \<Rightarrow> db \<Rightarrow> bucket list" where
  "bucket_rows P u from to un s =
     (let rows = filter (in_span u from to) (trades s)
      in map (\<lambda>b. bucket_row P b (filter (\<lambda>r. date_trunc un (entry_at r) = b) rows))
           (sort (remdups (map (\<lambda>r. date_trunc un (entry_at r)) rows))))"

definition LoadBuckets ::
    "platform \<Rightarrow> uuid \<Rightarrow> instant \<Rightarrow> instant \<Rightarrow> string \<Rightarrow> db \<Rightarrow> (go_error + bucket list) \<times> db" where
  "LoadBuckets P u from to g s =
     (case bucketExpression g of
        Inl e \<Rightarrow> (Inl e, s)
      | Inr un \<Rightarrow>
          (case db_query (bucket_rows P u from to un) s of
             (Inl e, s1) \<Rightarrow> (Inl (Wrap ''query buckets'' (Sql e)), s1)
           | (Inr (bs, _), s1) \<Rightarrow> (Inr bs, s1)))"

end
