(* ===== verification/Httpx.thy ===== *)
theory Httpx imports Queue Metrics_Repo begin

text \<open>
  The shared HTTP plumbing of \<open>internal/httpx\<close> and what the handlers see of \<open>net/http\<close>: the request
  with its context, the response writer, structured log lines. A handler maps a request and the state
  of the process to the way it ended and the new state.

  The request body is given decoded: either the decoder's error text or the value it filled in. Response
  bodies are kept as values; \<open>encoding/json\<close> writes each in one call, or nothing if it cannot. A body that
  is not JSON is \<open>JText\<close>.
\<close>

section \<open>The request context\<close>

text \<open>The bodies of the answers, by the names of the code.\<close>

datatype error_response = ErrorResponse (er_error: string) (er_message: string) (er_trace_id: string)

datatype metrics_response = MetricsResponse (mr_user_id: uuid) (mr_granularity: string)
    (mr_from: "instant \<times> int") (mr_to: "instant \<times> int") (mr_snapshot: user_metrics) (mr_timeseries: "bucket list")

datatype health_response =
  HealthResponse (hr_status: string) (hr_db_connection: string) (hr_queue_lag: int) (hr_timestamp: instant)

datatype json =
    JError error_response
  | JTrade trade
  | JMetrics metrics_response
  | JHealth health_response
  | JText string

text \<open>
  Attributes of a log line; \<open>ASize\<close> is the number of bytes of the encoded values, \<open>AStack\<close> the runtime's stack trace.
\<close>

datatype attr = AStr string | AInt int | AErr go_error | AUuid uuid | ASize "json list" | AStack

type_synonym logger = "(string \<times> attr) list"

record req_context =
  key_trace_id :: "string option"
  key_user_id :: "uuid option"
  key_logger :: "logger option"

definition WithTraceID :: "req_context \<Rightarrow> string \<Rightarrow> req_context" where
  "WithTraceID ctx i = ctx\<lparr>key_trace_id := Some i\<rparr>"

definition TraceID :: "req_context \<Rightarrow> string" where
  "TraceID ctx = (case key_trace_id ctx of None \<Rightarrow> '''' | Some i \<Rightarrow> i)"

definition WithUserID :: "req_context \<Rightarrow> uuid \<Rightarrow> req_context" where
  "WithUserID ctx u = ctx\<lparr>key_user_id := Some u\<rparr>"

definition ctx_UserID :: "req_context \<Rightarrow> uuid option" where
  "ctx_UserID ctx = key_user_id ctx"

definition WithLogger :: "req_context \<Rightarrow> logger \<Rightarrow> req_context" where
  "WithLogger ctx lg = ctx\<lparr>key_logger := Some lg\<rparr>"

text \<open>\<open>slog.Default()\<close> has no attributes of its own.\<close>

definition Logger_of :: "req_context \<Rightarrow> logger" where
  "Logger_of ctx = (case key_logger ctx of None \<Rightarrow> [] | Some lg \<Rightarrow> lg)"

text \<open>A request: headers and query by name, the empty string where absent; path parameters from the router.\<close>

record request =
  r_method :: string
  r_path :: string
  r_header :: "string \<Rightarrow> string"
  r_query :: "string \<Rightarrow> string"
  r_param :: "string \<Rightarrow> string"
  r_body :: "string + trade_input"
  r_context :: req_context

definition WithContext :: "request \<Rightarrow> req_context \<Rightarrow> request" where
  "WithContext r ctx = r\<lparr>r_context := ctx\<rparr>"

section \<open>The response writer\<close>

text \<open>
  The header map, what was sent with the status line, the values written, and the recorder the logging
  middleware puts around the writer: the status it saw last and what passed through it.
\<close>

record writer =
  w_header :: "string \<rightharpoonup> string"
  w_sent :: "(int \<times> (string \<rightharpoonup> string)) option"
  w_body :: "json list"
  w_recorder :: "(int \<times> json list) option"

definition SetHeader :: "string \<Rightarrow> string \<Rightarrow> writer \<Rightarrow> writer" where
  "SetHeader k v w = w\<lparr>w_header := (w_header w)(k \<mapsto> v)\<rparr>"

text \<open>\<open>net/http\<close>: the first status line is sent with the headers of that moment, later ones are dropped.\<close>

definition http_write_header :: "int \<Rightarrow> writer \<Rightarrow> writer" where
  "http_write_header code w = (if w_sent w = None then w\<lparr>w_sent := Some (code, w_header w)\<rparr> else w)"

definition http_write :: "json \<Rightarrow> writer \<Rightarrow> writer" where
  "http_write j w = (let w1 = http_write_header 200 w in w1\<lparr>w_body := w_body w1 @ [j]\<rparr>)"

text \<open>The methods of \<open>statusRecorder\<close>, where there is one.\<close>

definition WriteHeader :: "int \<Rightarrow> writer \<Rightarrow> writer" where
  "WriteHeader code w = http_write_header code
     (case w_recorder w of None \<Rightarrow> w | Some (st, out) \<Rightarrow> w\<lparr>w_recorder := Some (code, out)\<rparr>)"

definition Write :: "json \<Rightarrow> writer \<Rightarrow> writer" where
  "Write j w = http_write j
     (case w_recorder w of None \<Rightarrow> w
      | Some (st, out) \<Rightarrow> w\<lparr>w_recorder := Some (if st = 0 then 200 else st, out @ [j])\<rparr>)"

section \<open>Encoding\<close>

text \<open>
  \<open>Time.MarshalJSON\<close> refuses a year that is not four digits in the time's zone, and a zone a day or more
  away from UTC. Times from the database are in UTC, the zone of the process.
\<close>

definition encodable_time :: "instant \<times> int \<Rightarrow> bool" where
  "encodable_time t \<longleftrightarrow> (case t of (x, off) \<Rightarrow>
     0 \<le> year_of (x + off * 10 ^ 9) \<and> year_of (x + off * 10 ^ 9) < 10000 \<and> \<bar>off\<bar> < 86400)"

definition encodable :: "json \<Rightarrow> bool" where
  "encodable j = (case j of
     JError _ \<Rightarrow> True
   | JTrade t \<Rightarrow> encodable_time (EntryAt t, 0) \<and> (case ExitAt t of None \<Rightarrow> True | Some x \<Rightarrow> encodable_time (x, 0)) \<and>
       encodable_time (CreatedAt t, 0) \<and> encodable_time (UpdatedAt t, 0)
   | JMetrics m \<Rightarrow> encodable_time (mr_from m) \<and> encodable_time (mr_to m) \<and>
       list_all (\<lambda>b. encodable_time (BucketAt b, 0)) (mr_timeseries m)
   | JHealth h \<Rightarrow> encodable_time (hr_timestamp h, 0)
   | JText _ \<Rightarrow> True)"

definition Encode :: "json \<Rightarrow> writer \<Rightarrow> writer" where
  "Encode j w = (if encodable j then Write j w else w)"

definition WriteError :: "request \<Rightarrow> int \<Rightarrow> string \<Rightarrow> string \<Rightarrow> writer \<Rightarrow> writer" where
  "WriteError r st code msg w =
     Encode (JError (ErrorResponse code msg (TraceID (r_context r))))
       (WriteHeader st (SetHeader ''Content-Type'' ''application/json'' w))"

definition WriteJSON :: "int \<Rightarrow> json \<Rightarrow> writer \<Rightarrow> writer" where
  "WriteJSON st v w = Encode v (WriteHeader st (SetHeader ''Content-Type'' ''application/json'' w))"

section \<open>Handlers\<close>

datatype level = Debug | Info | Warn | Error

text \<open>The state of the process a handler works on, with the goroutines it started that publish an event.\<close>

record web =
  web_db :: db
  web_tasks :: "event list"
  web_logs :: "(level \<times> string \<times> logger) list"
  web_resp :: writer

datatype outcome_of = Finished | Panicked string

type_synonym handler = "request \<Rightarrow> web \<Rightarrow> outcome_of \<times> web"

definition log_line :: "level \<Rightarrow> logger \<Rightarrow> string \<Rightarrow> logger \<Rightarrow> web \<Rightarrow> web" where
  "log_line lv lg msg attrs w = w\<lparr>web_logs := web_logs w @ [(lv, msg, lg @ attrs)]\<rparr>"

definition respond :: "(writer \<Rightarrow> writer) \<Rightarrow> web \<Rightarrow> outcome_of \<times> web" where
  "respond f w = (Finished, w\<lparr>web_resp := f (web_resp w)\<rparr>)"

definition fresh_writer :: writer where
  "fresh_writer = \<lparr>w_header = Map.empty, w_sent = None, w_body = [], w_recorder = None\<rparr>"

text \<open>The status a client sees, and the bodies.\<close>

definition status_of_resp :: "writer \<Rightarrow> int option" where
  "status_of_resp w = map_option fst (w_sent w)"

lemma encodable_error [simp]: "encodable (JError e)"
  by (simp add: encodable_def)

lemma WriteError_sent [simp]:
  "w_sent w = None \<Longrightarrow> status_of_resp (WriteError r st code msg w) = Some st"
  "w_body (WriteError r st code msg w) = w_body w @ [JError (ErrorResponse code msg (TraceID (r_context r)))]"
  by (auto simp: WriteError_def Encode_def Write_def http_write_def WriteHeader_def http_write_header_def
      status_of_resp_def SetHeader_def Let_def split: option.split)

lemma WriteJSON_sent [simp]:
  "w_sent w = None \<Longrightarrow> status_of_resp (WriteJSON st v w) = Some st"
  "w_body (WriteJSON st v w) = w_body w @ (if encodable v then [v] else [])"
  by (auto simp: WriteJSON_def Encode_def Write_def http_write_def WriteHeader_def http_write_header_def
      status_of_resp_def SetHeader_def Let_def split: option.split)

lemma respond_simps [simp]:
  "fst (respond f w) = Finished" "web_resp (snd (respond f w)) = f (web_resp w)"
  "web_db (snd (respond f w)) = web_db w" "web_tasks (snd (respond f w)) = web_tasks w"
  "web_logs (snd (respond f w)) = web_logs w"
  by (simp_all add: respond_def)

lemma log_line_simps [simp]:
  "web_db (log_line lv lg msg attrs w) = web_db w" "web_tasks (log_line lv lg msg attrs w) = web_tasks w"
  "web_resp (log_line lv lg msg attrs w) = web_resp w"
  by (simp_all add: log_line_def)

section \<open>Example requests\<close>

definition request_by :: "uuid \<Rightarrow> uuid \<Rightarrow> trade_input \<Rightarrow> request" where
  "request_by u i inp = \<lparr>r_method = '''', r_path = '''', r_header = (\<lambda>_. ''''), r_query = (\<lambda>_. ''''),
     r_param = (\<lambda>_. show_uuid ref_platform i), r_body = Inr inp,
     r_context = \<lparr>key_trace_id = None, key_user_id = Some u, key_logger = None\<rparr>\<rparr>"

definition web_on :: "db \<Rightarrow> web" where
  "web_on s = \<lparr>web_db = s, web_tasks = [], web_logs = [], web_resp = fresh_writer\<rparr>"

lemma request_by_simps [simp]:
  "ctx_UserID (r_context (request_by u i inp)) = Some u" "r_body (request_by u i inp) = Inr inp"
  "r_param (request_by u i inp) k = show_uuid ref_platform i"
  by (simp_all add: request_by_def ctx_UserID_def)

lemma web_on_simps [simp]:
  "web_db (web_on s) = s" "web_tasks (web_on s) = []" "web_resp (web_on s) = fresh_writer"
  by (simp_all add: web_on_def)

end
