(* ===== verification/Stream_Laws.thy ===== *)
theory Stream_Laws imports Queue begin

text \<open>
  What the code relies on in Redis. The server keeps, for a consumer group, the entries it has not handed
  out, those it has handed out and not seen acknowledged, with a count of deliveries, and those that are
  done with; what the commands of the code do to that bookkeeping is stated as laws, as the documentation
  of Redis has them, failed commands with a lost reply included. A small server that meets them closes
  the theory; the witnesses of the properties run on it.
\<close>

section \<open>The bookkeeping of a consumer group\<close>

datatype slot = Fresh | Owed nat | Settled

type_synonym 'q view = "'q \<Rightarrow> string \<Rightarrow> slot"

definition ack_law :: "'q redis \<Rightarrow> consumer \<Rightarrow> 'q view \<Rightarrow> bool" where
  "ack_law R c v \<longleftrightarrow> (\<forall>i q r q'. xack R (c_stream c) (c_group c) i q = (r, q') \<longrightarrow>
     v q' = v q \<or> v q i \<noteq> Fresh \<and> v q' = (v q)(i := Settled))"

definition handed_out :: "slot \<Rightarrow> slot \<Rightarrow> bool" where
  "handed_out a b \<longleftrightarrow> a = Fresh \<and> b = Owed 1"

definition read_law :: "'q redis \<Rightarrow> consumer \<Rightarrow> 'q view \<Rightarrow> bool" where
  "read_law R c v \<longleftrightarrow> (\<forall>n b q r q'. xread_group R (c_group c) (c_name c) (c_stream c) n b q = (r, q') \<longrightarrow>
     (\<forall>i. v q' i = v q i \<or> handed_out (v q i) (v q' i)) \<and>
     (\<forall>res. r = Inr res \<longrightarrow> distinct (map fst (concat (map snd res))) \<and>
        (\<forall>i \<in> set (map fst (concat (map snd res))). handed_out (v q i) (v q' i))))"

definition pending_law :: "'q redis \<Rightarrow> consumer \<Rightarrow> 'q view \<Rightarrow> bool" where
  "pending_law R c v \<longleftrightarrow> (\<forall>idle n q r q'. xpending_ext R (c_stream c) (c_group c) idle n q = (r, q') \<longrightarrow>
     v q' = v q \<and>
     (\<forall>ps. r = Inr ps \<longrightarrow> distinct (map pend_id ps) \<and>
        (\<forall>p \<in> set ps. 0 \<le> pend_retry_count p \<and> v q (pend_id p) = Owed (nat (pend_retry_count p)))))"

definition redelivered :: "slot \<Rightarrow> slot \<Rightarrow> bool" where
  "redelivered a b \<longleftrightarrow> (\<exists>n. a = Owed n \<and> b = Owed (Suc n))"

text \<open>A claimed entry that was deleted from the stream is dropped from the bookkeeping.\<close>

definition claim_law :: "'q redis \<Rightarrow> consumer \<Rightarrow> 'q view \<Rightarrow> bool" where
  "claim_law R c v \<longleftrightarrow> (\<forall>idle ids q r q'. xclaim R (c_stream c) (c_group c) (c_name c) idle ids q = (r, q') \<longrightarrow>
     (\<forall>i. v q' i = v q i \<or> redelivered (v q i) (v q' i) \<or> v q i \<noteq> Fresh \<and> v q' i = Settled) \<and>
     (\<forall>es. r = Inr es \<longrightarrow> distinct (map fst es) \<and>
        (\<forall>i \<in> set (map fst es). i \<in> set ids \<and> redelivered (v q i) (v q' i))))"

text \<open>Publishing and waiting do not touch it.\<close>

definition quiet_law :: "'q redis \<Rightarrow> 'q go_context \<Rightarrow> 'q view \<Rightarrow> bool" where
  "quiet_law R C v \<longleftrightarrow> (\<forall>stream f q. v (snd (xadd R stream f q)) = v q) \<and> (\<forall>d q. v (snd (ctx_sleep C d q)) = v q)"

section \<open>A server\<close>

text \<open>
  The log, the bookkeeping, the time and the time of the last delivery of each entry. Its clock moves when
  the worker sleeps.
\<close>

record server =
  sv_log :: "entry list"
  sv_slot :: "string \<Rightarrow> slot"
  sv_now :: int
  sv_last :: "string \<Rightarrow> int"

definition sv_ids :: "server \<Rightarrow> string list" where
  "sv_ids q = remdups (map fst (sv_log q))"

definition sv_fields :: "server \<Rightarrow> string \<Rightarrow> fields" where
  "sv_fields q i = (case map_of (sv_log q) i of None \<Rightarrow> Map.empty | Some f \<Rightarrow> f)"

fun count_of :: "slot \<Rightarrow> nat option" where
  "count_of (Owed n) = Some n"
| "count_of _ = None"

definition deliver :: "string list \<Rightarrow> (slot \<Rightarrow> slot) \<Rightarrow> server \<Rightarrow> server" where
  "deliver ids g q = q\<lparr>sv_slot := (\<lambda>i. if i \<in> set ids then g (sv_slot q i) else sv_slot q i),
     sv_last := (\<lambda>i. if i \<in> set ids then sv_now q else sv_last q i)\<rparr>"

definition idle_ids :: "int \<Rightarrow> string list \<Rightarrow> server \<Rightarrow> string list" where
  "idle_ids idle ids q = filter (\<lambda>i. count_of (sv_slot q i) \<noteq> None \<and> idle \<le> sv_now q - sv_last q i) ids"

fun bump_slot :: "slot \<Rightarrow> slot" where
  "bump_slot (Owed n) = Owed (Suc n)"
| "bump_slot x = x"

definition sv_read :: "int \<Rightarrow> server \<Rightarrow> (go_error + (string \<times> entry list) list) \<times> server" where
  "sv_read n q = (let ids = take (nat n) (filter (\<lambda>i. sv_slot q i = Fresh) (sv_ids q))
     in if ids = [] then (Inl RedisNil, q)
        else (Inr [(''s'', map (\<lambda>i. (i, sv_fields q i)) ids)], deliver ids (\<lambda>_. Owed 1) q))"

definition sv_claim :: "int \<Rightarrow> string list \<Rightarrow> server \<Rightarrow> (go_error + entry list) \<times> server" where
  "sv_claim idle ids q = (let ids = idle_ids idle (remdups ids) q
     in (Inr (map (\<lambda>i. (i, sv_fields q i)) ids), deliver ids bump_slot q))"

definition sv_pending :: "int \<Rightarrow> int \<Rightarrow> server \<Rightarrow> (go_error + pending list) \<times> server" where
  "sv_pending idle n q =
     (Inr (map (\<lambda>i. \<lparr>pend_id = i, pend_retry_count = int (the (count_of (sv_slot q i)))\<rparr>)
        (take (nat n) (idle_ids idle (sv_ids q) q))), q)"

definition ref_redis :: "server redis" where
  "ref_redis = \<lparr>
     xadd = (\<lambda>_ f q. let i = replicate (Suc (length (sv_log q))) CHR ''1'' in (Inr i, q\<lparr>sv_log := sv_log q @ [(i, f)]\<rparr>)),
     xack = (\<lambda>_ _ i q. case sv_slot q i of Owed n \<Rightarrow> (Inr 1, q\<lparr>sv_slot := (sv_slot q)(i := Settled)\<rparr>) | _ \<Rightarrow> (Inr 0, q)),
     xpending = (\<lambda>_ _ q. (Inr (int (length (filter (\<lambda>i. count_of (sv_slot q i) \<noteq> None) (sv_ids q)))), q)),
     xread_group = (\<lambda>_ _ _ n _. sv_read n),
     xpending_ext = (\<lambda>_ _. sv_pending),
     xclaim = (\<lambda>_ _ _. sv_claim),
     xgroup_create_mkstream = (\<lambda>_ _ _ q. (Inl (Plain busy_group), q))\<rparr>"

definition ref_ctx :: "server go_context" where
  "ref_ctx = \<lparr>ctx_err = (\<lambda>_. None), ctx_sleep = (\<lambda>d q. (None, q\<lparr>sv_now := sv_now q + d\<rparr>))\<rparr>"

definition ref_consumer :: consumer where
  "ref_consumer = \<lparr>c_stream = ''s'', c_group = ''g'', c_name = ''worker-1''\<rparr>"

lemma ref_redis_simps [simp]:
  "xack ref_redis st g i q = (case sv_slot q i of Owed n \<Rightarrow> (Inr 1, q\<lparr>sv_slot := (sv_slot q)(i := Settled)\<rparr>) | _ \<Rightarrow> (Inr 0, q))"
  "xread_group ref_redis g nm st n b = sv_read n"
  "xpending_ext ref_redis st g = sv_pending"
  "xclaim ref_redis st g nm = sv_claim"
  "sv_slot (snd (xadd ref_redis st f q)) = sv_slot q"
  "ctx_err ref_ctx q = None" "ctx_sleep ref_ctx d q = (None, q\<lparr>sv_now := sv_now q + d\<rparr>)"
  by (simp_all add: ref_redis_def ref_ctx_def Let_def)

lemma deliver_slot [simp]:
  "sv_slot (deliver ids g q) i = (if i \<in> set ids then g (sv_slot q i) else sv_slot q i)"
  by (simp add: deliver_def)

lemma count_of_Some: "count_of x = Some n \<longleftrightarrow> x = Owed n" "count_of x \<noteq> None \<longleftrightarrow> (\<exists>n. x = Owed n)"
  by (cases x; simp)+

lemma idle_idsD: "i \<in> set (idle_ids d ids q) \<Longrightarrow> i \<in> set ids \<and> (\<exists>n. sv_slot q i = Owed n)"
  by (auto simp: idle_ids_def count_of_Some)

lemma ref_ack_law: "ack_law ref_redis c sv_slot"
  unfolding ack_law_def by (auto split: slot.splits)

lemma ref_read_law: "read_law ref_redis c sv_slot"
proof -
  have "(\<forall>i. sv_slot q' i = sv_slot q i \<or> handed_out (sv_slot q i) (sv_slot q' i)) \<and>
     (\<forall>res. r = Inr res \<longrightarrow> distinct (map fst (concat (map snd res))) \<and>
        (\<forall>i \<in> set (map fst (concat (map snd res))). handed_out (sv_slot q i) (sv_slot q' i)))"
    if "sv_read n q = (r, q')" for n q r q'
  proof -
    define ids where "ids = take (nat n) (filter (\<lambda>i. sv_slot q i = Fresh) (sv_ids q))"
    have d: "distinct ids" by (simp add: ids_def sv_ids_def distinct_take)
    have f: "sv_slot q i = Fresh" if "i \<in> set ids" for i using in_set_takeD [OF that [unfolded ids_def]] by simp
    show ?thesis
    proof (cases "ids = []")
      case True
      with that have "r = Inl RedisNil" "q' = q" by (simp_all add: sv_read_def ids_def [symmetric])
      then show ?thesis by simp
    next
      case False
      with that have "r = Inr [(''s'', map (\<lambda>i. (i, sv_fields q i)) ids)]" "q' = deliver ids (\<lambda>_. Owed 1) q"
        by (simp_all add: sv_read_def ids_def [symmetric])
      with d f show ?thesis by (simp add: handed_out_def comp_def)
    qed
  qed
  then show ?thesis unfolding read_law_def ref_redis_simps by blast
qed

lemma ref_pending_law: "pending_law ref_redis c sv_slot"
proof -
  have "q' = q \<and> (\<forall>ps. r = Inr ps \<longrightarrow> distinct (map pend_id ps) \<and>
        (\<forall>p \<in> set ps. 0 \<le> pend_retry_count p \<and> sv_slot q (pend_id p) = Owed (nat (pend_retry_count p))))"
    if "sv_pending d n q = (r, q')" for d n q r q'
  proof -
    have "distinct (take (nat n) (idle_ids d (sv_ids q) q))" by (simp add: sv_ids_def idle_ids_def distinct_take)
    moreover have "\<exists>k. sv_slot q i = Owed k" if "i \<in> set (take (nat n) (idle_ids d (sv_ids q) q))" for i
      using idle_idsD [OF in_set_takeD [OF that]] by blast
    ultimately show ?thesis using that by (fastforce simp: sv_pending_def comp_def)
  qed
  then show ?thesis unfolding pending_law_def ref_redis_simps by blast
qed

lemma ref_claim_law: "claim_law ref_redis c sv_slot"
proof -
  have "(\<forall>i. sv_slot q' i = sv_slot q i \<or> redelivered (sv_slot q i) (sv_slot q' i)) \<and>
     (\<forall>es. r = Inr es \<longrightarrow> distinct (map fst es) \<and>
        (\<forall>i \<in> set (map fst es). i \<in> set ids \<and> redelivered (sv_slot q i) (sv_slot q' i)))"
    if "sv_claim d ids q = (r, q')" for d ids q r q'
  proof -
    have "distinct (idle_ids d (remdups ids) q)" by (simp add: idle_ids_def)
    moreover have "i \<in> set ids \<and> redelivered (sv_slot q i) (bump_slot (sv_slot q i))" if "i \<in> set (idle_ids d (remdups ids) q)" for i
      using idle_idsD [OF that] by (auto simp: redelivered_def)
    ultimately show ?thesis using that by (fastforce simp: sv_claim_def Let_def comp_def)
  qed
  then show ?thesis unfolding claim_law_def ref_redis_simps by blast
qed

lemma ref_quiet_law: "quiet_law ref_redis ref_ctx sv_slot"
  by (simp add: quiet_law_def)

lemmas ref_laws = ref_ack_law ref_read_law ref_pending_law ref_claim_law ref_quiet_law

text \<open>One entry of the log, not handed out or delivered once.\<close>

definition one_entry :: "fields \<Rightarrow> slot \<Rightarrow> server" where
  "one_entry f x = \<lparr>sv_log = [(''1'', f)], sv_slot = (\<lambda>i. if i = ''1'' then x else Fresh), sv_now = 0, sv_last = (\<lambda>_. 0)\<rparr>"

lemma one_entry_simps [simp]:
  "sv_ids (one_entry f x) = [''1'']" "sv_slot (one_entry f x) i = (if i = ''1'' then x else Fresh)"
  "sv_fields (one_entry f x) ''1'' = f" "sv_now (one_entry f x) = 0"
  by (simp_all add: one_entry_def sv_ids_def sv_fields_def)

end
