(* ===== verification/Calculators.thy ===== *)
theory Calculators imports Metrics_Repo begin

text \<open>
  The five metric calculators the worker runs on an event: \<open>plan_adherence.go\<close>,
  \<open>revenge_flag.go\<close>, \<open>overtrading.go\<close>, \<open>win_rate.go\<close> and \<open>session_tilt.go\<close>
  of \<open>internal/metrics\<close>.
\<close>

section \<open>Durations\<close>

text \<open>\<open>time.Duration\<close> is a signed 64-bit count of nanoseconds; \<open>Time.Sub\<close> saturates.\<close>

definition seconds :: "int \<Rightarrow> int" where "seconds n = n * 10 ^ 9"

definition minutes :: "int \<Rightarrow> int" where "minutes n = n * 60 * 10 ^ 9"

definition time_sub :: "instant \<Rightarrow> instant \<Rightarrow> int" where
  "time_sub a b = max (- (2 ^ 63)) (min (2 ^ 63 - 1) (a - b))"

section \<open>Plan adherence\<close>

definition rated :: "uuid \<Rightarrow> trade_row \<Rightarrow> bool" where
  "rated u r \<longleftrightarrow> user_id r = u \<and> status r = Closed \<and> plan_adherence r \<noteq> None"

text \<open>
  \<open>ORDER BY exit_at DESC LIMIT 10\<close>. Which of the trades with equal exits come first is left open by SQL; the model
  keeps the order of the table, whatever it is. The theorems speak of the window up to such ties.
\<close>

definition last_ratings :: "uuid \<Rightarrow> db \<Rightarrow> int list" where
  "last_ratings u s =
     map (the \<circ> plan_adherence)
       (take 10 (sort_desc (sql_key_of \<circ> exit_at) (filter (rated u) (trades s))))"

definition PlanAdherence_calc :: "platform \<Rightarrow> uuid \<Rightarrow> db \<Rightarrow> (go_error + unit) \<times> db" where
  "PlanAdherence_calc P u s =
     (case db_query (last_ratings u) s of
        (Inl e, s1) \<Rightarrow> (Inl (Wrap ''query plan adherence trades'' (Sql e)), s1)
      | (Inr (vs, _), s1) \<Rightarrow>
          (let total = sum_list vs; cnt = int (length vs)
           in if cnt = 0 then (Inr (), s1)
              else SetPlanAdherenceScore P u (f_div (of_exact (of_int total)) (fl (of_int cnt))) cnt s1))"

section \<open>Revenge flag\<close>

definition losing_close :: "uuid \<Rightarrow> instant \<Rightarrow> trade_row \<Rightarrow> bool" where
  "losing_close u t r \<longleftrightarrow> user_id r = u \<and> status r = Closed \<and> outcome r = Some Loss \<and>
     (case exit_at r of None \<Rightarrow> False | Some x \<Rightarrow> x \<le> to_timestamptz t)"

definition last_loss :: "uuid \<Rightarrow> instant \<Rightarrow> db \<Rightarrow> instant option option" where
  "last_loss u t s =
     (case sort_desc (sql_key_of \<circ> exit_at) (filter (losing_close u t) (trades s)) of
        [] \<Rightarrow> None | r # _ \<Rightarrow> Some (exit_at r))"

definition RevengeFlag_calc ::
    "(uuid \<Rightarrow> bool \<Rightarrow> db \<Rightarrow> (go_error + unit) \<times> db) \<Rightarrow> uuid \<Rightarrow> uuid \<Rightarrow> db \<Rightarrow> (go_error + unit) \<times> db" where
  "RevengeFlag_calc setFlag tid u s =
     (case db_query_row (read_row (\<lambda>s. tbl_lookup trade_id tid (trades s))) s of
        (Inl e, s1) \<Rightarrow> (Inl (Wrap ''load opened trade'' (Sql e)), s1)
      | (Inr row, s1) \<Rightarrow>
          (let entryAt = entry_at row; emo = map_option emotion_text (emotional_state row)
           in if emo = None \<or> (emo \<noteq> Some ''anxious'' \<and> emo \<noteq> Some ''fearful'') then (Inr (), s1)
              else (case db_query_row (read_row (last_loss u entryAt)) s1 of
                      (Inl e, s2) \<Rightarrow>
                        if e = NoRows then (Inr (), s2) else (Inl (Wrap ''query last loss'' (Sql e)), s2)
                    | (Inr None, s2) \<Rightarrow> (Inr (), s2)
                    | (Inr (Some lastLossExit), s2) \<Rightarrow>
                        if seconds 90 < time_sub entryAt lastLossExit then (Inr (), s2)
                        else (case setFlag tid True s2 of
                                (Inl e, s3) \<Rightarrow> (Inl (Wrap ''set revenge flag'' e), s3)
                              | (Inr _, s3) \<Rightarrow> IncrementRevengeCount u s3))))"

section \<open>Overtrading\<close>

definition opens_in :: "uuid \<Rightarrow> instant \<Rightarrow> instant \<Rightarrow> db \<Rightarrow> int" where
  "opens_in u ws we s =
     count_rows (\<lambda>r. user_id r = u \<and> to_timestamptz ws \<le> entry_at r \<and> entry_at r \<le> to_timestamptz we) (trades s)"

definition events_in :: "uuid \<Rightarrow> instant \<Rightarrow> instant \<Rightarrow> db \<Rightarrow> int" where
  "events_in u ws we s =
     count_rows (\<lambda>e. ot_user_id e = u \<and> to_timestamptz ws \<le> window_end e \<and> window_end e \<le> to_timestamptz we)
       (overtrading_events s)"

text \<open>The publisher works on the bus \<open>'q\<close> beside the database; its error is dropped.\<close>

definition Overtrading_calc ::
    "platform \<Rightarrow> (uuid \<Rightarrow> instant \<Rightarrow> instant \<Rightarrow> int \<Rightarrow> 'q \<Rightarrow> (go_error + unit) \<times> 'q) option
     \<Rightarrow> uuid \<Rightarrow> instant \<Rightarrow> db \<Rightarrow> 'q \<Rightarrow> (go_error + unit) \<times> db \<times> 'q" where
  "Overtrading_calc P publisher u entryAt s q =
     (let windowStart = entryAt - minutes 30
      in case db_query_row (read_row (\<lambda>s. Some (opens_in u windowStart entryAt s))) s of
           (Inl e, s1) \<Rightarrow> (Inl (Wrap ''count opens in window'' (Sql e)), s1, q)
         | (Inr cnt, s1) \<Rightarrow>
             if cnt \<le> 10 then (Inr (), s1, q)
             else (case db_query_row (read_row (\<lambda>s. Some (events_in u windowStart entryAt s))) s1 of
                     (Inl e, s2) \<Rightarrow> (Inl (Wrap ''dedupe check'' (Sql e)), s2, q)
                   | (Inr existing, s2) \<Rightarrow>
                       if 0 < existing then (Inr (), s2, q)
                       else (case AddOvertradingEvent P u windowStart entryAt cnt s2 of
                               (Inl e, s3) \<Rightarrow> (Inl e, s3, q)
                             | (Inr _, s3) \<Rightarrow>
                                 (case IncrementOvertradingCount u s3 of
                                    (Inl e, s4) \<Rightarrow> (Inl e, s4, q)
                                  | (Inr _, s4) \<Rightarrow>
                                      (case publisher of
                                         None \<Rightarrow> (Inr (), s4, q)
                                       | Some pub \<Rightarrow> (Inr (), s4, snd (pub u windowStart entryAt cnt q)))))))"

section \<open>Win rate by emotion and session tilt\<close>

definition WinRateByEmotion_calc :: "uuid \<Rightarrow> uuid \<Rightarrow> db \<Rightarrow> (go_error + unit) \<times> db" where
  "WinRateByEmotion_calc tid u s =
     (case db_query_row (read_row (\<lambda>s. tbl_lookup trade_id tid (trades s))) s of
        (Inl e, s1) \<Rightarrow> (Inl (Wrap ''load closed trade'' (Sql e)), s1)
      | (Inr row, s1) \<Rightarrow>
          (case (map_option emotion_text (emotional_state row), map_option outcome_text (outcome row)) of
             (Some emo, Some oc) \<Rightarrow> UpsertEmotionStat u emo (oc = ''win'') s1
           | _ \<Rightarrow> (Inr (), s1)))"

definition SessionTilt_calc :: "uuid \<Rightarrow> db \<Rightarrow> (go_error + unit) \<times> db" where
  "SessionTilt_calc sid s = UpsertSessionTilt sid s"

end
