(* ===== verification/Worker.thy ===== *)
theory Worker imports Stream_Laws Calculators begin

text \<open>
  The worker of \<open>internal/worker/worker.go\<close>: dispatch of one event to the calculators, the rule of
  acknowledgement, the recovery of stuck messages and the consumer loop as a step relation. The state is
  the database beside the stream server. Log lines are left out.
\<close>

section \<open>Constants\<close>

definition batchSize :: int where "batchSize = 32"

definition idleSleep :: int where "idleSleep = 100 * 10 ^ 6"

definition nonBlock :: int where "nonBlock = - (10 ^ 6)"

definition stuckIdleTime :: int where "stuckIdleTime = 30 * 10 ^ 9"

definition maxDeliveries :: int where "maxDeliveries = 5"

section \<open>The worker\<close>

text \<open>The producer may be absent; present, it is known by its stream.\<close>

record 'q worker =
  platform_of :: platform
  redis_of :: "'q redis"
  run_ctx :: "'q go_context"
  consumer_of :: consumer
  prod_of :: "string option"

definition publishOvertradingEvent ::
    "'q worker \<Rightarrow> uuid \<Rightarrow> instant \<Rightarrow> instant \<Rightarrow> int \<Rightarrow> 'q \<Rightarrow> (go_error + unit) \<times> 'q" where
  "publishOvertradingEvent W u ws we n q =
     (case prod_of W of
        None \<Rightarrow> (Inr (), q)
      | Some stream \<Rightarrow>
          (case Publish (redis_of W) (run_ctx W) stream
              \<lparr>ev_type = EventOvertradingDetected, ev_trade_id = '''', ev_user_id = show_uuid (platform_of W) u,
               ev_session_id = '''', ev_occurred_at = we\<rparr> q of
             (Inl e, q1) \<Rightarrow> (Inl e, q1)
           | (Inr _, q1) \<Rightarrow> (Inr (), q1)))"

text \<open>Each failing calculator adds one; the next one runs all the same.\<close>

definition failures :: "go_error + unit \<Rightarrow> int" where
  "failures r = (case r of Inl _ \<Rightarrow> 1 | Inr _ \<Rightarrow> 0)"

definition process_opened :: "'q worker \<Rightarrow> uuid \<Rightarrow> uuid \<Rightarrow> instant \<Rightarrow> db \<times> 'q \<Rightarrow> int \<times> db \<times> 'q" where
  "process_opened W tid u t sq = (case sq of (s, q) \<Rightarrow>
     (case RevengeFlag_calc SetRevengeFlag tid u s of (r1, s1) \<Rightarrow>
     (case Overtrading_calc (platform_of W) (Some (publishOvertradingEvent W)) u t s1 q of (r2, s2, q2) \<Rightarrow>
       (failures r1 + failures r2, s2, q2))))"

definition process_closed :: "'q worker \<Rightarrow> uuid \<Rightarrow> uuid \<Rightarrow> uuid \<Rightarrow> db \<times> 'q \<Rightarrow> int \<times> db \<times> 'q" where
  "process_closed W tid u sid sq = (case sq of (s, q) \<Rightarrow>
     (case PlanAdherence_calc (platform_of W) u s of (r1, s1) \<Rightarrow>
     (case WinRateByEmotion_calc tid u s1 of (r2, s2) \<Rightarrow>
     (case SessionTilt_calc sid s2 of (r3, s3) \<Rightarrow>
       (failures r1 + failures r2 + failures r3, s3, q)))))"

definition process :: "'q worker \<Rightarrow> message \<Rightarrow> db \<times> 'q \<Rightarrow> (int \<times> bool) \<times> db \<times> 'q" where
  "process W m sq =
     (let ev = msg_event m; parse = parse_uuid (platform_of W)
      in if ev_type ev = EventTradeOpened
         then (case (parse (ev_trade_id ev), parse (ev_user_id ev)) of
                 (Some tid, Some u) \<Rightarrow>
                   (case process_opened W tid u (ev_occurred_at ev) sq of (n, sq1) \<Rightarrow> ((n, False), sq1))
               | _ \<Rightarrow> ((0, True), sq))
         else if ev_type ev = EventTradeClosed
         then (case (parse (ev_trade_id ev), parse (ev_user_id ev), parse (ev_session_id ev)) of
                 (Some tid, Some u, Some sid) \<Rightarrow>
                   (case process_closed W tid u sid sq of (n, sq1) \<Rightarrow> ((n, False), sq1))
               | _ \<Rightarrow> ((0, True), sq))
         else if ev_type ev = EventOvertradingDetected then ((0, False), sq)
         else ((0, True), sq))"

text \<open>
  \<open>handle\<close> with the event dispatch as an argument, so that statements about acknowledgement hold for
  every dispatch; \<open>handle\<close> is its instance at \<open>process\<close>.
\<close>

definition handle_with ::
    "(message \<Rightarrow> 's \<times> 'q \<Rightarrow> (int \<times> bool) \<times> 's \<times> 'q) \<Rightarrow> 'q redis \<Rightarrow> message \<Rightarrow> 's \<times> 'q \<Rightarrow> 's \<times> 'q" where
  "handle_with proc R m sq =
     (if maxDeliveries \<le> msg_deliveries m
      then (case sq of (s, q) \<Rightarrow> (s, snd (Ack R m q)))
      else (case proc m sq of ((failed, malformed), s1, q1) \<Rightarrow>
              if 0 < failed \<and> \<not> malformed then (s1, q1)
              else (s1, snd (Ack R m q1))))"

definition handle :: "'q worker \<Rightarrow> message \<Rightarrow> db \<times> 'q \<Rightarrow> db \<times> 'q" where
  "handle W = handle_with (process W) (redis_of W)"

fun handle_all :: "(message \<Rightarrow> 'a \<Rightarrow> 'a) \<Rightarrow> message list \<Rightarrow> 'a \<Rightarrow> 'a" where
  "handle_all h [] sq = sq"
| "handle_all h (m # ms) sq = handle_all h ms (h m sq)"

definition recover_with ::
    "(message \<Rightarrow> 's \<times> 'q \<Rightarrow> 's \<times> 'q) \<Rightarrow> 'q redis \<Rightarrow> consumer \<Rightarrow> 's \<times> 'q \<Rightarrow> 's \<times> 'q" where
  "recover_with h R c sq = (case sq of (s, q) \<Rightarrow>
     (case ClaimStuck R c stuckIdleTime batchSize q of
        (Inl e, q1) \<Rightarrow> (s, q1)
      | (Inr ms, q1) \<Rightarrow> handle_all h ms (s, q1)))"

definition recoverStuck :: "'q worker \<Rightarrow> db \<times> 'q \<Rightarrow> db \<times> 'q" where
  "recoverStuck W = recover_with (handle W) (redis_of W) (consumer_of W)"

text \<open>One turn of the loop after the select: \<open>Some e\<close> when \<open>Run\<close> returns.\<close>

definition poll_with ::
    "(message \<Rightarrow> 's \<times> 'q \<Rightarrow> 's \<times> 'q) \<Rightarrow> 'q worker \<Rightarrow> 's \<times> 'q \<Rightarrow> go_error option \<times> 's \<times> 'q" where
  "poll_with h W sq = (case sq of (s, q) \<Rightarrow>
     (case Read (redis_of W) (consumer_of W) batchSize nonBlock q of
        (Inl e, q1) \<Rightarrow>
          if unwraps_to e Canceled \<or> unwraps_to e DeadlineExceeded then (Some e, s, q1)
          else (None, s, snd (ctx_sleep (run_ctx W) (500 * 10 ^ 6) q1))
      | (Inr ms, q1) \<Rightarrow>
          if ms = [] then (case ctx_sleep (run_ctx W) idleSleep q1 of (r, q2) \<Rightarrow> (r, s, q2))
          else (None, handle_all h ms (s, q1))))"

text \<open>
  The loop. The select takes any branch that is ready, so a tick of the recovery timer may be served
  although the context has ended; the default branch runs when neither is ready. \<open>run_step (handle W) W\<close>
  is \<open>Run\<close>.
\<close>

datatype ('s, 'q) run_state = Running 's 'q | Returned go_error 's 'q

definition turn :: "(message \<Rightarrow> 's \<times> 'q \<Rightarrow> 's \<times> 'q) \<Rightarrow> 'q worker \<Rightarrow> 's \<times> 'q \<Rightarrow> ('s, 'q) run_state" where
  "turn h W sq = (case poll_with h W sq of (None, s, q) \<Rightarrow> Running s q | (Some e, s, q) \<Rightarrow> Returned e s q)"

inductive run_step ::
    "(message \<Rightarrow> 's \<times> 'q \<Rightarrow> 's \<times> 'q) \<Rightarrow> 'q worker \<Rightarrow> ('s, 'q) run_state \<Rightarrow> ('s, 'q) run_state \<Rightarrow> bool"
  for h W where
  cancelled: "ctx_err (run_ctx W) q = Some e \<Longrightarrow> run_step h W (Running s q) (Returned e s q)"
| recovery: "run_step h W (Running s q) (turn h W (recover_with h (redis_of W) (consumer_of W) (s, q)))"
| polling: "ctx_err (run_ctx W) q = None \<Longrightarrow> run_step h W (Running s q) (turn h W (s, q))"

inductive_cases run_step_RunningE: "run_step h W (Running s q) x"
inductive_simps run_step_Returned: "run_step h W (Returned e s q) x"

text \<open>
  Between two turns the rest of the system moves: the clock, the stream, the tables. What it may do is
  the relation \<open>env\<close>.
\<close>

inductive runs ::
    "(message \<Rightarrow> 's \<times> 'q \<Rightarrow> 's \<times> 'q) \<Rightarrow> 'q worker \<Rightarrow> ('s \<times> 'q \<Rightarrow> 's \<times> 'q \<Rightarrow> bool)
     \<Rightarrow> ('s, 'q) run_state \<Rightarrow> ('s, 'q) run_state \<Rightarrow> bool"
  for h W env where
  start: "runs h W env x x"
| worker: "runs h W env x y \<Longrightarrow> run_step h W y z \<Longrightarrow> runs h W env x z"
| others: "runs h W env x (Running s q) \<Longrightarrow> env (s, q) (s', q') \<Longrightarrow> runs h W env x (Running s' q')"

section \<open>Invariants of a run\<close>

text \<open>What every message keeps and the environment keeps, every run keeps.\<close>

fun state_sat :: "('s \<times> 'q \<Rightarrow> bool) \<Rightarrow> ('s, 'q) run_state \<Rightarrow> bool" where
  "state_sat I (Running s q) = I (s, q)"
| "state_sat I (Returned e s q) = I (s, q)"

lemma handle_all_inv: "(\<And>m sq. I sq \<Longrightarrow> I (h m sq)) \<Longrightarrow> I sq \<Longrightarrow> I (handle_all h ms sq)"
  by (induction ms arbitrary: sq) auto

lemma handle_with_ends:
  "maxDeliveries \<le> msg_deliveries m \<Longrightarrow> handle_with proc R m (s, q) = (s, snd (Ack R m q))"
  "\<not> maxDeliveries \<le> msg_deliveries m \<Longrightarrow> proc m (s, q) = ((n, bad), s1, q1) \<Longrightarrow>
     handle_with proc R m (s, q) = (s1, if 0 < n \<and> \<not> bad then q1 else snd (Ack R m q1))"
  by (simp_all add: handle_with_def)

text \<open>
  \<open>Run\<close> only ever returns because its context ended: with a context whose error is \<open>Canceled\<close> or
  \<open>DeadlineExceeded\<close>, and whatever Redis, the database and the rest of the system do, the error it returns
  is one of these two, possibly wrapped. Failed reads, failed claims and failed calculators never stop it.
\<close>
theorem Run_returns:
  assumes "\<And>q e. ctx_err (run_ctx W) q = Some e \<Longrightarrow> e = Canceled \<or> e = DeadlineExceeded"
    and "\<And>d q e q'. ctx_sleep (run_ctx W) d q = (Some e, q') \<Longrightarrow> e = Canceled \<or> e = DeadlineExceeded"
    and "runs (handle W) W env (Running s q) (Returned e s' q')"
  shows "unwraps_to e Canceled \<or> unwraps_to e DeadlineExceeded"
proof -
  let ?P = "\<lambda>x. \<forall>e s q. x = Returned e s q \<longrightarrow> unwraps_to e Canceled \<or> unwraps_to e DeadlineExceeded"
  have turn: "?P (turn (handle W) W sq)" for sq
    using assms(2) by (fastforce simp: turn_def poll_with_def split: prod.splits sum.splits if_splits option.splits)
  have "?P y" if "runs (handle W) W env x y" "?P x" for x y
    using that
  proof induction
    case (worker x y z)
    from worker.hyps(2) turn assms(1) worker.IH [OF worker.prems] show ?case
      by (cases rule: run_step.cases) fastforce+
  qed auto
  with assms(3) show ?thesis by blast
qed

text \<open>A worker on the server of \<open>Stream_Laws\<close>.\<close>

definition ref_worker :: "server worker" where
  "ref_worker = \<lparr>platform_of = ref_platform, redis_of = ref_redis, run_ctx = ref_ctx, consumer_of = ref_consumer,
     prod_of = Some ''s''\<rparr>"

lemma ref_worker_simps [simp]:
  "platform_of ref_worker = ref_platform" "redis_of ref_worker = ref_redis" "run_ctx ref_worker = ref_ctx"
  "consumer_of ref_worker = ref_consumer" "prod_of ref_worker = Some ''s''"
  "c_stream ref_consumer = ''s''" "c_group ref_consumer = ''g''" "c_name ref_consumer = ''worker-1''"
  by (simp_all add: ref_worker_def ref_consumer_def)

text \<open>The same worker after an interrupt.\<close>

definition stopped_worker :: "server worker" where
  "stopped_worker = ref_worker\<lparr>run_ctx := \<lparr>ctx_err = (\<lambda>_. Some Canceled), ctx_sleep = (\<lambda>d q. (Some Canceled, q))\<rparr>\<rparr>"

theorem Run_returns_witness:
  "unwraps_to Canceled Canceled \<or> unwraps_to Canceled DeadlineExceeded"
proof (rule Run_returns)
  show "e = Canceled \<or> e = DeadlineExceeded" if "ctx_err (run_ctx stopped_worker) q = Some e" for q e
    using that by (simp add: stopped_worker_def)
  show "e = Canceled \<or> e = DeadlineExceeded" if "ctx_sleep (run_ctx stopped_worker) d q = (Some e, q')" for d q e q'
    using that by (simp add: stopped_worker_def)
  have "run_step (handle stopped_worker) stopped_worker (Running empty_db (one_entry Map.empty Fresh))
      (Returned Canceled empty_db (one_entry Map.empty Fresh))"
    by (rule cancelled) (simp add: stopped_worker_def)
  then show "runs (handle stopped_worker) stopped_worker (\<lambda>_ _. False) (Running empty_db (one_entry Map.empty Fresh))
      (Returned Canceled empty_db (one_entry Map.empty Fresh))"
    by (rule worker [OF start])
qed

end
