(* ===== verification/Delivery.thy ===== *)
theory Delivery imports Worker begin

text \<open>
  How often a message is processed: at most five times, under the laws of the server and whatever fails.
\<close>

section \<open>The laws of the worker's group\<close>

definition group_laws :: "'q worker \<Rightarrow> 'q view \<Rightarrow> bool" where
  "group_laws W v \<longleftrightarrow> ack_law (redis_of W) (consumer_of W) v \<and> read_law (redis_of W) (consumer_of W) v \<and>
     pending_law (redis_of W) (consumer_of W) v \<and> claim_law (redis_of W) (consumer_of W) v \<and>
     quiet_law (redis_of W) (run_ctx W) v"

section \<open>Counting the attempts\<close>

text \<open>The worker beside a counter of how often \<open>process\<close> ran for each message.\<close>

type_synonym tried = "string \<Rightarrow> nat"

definition counted ::
    "(message \<Rightarrow> 's \<times> 'q \<Rightarrow> (int \<times> bool) \<times> 's \<times> 'q)
     \<Rightarrow> message \<Rightarrow> ('s \<times> tried) \<times> 'q \<Rightarrow> (int \<times> bool) \<times> ('s \<times> tried) \<times> 'q" where
  "counted proc m sq = (case sq of ((s, a), q) \<Rightarrow>
     (case proc m (s, q) of (r, s1, q1) \<Rightarrow> (r, (s1, a(msg_id m := Suc (a (msg_id m)))), q1)))"

text \<open>Without the counter it is the worker.\<close>

definition forget :: "('s \<times> tried) \<times> 'q \<Rightarrow> 's \<times> 'q" where
  "forget sq = (fst (fst sq), snd sq)"

lemma counted_forget:
  "forget (handle_with (counted proc) R m sq) = handle_with proc R m (forget sq)"
  "forget (handle_all (handle_with (counted proc) R) ms sq) = handle_all (handle_with proc R) ms (forget sq)"
proof -
  show one: "forget (handle_with (counted proc) R m sq) = handle_with proc R m (forget sq)" for m sq
    by (cases sq) (auto simp: handle_with_def counted_def forget_def split: prod.splits)
  show "forget (handle_all (handle_with (counted proc) R) ms sq) = handle_all (handle_with proc R) ms (forget sq)"
    by (induction ms arbitrary: sq) (simp_all add: one)
qed

section \<open>The bound\<close>

definition limit :: nat where "limit = nat maxDeliveries"

lemma limit_5: "limit = 5"
  by (simp add: limit_def maxDeliveries_def)

text \<open>An entry is tried at most as often as it was delivered, and never more than five times.\<close>

fun fits :: "slot \<Rightarrow> nat \<Rightarrow> bool" where
  "fits Fresh k = (k = 0)"
| "fits (Owed n) k = (k \<le> n \<and> k \<le> limit)"
| "fits Settled k = (k \<le> limit)"

definition tries_ok :: "'q view \<Rightarrow> ('s \<times> tried) \<times> 'q \<Rightarrow> bool" where
  "tries_ok v sq = (case sq of ((s, a), q) \<Rightarrow> \<forall>i. fits (v q i) (a i))"

text \<open>A message in hand has been delivered once more than it was tried.\<close>

definition in_hand :: "'q view \<Rightarrow> ('s \<times> tried) \<times> 'q \<Rightarrow> message list \<Rightarrow> bool" where
  "in_hand v sq ms = (case sq of ((s, a), q) \<Rightarrow> distinct (map msg_id ms) \<and>
     (\<forall>m \<in> set ms. \<exists>n. v q (msg_id m) = Owed n \<and> a (msg_id m) < n \<and>
        (msg_deliveries m < maxDeliveries \<longrightarrow> a (msg_id m) < limit)))"

lemma fits_ack:
  assumes "ack_law R c v" and "xack R (c_stream c) (c_group c) i q = (r, q')" and "\<forall>j. fits (v q j) (a j)"
  shows "\<forall>j. fits (v q' j) (a j)" and "j \<noteq> i \<Longrightarrow> v q' j = v q j"
proof -
  from assms(1,2) have "v q' = v q \<or> v q i \<noteq> Fresh \<and> v q' = (v q)(i := Settled)" by (auto simp: ack_law_def)
  moreover have "fits (v q i) (a i)" using assms(3) by blast
  ultimately show "\<forall>j. fits (v q' j) (a j)" "j \<noteq> i \<Longrightarrow> v q' j = v q j"
    using assms(3) by (cases "v q i"; auto)+
qed

lemma handle_tries:
  assumes laws: "ack_law R c v" and quiet: "\<And>m s q. v (snd (snd (proc m (s, q)))) = v q"
    and of_group: "msg_stream m = c_stream c" "msg_group m = c_group c"
    and ok: "tries_ok v sq" and hand: "in_hand v sq (m # ms)"
  shows "tries_ok v (handle_with (counted proc) R m sq) \<and> in_hand v (handle_with (counted proc) R m sq) ms"
proof -
  obtain s a q where sq: "sq = ((s, a), q)" by (metis surj_pair)
  let ?i = "msg_id m"
  from ok have w: "\<forall>j. fits (v q j) (a j)" by (simp add: tries_ok_def sq)
  from hand obtain n where n: "v q ?i = Owed n" "a ?i < n" "msg_deliveries m < maxDeliveries \<Longrightarrow> a ?i < limit"
    and rest: "distinct (map msg_id ms)" "?i \<notin> msg_id ` set ms"
      "\<forall>m' \<in> set ms. \<exists>n. v q (msg_id m') = Owed n \<and> a (msg_id m') < n \<and>
        (msg_deliveries m' < maxDeliveries \<longrightarrow> a (msg_id m') < limit)"
    by (auto simp: in_hand_def sq)
  have ack: "tries_ok v ((s', b), snd (Ack R m q1)) \<and> in_hand v ((s', b), snd (Ack R m q1)) ms"
    if "v q1 = v q" "\<forall>j. fits (v q j) (b j)" "\<And>j. j \<noteq> ?i \<Longrightarrow> b j = a j" for s' b q1
  proof -
    obtain r q2 where x: "xack R (c_stream c) (c_group c) ?i q1 = (r, q2)" by fastforce
    then have q2: "snd (Ack R m q1) = q2" by (simp add: Ack_def of_group split: sum.split)
    note wa = fits_ack [OF laws x, of b]
    have "v q2 (msg_id m') = v q (msg_id m') \<and> b (msg_id m') = a (msg_id m')" if "m' \<in> set ms" for m'
      using that rest(2) wa(2) [of "msg_id m'"] \<open>v q1 = v q\<close> \<open>\<forall>j. fits (v q j) (b j)\<close>
        \<open>\<And>j. j \<noteq> ?i \<Longrightarrow> b j = a j\<close> [of "msg_id m'"] by (auto simp: image_iff)
    then show ?thesis
      using wa(1) that(1,2) rest(1,3) unfolding q2 tries_ok_def in_hand_def prod.case by simp
  qed
  show ?thesis
  proof (cases "maxDeliveries \<le> msg_deliveries m")
    case True
    then show ?thesis using ack [of q a s] w by (simp add: handle_with_ends(1) sq)
  next
    case False
    obtain k bad s1 q1 where p: "proc m (s, q) = ((k, bad), s1, q1)" by (metis surj_pair)
    let ?b = "a(?i := Suc (a ?i))"
    have cp: "counted proc m ((s, a), q) = ((k, bad), (s1, ?b), q1)" by (simp add: counted_def p)
    have q1: "v q1 = v q" using quiet [of m s q] by (simp add: p)
    have w1: "\<forall>j. fits (v q j) (?b j)" using w n False by auto
    have "tries_ok v ((s1, ?b), q1) \<and> in_hand v ((s1, ?b), q1) ms"
      using w1 q1 rest unfolding tries_ok_def in_hand_def by (auto simp: image_iff)
    with ack [of q1 ?b s1] q1 w1 show ?thesis 
      using handle_with_ends(2) [where proc = "counted proc" and s = "(s, a)" and q = q, OF False cp, of R] by (simp add: sq)
  qed
qed

lemma handle_all_tries:
  assumes "ack_law R c v" and "\<And>m s q. v (snd (snd (proc m (s, q)))) = v q"
    and "\<forall>m \<in> set ms. msg_stream m = c_stream c \<and> msg_group m = c_group c"
    and "tries_ok v sq" and "in_hand v sq ms"
  shows "tries_ok v (handle_all (handle_with (counted proc) R) ms sq)"
  using assms(3-)
proof (induction ms arbitrary: sq)
  case (Cons m ms)
  have "tries_ok v (handle_with (counted proc) R m sq) \<and> in_hand v (handle_with (counted proc) R m sq) ms"
    using Cons.prems by (intro handle_tries [OF assms(1,2)]) auto
  with Cons show ?case by simp
qed simp

text \<open>Decoding a batch acknowledges some entries and keeps the rest in order.\<close>

lemma decode_batch_tries:
  assumes "ack_law R c v" and "decode_batch R c cnt es q = (ms, q')" and "distinct (map fst es)"
    and "\<forall>j. fits (v q j) (a j)"
  shows "(\<forall>j. fits (v q' j) (a j)) \<and> (\<forall>j. j \<notin> set (map fst es) \<longrightarrow> v q' j = v q j) \<and>
    distinct (map msg_id ms) \<and> set (map msg_id ms) \<subseteq> set (map fst es) \<and>
    (\<forall>m \<in> set ms. msg_stream m = c_stream c \<and> msg_group m = c_group c \<and> msg_deliveries m = cnt (msg_id m) \<and>
       v q' (msg_id m) = v q (msg_id m))"
  using assms(2-)
proof (induction es arbitrary: q ms)
  case (Cons e es)
  obtain i f where e: "e = (i, f)" by (cases e)
  show ?case
  proof (cases "decodeValues f")
    case (Inl x)
    obtain r q1 where x: "xack R (c_stream c) (c_group c) i q = (r, q1)" by fastforce
    note wa = fits_ack [OF assms(1) x Cons.prems(3)]
    have "decode_batch R c cnt es q1 = (ms, q')" using Cons.prems(1) by (simp add: e Inl x)
    from Cons.IH [OF this _ wa(1)] Cons.prems(2) wa(2) show ?thesis
      unfolding e by (auto simp: subset_iff) (metis image_eqI)+
  next
    case (Inr ev)
    then obtain ms' where ms': "decode_batch R c cnt es q = (ms', q')"
        "ms = \<lparr>msg_id = i, msg_stream = c_stream c, msg_group = c_group c, msg_event = ev, msg_deliveries = cnt i\<rparr> # ms'"
      using Cons.prems(1) by (auto simp: e split: prod.splits)
    have d: "distinct (map fst es)" "i \<notin> set (map fst es)" using Cons.prems(2) by (simp_all add: e)
    from Cons.IH [OF ms'(1) d(1) Cons.prems(3)] d(2) show ?thesis
      unfolding e ms'(2) by (auto simp: subset_iff)
  qed
qed auto

lemma fits_handed_out: "handed_out x y \<Longrightarrow> fits x k \<Longrightarrow> fits y k \<and> k = 0 \<and> y = Owed 1"
  by (simp add: handed_out_def limit_5)

lemma fits_redelivered: "redelivered x y \<Longrightarrow> fits x k \<Longrightarrow> fits y k \<and> (\<exists>n. y = Owed (Suc n) \<and> x = Owed n \<and> k \<le> n)"
  by (auto simp: redelivered_def)

lemma fits_claim: "y = x \<or> redelivered x y \<or> x \<noteq> Fresh \<and> y = Settled \<Longrightarrow> fits x k \<Longrightarrow> fits y k"
  by (cases x) (auto simp: redelivered_def)

lemma in_hand_decoded:
  assumes "ack_law R c v" and "decode_batch R c cnt es q = (ms, q')" and "distinct (map fst es)"
    and "\<forall>j. fits (v q j) (a j)"
    and "\<And>i. i \<in> set (map fst es) \<Longrightarrow> \<exists>n. v q i = Owed n \<and> a i < n \<and> (cnt i < maxDeliveries \<longrightarrow> a i < limit)"
  shows "tries_ok v ((s, a), q') \<and> in_hand v ((s, a), q') ms \<and> (\<forall>m \<in> set ms. msg_stream m = c_stream c \<and> msg_group m = c_group c)"
proof -
  from decode_batch_tries [OF assms(1-4)]
  have d: "\<forall>j. fits (v q' j) (a j)" "distinct (map msg_id ms)" "set (map msg_id ms) \<subseteq> set (map fst es)"
    "\<forall>m \<in> set ms. msg_stream m = c_stream c \<and> msg_group m = c_group c \<and> msg_deliveries m = cnt (msg_id m) \<and>
       v q' (msg_id m) = v q (msg_id m)" by blast+
  have "\<exists>n. v q' (msg_id m) = Owed n \<and> a (msg_id m) < n \<and> (msg_deliveries m < maxDeliveries \<longrightarrow> a (msg_id m) < limit)"
    if "m \<in> set ms" for m
  proof -
    have "msg_id m \<in> set (map fst es)" using d(3) that by auto
    moreover have "msg_deliveries m = cnt (msg_id m)" "v q' (msg_id m) = v q (msg_id m)" using d(4) that by blast+
    ultimately show ?thesis using assms(5) [of "msg_id m"] by (simp only:)
  qed
  with d show ?thesis by (simp add: tries_ok_def in_hand_def)
qed

lemma Read_tries:
  assumes "ack_law R c v" and "read_law R c v" and "tries_ok v ((s, a), q)" and "Read R c n b q = (r, q')"
  shows "tries_ok v ((s, a), q') \<and> (\<forall>ms. r = Inr ms \<longrightarrow> in_hand v ((s, a), q') ms \<and>
    (\<forall>m \<in> set ms. msg_stream m = c_stream c \<and> msg_group m = c_group c))"
proof -
  obtain r1 q1 where x: "xread_group R (c_group c) (c_name c) (c_stream c) n b q = (r1, q1)" by fastforce
  have law: "\<forall>i. v q1 i = v q i \<or> handed_out (v q i) (v q1 i)"
    "\<And>res. r1 = Inr res \<Longrightarrow> distinct (map fst (concat (map snd res))) \<and>
       (\<forall>i \<in> set (map fst (concat (map snd res))). handed_out (v q i) (v q1 i))"
    using assms(2) x unfolding read_law_def by blast+
  have ok: "\<forall>i. fits (v q i) (a i)" using assms(3) by (simp add: tries_ok_def)
  have ok1: "\<forall>i. fits (v q1 i) (a i)"
  proof
    fix i show "fits (v q1 i) (a i)" using law(1) ok fits_handed_out by metis
  qed
  show ?thesis
  proof (cases r1)
    case (Inl e)
    with x assms(4) ok1 show ?thesis by (auto simp: Read_def tries_ok_def in_hand_def split: if_splits)
  next
    case (Inr res)
    let ?es = "concat (map snd res)"
    obtain ms q2 where d: "decode_batch R c (\<lambda>_. 1) ?es q1 = (ms, q2)" by fastforce
    have hand: "\<exists>n. v q1 i = Owed n \<and> a i < n \<and> (1 < maxDeliveries \<longrightarrow> a i < limit)" if "i \<in> set (map fst ?es)" for i
    proof -
      have "handed_out (v q i) (v q1 i)" using law(2) [OF Inr] that by blast
      from fits_handed_out [OF this, of "a i"] ok have "a i = 0" "v q1 i = Owed 1" by blast+
      then show ?thesis by (simp add: limit_5)
    qed
    have "tries_ok v ((s, a), q2) \<and> in_hand v ((s, a), q2) ms \<and> (\<forall>m \<in> set ms. msg_stream m = c_stream c \<and> msg_group m = c_group c)"
      by (rule in_hand_decoded [OF assms(1) d _ ok1 hand]) (use law(2) [OF Inr] in blast)
    with assms(4) x d Inr show ?thesis by (auto simp: Read_def)
  qed
qed

lemma delivery_count_law:
  assumes "distinct (map pend_id ps)" and "p \<in> set ps"
  shows "delivery_count ps (pend_id p) = pend_retry_count p"
proof -
  have "distinct (map fst (rev (map (\<lambda>p. (pend_id p, pend_retry_count p)) ps)))"
    using assms(1) by (simp add: rev_map [symmetric] comp_def)
  moreover have "(pend_id p, pend_retry_count p) \<in> set (rev (map (\<lambda>p. (pend_id p, pend_retry_count p)) ps))"
    using assms(2) by auto
  ultimately show ?thesis unfolding delivery_count_def by (simp add: map_of_is_SomeI)
qed

lemma ClaimStuck_tries:
  assumes "ack_law R c v" and "pending_law R c v" and "claim_law R c v" and "tries_ok v ((s, a), q)"
    and "ClaimStuck R c idle n q = (r, q')"
  shows "tries_ok v ((s, a), q') \<and> (\<forall>ms. r = Inr ms \<longrightarrow> in_hand v ((s, a), q') ms \<and>
    (\<forall>m \<in> set ms. msg_stream m = c_stream c \<and> msg_group m = c_group c))"
proof -
  have ok: "\<forall>i. fits (v q i) (a i)" using assms(4) by (simp add: tries_ok_def)
  obtain r1 q1 where x: "xpending_ext R (c_stream c) (c_group c) idle n q = (r1, q1)" by fastforce
  then have v1: "v q1 = v q" using assms(2) unfolding pending_law_def by blast
  show ?thesis
  proof (cases "\<exists>ps. r1 = Inr ps \<and> ps \<noteq> []")
    case False
    with x assms(5) ok v1 show ?thesis
      by (cases r1) (auto simp: ClaimStuck_def tries_ok_def in_hand_def split: if_splits)
  next
    case True
    then obtain ps where ps: "r1 = Inr ps" "ps \<noteq> []" by blast
    have pl: "distinct (map pend_id ps)"
      "\<forall>p \<in> set ps. 0 \<le> pend_retry_count p \<and> v q (pend_id p) = Owed (nat (pend_retry_count p))"
      using assms(2) x ps(1) unfolding pending_law_def by blast+
    obtain r2 q2 where y: "xclaim R (c_stream c) (c_group c) (c_name c) idle (map pend_id ps) q1 = (r2, q2)" by fastforce
    have law: "\<forall>i. v q2 i = v q1 i \<or> redelivered (v q1 i) (v q2 i) \<or> v q1 i \<noteq> Fresh \<and> v q2 i = Settled"
      "\<And>es. r2 = Inr es \<Longrightarrow> distinct (map fst es) \<and>
        (\<forall>i \<in> set (map fst es). i \<in> set (map pend_id ps) \<and> redelivered (v q1 i) (v q2 i))"
      using assms(3) y unfolding claim_law_def by blast+
    have ok2: "\<forall>i. fits (v q2 i) (a i)"
    proof
      fix i show "fits (v q2 i) (a i)" using fits_claim [OF spec [OF law(1), of i]] ok v1 by simp
    qed
    show ?thesis
    proof (cases r2)
      case (Inl e)
      with x y ps assms(5) ok2 show ?thesis by (auto simp: ClaimStuck_def tries_ok_def)
    next
      case (Inr es)
      obtain ms q3 where d: "decode_batch R c (delivery_count ps) es q2 = (ms, q3)" by fastforce
      have hand: "\<exists>n. v q2 i = Owed n \<and> a i < n \<and> (delivery_count ps i < maxDeliveries \<longrightarrow> a i < limit)"
        if "i \<in> set (map fst es)" for i
      proof -
        from law(2) [OF Inr] that obtain p where p: "p \<in> set ps" "i = pend_id p" and re: "redelivered (v q1 i) (v q2 i)"
          by auto
        have "fits (v q1 i) (a i)" using ok v1 by simp
        from fits_redelivered [OF re this] obtain k where k: "v q2 i = Owed (Suc k)" "v q1 i = Owed k" "a i \<le> k" by blast
        then have "k = nat (delivery_count ps i)"
          using pl p delivery_count_law [OF pl(1) p(1)] v1 by simp
        with k show ?thesis by (auto simp: limit_5 maxDeliveries_def)
      qed
      have "tries_ok v ((s, a), q3) \<and> in_hand v ((s, a), q3) ms \<and> (\<forall>m \<in> set ms. msg_stream m = c_stream c \<and> msg_group m = c_group c)"
        by (rule in_hand_decoded [OF assms(1) d _ ok2 hand]) (use law(2) [OF Inr] in blast)
      with assms(5) x y d ps Inr show ?thesis by (auto simp: ClaimStuck_def)
    qed
  qed
qed

lemma run_step_tries:
  assumes laws: "group_laws W v" and quiet: "\<And>m s q. v (snd (snd (proc m (s, q)))) = v q"
    and step: "run_step (handle_with (counted proc) (redis_of W)) W x y"
    and "state_sat (tries_ok v) x"
  shows "state_sat (tries_ok v) y"
proof -
  let ?R = "redis_of W" and ?c = "consumer_of W" let ?h = "handle_with (counted proc) ?R"
  from laws have l: "ack_law ?R ?c v" "read_law ?R ?c v" "pending_law ?R ?c v" "claim_law ?R ?c v"
    and sleep: "\<And>d q. v (snd (ctx_sleep (run_ctx W) d q)) = v q"
    unfolding group_laws_def quiet_law_def by blast+
  have recover: "tries_ok v (recover_with ?h ?R ?c (s, q))" if "tries_ok v (s, q)" for s q
  proof -
    obtain d a where s: "s = (d, a)" by fastforce
    obtain r q1 where x: "ClaimStuck ?R ?c stuckIdleTime batchSize q = (r, q1)" by fastforce
    note ct = ClaimStuck_tries [OF l(1,3,4) that [unfolded s] x]
    show ?thesis
    proof (cases r)
      case (Inr ms)
      with ct have "tries_ok v (handle_all ?h ms ((d, a), q1))" by (intro handle_all_tries [OF l(1) quiet]) auto
      with Inr x show ?thesis by (simp add: recover_with_def s)
    qed (use x ct in \<open>simp add: recover_with_def s\<close>)
  qed
  have turn: "state_sat (tries_ok v) (turn ?h W (s, q))" if ok: "tries_ok v (s, q)" for s q
  proof -
    obtain d a where s: "s = (d, a)" by fastforce
    obtain r q1 where x: "Read ?R ?c batchSize nonBlock q = (r, q1)" by fastforce
    note rt = Read_tries [OF l(1,2) ok [unfolded s] x]
    have same: "tries_ok v ((d, a), snd (ctx_sleep (run_ctx W) z q1))" for z
      using rt sleep by (simp add: tries_ok_def)
    show ?thesis
    proof (cases r)
      case (Inl e)
      with x rt same show ?thesis by (simp add: turn_def poll_with_def s)
    next
      case (Inr ms)
      then have "tries_ok v (handle_all ?h ms ((d, a), q1))"
        using rt by (intro handle_all_tries [OF l(1) quiet]) auto
      with Inr x same [of idleSleep] show ?thesis
        by (auto simp: turn_def poll_with_def s split: prod.splits option.splits)
    qed
  qed
  from step assms(4) turn recover show ?thesis
    by (cases rule: run_step.cases) (auto split: prod.splits, metis surj_pair)
qed

text \<open>The calculators do not touch the bookkeeping, whatever they publish.\<close>

lemma Publish_quiet: "quiet_law R C v \<Longrightarrow> v (snd (Publish R C stream ev q)) = v q"
  unfolding quiet_law_def
  by (auto simp: Publish_def publishOnce_def split: prod.splits sum.splits option.splits) (metis snd_conv)+

lemma process_quiet:
  assumes "quiet_law (redis_of W) (run_ctx W) v"
  shows "v (snd (snd (process W m (s, q)))) = v q"
proof -
  have pub: "v (snd (publishOvertradingEvent W u a b n q)) = v q" for u a b n q
    using Publish_quiet [OF assms]
    by (auto simp: publishOvertradingEvent_def split: option.splits prod.splits sum.splits) (metis snd_conv)+
  have ot: "v (snd (snd (Overtrading_calc P (Some (publishOvertradingEvent W)) u t s q))) = v q" for P u t s q
    using pub by (auto simp: Overtrading_calc_def Let_def split: prod.splits sum.splits)
  show ?thesis
    using ot [of "platform_of W"]
    by (auto simp: process_def process_opened_def process_closed_def Let_def split: prod.splits option.splits)
      (metis snd_conv)+
qed

text \<open>
  C5: no message is processed more than five times, the dead-letter limit, in any run of the worker: over
  any sequence of polls and recovery rounds, whatever fails on the way (reads, claims or acknowledgements
  with lost replies, calculators, the database), with any movement of the clock and any new entries in
  between. The delivery count the code compares is the one from before the claim; the bound holds all the
  same. The counter beside the state does not influence the run (\<open>counted_forget\<close>).
\<close>
theorem at_most_five_attempts:
  assumes "group_laws W v"
    and "\<And>s a q s' a' q'. env ((s, a), q) ((s', a'), q') \<Longrightarrow> a' = a \<and> v q' = v q"
    and "\<And>i. v q0 i = Fresh"
    and "runs (handle_with (counted (process W)) (redis_of W)) W env (Running (s0, \<lambda>_. 0) q0) (Running (s, a) q)"
  shows "a i \<le> 5"
proof -
  let ?h = "handle_with (counted (process W)) (redis_of W)"
  have quiet: "v (snd (snd (process W m (s, q)))) = v q" for m s q
    using assms(1) by (intro process_quiet) (simp add: group_laws_def)
  have "state_sat (tries_ok v) y" if "runs ?h W env x y" "state_sat (tries_ok v) x" for x y
    using that
  proof induction
    case (worker x y z)
    then show ?case by (intro run_step_tries [OF assms(1) quiet worker.hyps(2)]) blast
  next
    case (others x s q s' q')
    obtain d a d' a' where "s = (d, a)" "s' = (d', a')" by (metis surj_pair)
    with assms(2) others show ?case by (fastforce simp: tries_ok_def)
  qed
  moreover have "state_sat (tries_ok v) (Running (s0, \<lambda>_. 0) q0)" using assms(3) by (simp add: tries_ok_def)
  ultimately have "tries_ok v ((s, a), q)" using assms(4) by fastforce
  then have "fits (v q i) (a i)" by (simp add: tries_ok_def)
  then show ?thesis by (cases "v q i") (simp_all add: limit_5)
qed

lemma ref_group_laws: "group_laws ref_worker sv_slot"
  using ref_laws by (simp add: group_laws_def)

theorem at_most_five_attempts_witness:
  "case turn (handle_with (counted (process ref_worker)) ref_redis) ref_worker
      ((empty_db, \<lambda>_. 0), one_entry (event_fields sample_event) Fresh) of
     Running s q \<Rightarrow> snd s ''1'' \<le> 5 | Returned e s q \<Rightarrow> True"
proof -
  let ?h = "handle_with (counted (process ref_worker)) ref_redis"
  let ?q = "one_entry (event_fields sample_event) Fresh"
  let ?x = "Running (empty_db, \<lambda>_. 0) ?q"
  have "run_step ?h ref_worker ?x (turn ?h ref_worker ((empty_db, \<lambda>_. 0), ?q))" by (rule polling) simp
  then have "runs ?h ref_worker (\<lambda>_ _. False) ?x (turn ?h ref_worker ((empty_db, \<lambda>_. 0), ?q))"
    by (rule worker [OF start])
  then show ?thesis
    using at_most_five_attempts [of ref_worker sv_slot "\<lambda>_ _. False" ?q empty_db _ _ _ "''1''", OF ref_group_laws]
    by (auto split: run_state.split)
qed

end
