(* ===== verification/Backfill.thy ===== *)
theory Backfill imports Calculators begin

text \<open>
  The bulk recomputation of every metric from the table \<open>trades\<close>
  (\<open>internal/metrics/backfill.go\<close>), run once after the seed is loaded.
\<close>

definition after :: "(go_error + unit) \<times> db \<Rightarrow> (db \<Rightarrow> (go_error + unit) \<times> db) \<Rightarrow> (go_error + unit) \<times> db" where
  "after rs f = (case rs of (Inl e, s) \<Rightarrow> (Inl e, s) | (Inr _, s) \<Rightarrow> f s)"

definition wrap_err :: "string \<Rightarrow> (go_error + 'a) \<times> 's \<Rightarrow> (go_error + 'a) \<times> 's" where
  "wrap_err m rs = (case rs of (Inl e, s) \<Rightarrow> (Inl (Wrap m e), s) | (Inr v, s) \<Rightarrow> (Inr v, s))"

definition HasSnapshots :: "db \<Rightarrow> (go_error + bool) \<times> db" where
  "HasSnapshots s =
     (case db_query_row (read_row (\<lambda>s. Some (length (user_metrics s)))) s of
        (Inl e, s1) \<Rightarrow> (Inl (Sql e), s1) | (Inr n, s1) \<Rightarrow> (Inr (0 < n), s1))"

section \<open>Revenge flag\<close>

definition reset_flags_stmt :: "db \<Rightarrow> sql_error + db" where
  "reset_flags_stmt s =
     Inr (s\<lparr>trades := map (\<lambda>r. touch (clock s) (r\<lparr>revenge_flag := False\<rparr>)) (trades s)\<rparr>)"

definition losing_exits :: "trade_row list \<Rightarrow> trade_row \<Rightarrow> instant list" where
  "losing_exits rows t =
     List.map_filter exit_at (filter (\<lambda>p. user_id p = user_id t \<and> status p = Closed \<and> outcome p = Some Loss \<and>
       (case exit_at p of None \<Rightarrow> False | Some x \<Rightarrow> x \<le> entry_at t) \<and> trade_id p \<noteq> trade_id t) rows)"

definition revenge_rule :: "trade_row list \<Rightarrow> trade_row \<Rightarrow> bool" where
  "revenge_rule rows t \<longleftrightarrow>
     (let xs = losing_exits rows t
      in xs \<noteq> [] \<and> entry_at t - Max (set xs) \<le> seconds 90 \<and>
         (emotional_state t = Some Anxious \<or> emotional_state t = Some Fearful))"

definition flag_stmt :: "db \<Rightarrow> sql_error + db" where
  "flag_stmt s =
     Inr (s\<lparr>trades := map (\<lambda>r. if revenge_rule (trades s) r then touch (clock s) (r\<lparr>revenge_flag := True\<rparr>) else r)
       (trades s)\<rparr>)"

definition users_of :: "trade_row list \<Rightarrow> uuid list" where
  "users_of rows = remdups (map user_id rows)"

definition count_flags_stmt :: "db \<Rightarrow> sql_error + db" where
  "count_flags_stmt s =
     bind_ok (collect_ok (map (\<lambda>u.
         bind_ok (to_int4 (count_rows (\<lambda>r. user_id r = u \<and> revenge_flag r) (trades s))) (\<lambda>n.
           Inr ((default_user_metrics u (clock s))\<lparr>revenge_trades_count := n\<rparr>))) (users_of (trades s))))
       (\<lambda>news. bind_ok (upsert_rows um_user_id
           (\<lambda>new old. old\<lparr>revenge_trades_count := revenge_trades_count new, um_updated_at := clock s\<rparr>)
           news (user_metrics s))
         (\<lambda>t. Inr (s\<lparr>user_metrics := t\<rparr>)))"

definition backfillRevengeFlag :: "db \<Rightarrow> (go_error + unit) \<times> db" where
  "backfillRevengeFlag s =
     after (wrap_err ''reset flags'' (sql_result (db_exec reset_flags_stmt s))) (\<lambda>s1.
     after (wrap_err ''flag matching trades'' (sql_result (db_exec flag_stmt s1))) (\<lambda>s2.
     sql_result (db_exec count_flags_stmt s2)))"

section \<open>Plan adherence\<close>

text \<open>\<open>ORDER BY exit_at DESC NULLS LAST\<close>\<close>

definition desc_nulls_last :: "('r \<Rightarrow> 'k::linorder option) \<Rightarrow> 'r list \<Rightarrow> 'r list" where
  "desc_nulls_last k rows =
     sort_desc (the \<circ> k) (filter (\<lambda>r. k r \<noteq> None) rows) @ filter (\<lambda>r. k r = None) rows"

definition plan_row :: "uuid \<Rightarrow> int list \<Rightarrow> instant \<Rightarrow> sql_error + user_metrics_row" where
  "plan_row u vs now =
     bind_ok (to_numeric 5 4 (of_int (sum_list vs) / of_nat (length vs))) (\<lambda>avg.
     bind_ok (to_int4 (int (length vs))) (\<lambda>n.
       Inr ((default_user_metrics u now)\<lparr>plan_adherence_score := Some avg, plan_adherence_window := n\<rparr>)))"

definition plan_stmt :: "db \<Rightarrow> sql_error + db" where
  "plan_stmt s =
     bind_ok (collect_ok (map (\<lambda>u.
         plan_row u (map (the \<circ> plan_adherence)
           (take 10 (desc_nulls_last exit_at (filter (rated u) (trades s))))) (clock s))
         (users_of (filter (\<lambda>r. status r = Closed \<and> plan_adherence r \<noteq> None) (trades s)))))
       (\<lambda>news. bind_ok (upsert_rows um_user_id
           (\<lambda>new old. old\<lparr>plan_adherence_score := plan_adherence_score new,
              plan_adherence_window := plan_adherence_window new, um_updated_at := clock s\<rparr>)
           news (user_metrics s))
         (\<lambda>t. Inr (s\<lparr>user_metrics := t\<rparr>)))"

definition backfillPlanAdherence :: "db \<Rightarrow> (go_error + unit) \<times> db" where
  "backfillPlanAdherence s = sql_result (db_exec plan_stmt s)"

section \<open>Win rate by emotion\<close>

definition decided :: "trade_row \<Rightarrow> bool" where
  "decided r \<longleftrightarrow> status r = Closed \<and> emotional_state r \<noteq> None \<and> outcome r \<noteq> None"

definition emotion_group ::
    "trade_row list \<Rightarrow> uuid \<times> emotional_state \<Rightarrow> instant \<Rightarrow> sql_error + emotion_row" where
  "emotion_group rows k now =
     (let grp = filter (\<lambda>r. (user_id r, the (emotional_state r)) = k) rows
      in bind_ok (to_int4 (count_rows (\<lambda>r. outcome r = Some Win) grp)) (\<lambda>w.
         bind_ok (to_int4 (count_rows (\<lambda>r. outcome r = Some Loss) grp)) (\<lambda>l.
           Inr \<lparr>ue_user_id = fst k, ue_emotion = snd k, wins = w, losses = l, ue_updated_at = now\<rparr>)))"

definition emotion_stmt :: "db \<Rightarrow> sql_error + db" where
  "emotion_stmt s =
     (let rows = filter decided (trades s)
      in bind_ok (collect_ok (map (\<lambda>k. emotion_group rows k (clock s))
           (remdups (map (\<lambda>r. (user_id r, the (emotional_state r))) rows))))
         (\<lambda>news. bind_ok (upsert_rows ue_key
             (\<lambda>new old. old\<lparr>wins := wins new, losses := losses new, ue_updated_at := clock s\<rparr>)
             news (user_emotion_metrics s))
           (\<lambda>t. Inr (s\<lparr>user_emotion_metrics := t\<rparr>))))"

definition backfillWinRateByEmotion :: "db \<Rightarrow> (go_error + unit) \<times> db" where
  "backfillWinRateByEmotion s = sql_result (db_exec emotion_stmt s)"

section \<open>Session tilt\<close>

definition all_tilts_stmt :: "db \<Rightarrow> sql_error + db" where
  "all_tilts_stmt s =
     store_tilts (concat (map (\<lambda>sid. tilt_groups sid s)
       (remdups (map session_id (filter (\<lambda>r. status r = Closed) (trades s)))))) s"

definition backfillSessionTilt :: "db \<Rightarrow> (go_error + unit) \<times> db" where
  "backfillSessionTilt s = sql_result (db_exec all_tilts_stmt s)"

section \<open>Overtrading events\<close>

text \<open>The walk over one user's entries in order: the window, and whether a spike is on.\<close>

fun scan_window :: "instant list \<Rightarrow> bool \<Rightarrow> instant list \<Rightarrow> (instant \<times> instant \<times> int) list" where
  "scan_window win inSpike [] = []"
| "scan_window win inSpike (t # ts) =
     (let cutoff = t - minutes 30;
          w = dropWhile (\<lambda>x. x < cutoff) win @ [t];
          n = length w
      in if 10 < n \<and> \<not> inSpike then (hd w, t, int n) # scan_window w True ts
         else if n \<le> 10 then scan_window w False ts
         else scan_window w inSpike ts)"

definition entries :: "db \<Rightarrow> (uuid \<times> instant) list" where
  "entries s = map (\<lambda>r. (user_id r, entry_at r)) (sort_key user_id (sort_key entry_at (trades s)))"

definition per_user :: "(uuid \<times> instant) list \<Rightarrow> uuid \<Rightarrow> instant list" where
  "per_user es u = map snd (filter (\<lambda>e. fst e = u) es)"

text \<open>
  Go ranges over a map in an order of its own: \<open>iter 0\<close> and \<open>iter 1\<close> are the orders of the two
  loops.
\<close>

definition detected ::
    "(uuid list \<Rightarrow> uuid list) \<Rightarrow> (uuid \<times> instant) list \<Rightarrow> (uuid \<times> instant \<times> instant \<times> int) list" where
  "detected iter es =
     concat (map (\<lambda>u. map (\<lambda>(ws, we, n). (u, ws, we, n)) (scan_window [] False (per_user es u)))
       (iter (remdups (map fst es))))"

fun insert_events ::
    "platform \<Rightarrow> (uuid \<times> instant \<times> instant \<times> int) list \<Rightarrow> db \<Rightarrow> (go_error + unit) \<times> db" where
  "insert_events P [] s = (Inr (), s)"
| "insert_events P ((u, ws, we, n) # es) s =
     (case AddOvertradingEvent P u ws we n s of
        (Inl e, s1) \<Rightarrow> (Inl (Wrap ''insert event'' e), s1)
      | (Inr _, s1) \<Rightarrow> insert_events P es s1)"

definition counter_stmt :: "uuid \<Rightarrow> int \<Rightarrow> db \<Rightarrow> sql_error + db" where
  "counter_stmt u c s =
     bind_ok (to_int4 c) (\<lambda>n.
       Inr (um_upsert_stmt u ((default_user_metrics u (clock s))\<lparr>overtrading_events_count := n\<rparr>)
         (\<lambda>r. r\<lparr>overtrading_events_count := n\<rparr>) s))"

fun upsert_counters :: "(uuid \<times> int) list \<Rightarrow> db \<Rightarrow> (go_error + unit) \<times> db" where
  "upsert_counters [] s = (Inr (), s)"
| "upsert_counters ((u, c) # cs) s =
     after (wrap_err ''upsert counter'' (sql_result (db_exec (counter_stmt u c) s))) (upsert_counters cs)"

text \<open>
  \<open>pool.Begin\<close>, the deferred \<open>Rollback\<close> and \<open>Commit\<close>: a body that fails, or a commit
  that does not reach the server, leaves the tables as they were; identifiers drawn and the script
  of faults stay used up.
\<close>

definition rollback :: "db \<Rightarrow> db \<Rightarrow> db" where
  "rollback s0 s = s0\<lparr>draws := draws s, faults := faults s\<rparr>"

definition in_tx :: "(db \<Rightarrow> (go_error + unit) \<times> db) \<Rightarrow> db \<Rightarrow> (go_error + unit) \<times> db" where
  "in_tx body s =
     (case next_fault s of (f, s0) \<Rightarrow>
        if f \<noteq> FOk then (Inl (Sql ConnFail), s0)
        else (case body s0 of
                (Inl e, s1) \<Rightarrow> (Inl e, rollback s0 s1)
              | (Inr _, s1) \<Rightarrow>
                  (case next_fault s1 of (f', s2) \<Rightarrow>
                     (case f' of
                        FOk \<Rightarrow> (Inr (), s2)
                      | FLost \<Rightarrow> (Inl (Sql ConnFail), s2)
                      | _ \<Rightarrow> (Inl (Sql ConnFail), rollback s0 s2)))))"

definition clear_events_stmt :: "db \<Rightarrow> sql_error + db" where
  "clear_events_stmt s = Inr (s\<lparr>overtrading_events := []\<rparr>)"

definition reset_counters_stmt :: "db \<Rightarrow> sql_error + db" where
  "reset_counters_stmt s =
     Inr (s\<lparr>user_metrics := map (\<lambda>r. r\<lparr>overtrading_events_count := 0\<rparr>) (user_metrics s)\<rparr>)"

definition event_counts :: "(uuid \<times> 'x) list \<Rightarrow> (uuid \<times> int) list" where
  "event_counts evs = map (\<lambda>u. (u, count_rows (\<lambda>e. fst e = u) evs)) (remdups (map fst evs))"

definition backfillOvertrading ::
    "platform \<Rightarrow> (nat \<Rightarrow> uuid list \<Rightarrow> uuid list) \<Rightarrow> db \<Rightarrow> (go_error + unit) \<times> db" where
  "backfillOvertrading P iter s =
     (case db_query entries s of
        (Inl e, s1) \<Rightarrow> (Inl (Sql e), s1)
      | (Inr (_, Some e), s1) \<Rightarrow> (Inl (Sql e), s1)
      | (Inr (es, None), s1) \<Rightarrow>
          (let events = detected (iter 0) es;
               cs = event_counts events;
               ordered = map (\<lambda>u. (u, the (map_of cs u))) (iter 1 (map fst cs))
           in in_tx (\<lambda>s.
                after (wrap_err ''clear events'' (sql_result (db_exec clear_events_stmt s))) (\<lambda>s2.
                after (insert_events P events s2) (\<lambda>s3.
                after (wrap_err ''reset counters'' (sql_result (db_exec reset_counters_stmt s3))) (\<lambda>s4.
                upsert_counters ordered s4)))) s1))"

section \<open>All five steps\<close>

definition BackfillFromTrades ::
    "platform \<Rightarrow> (nat \<Rightarrow> uuid list \<Rightarrow> uuid list) \<Rightarrow> db \<Rightarrow> (go_error + unit) \<times> db" where
  "BackfillFromTrades P iter s =
     after (wrap_err ''revenge_flag'' (backfillRevengeFlag s)) (\<lambda>s1.
     after (wrap_err ''plan_adherence'' (backfillPlanAdherence s1)) (\<lambda>s2.
     after (wrap_err ''win_rate_by_emotion'' (backfillWinRateByEmotion s2)) (\<lambda>s3.
     after (wrap_err ''session_tilt'' (backfillSessionTilt s3)) (\<lambda>s4.
     wrap_err ''overtrading'' (backfillOvertrading P iter s4)))))"

end
