(* ===== verification/Metric_Facts.thy ===== *)
theory Metric_Facts imports Backfill begin

text \<open>
  Facts the proofs about the metrics share: upserts of one and of many rows, what the columns of
  \<open>user_metrics\<close> read after each write, and the contract of the counters.
\<close>

section \<open>Rows computed and upserted together\<close>

lemma collect_ok_map: "(\<And>x. x \<in> set xs \<Longrightarrow> f x = Inr (g x)) \<Longrightarrow> collect_ok (map f xs) = Inr (map g xs)"
  by (induction xs) auto

interpretation list_table: keyed_table "tbl_lookup key" "tbl_upsert key" "keeps_key key"
    "\<lambda>t. distinct (map key t)" for key
  by (rule keyed_table_list)

lemma upsert_each_lookup:
  assumes "distinct (map key news)" and "\<And>n r. n \<in> set news \<Longrightarrow> key r = key n \<Longrightarrow> key (merge n r) = key n"
  shows "tbl_lookup key k (upsert_each key merge news t) =
     (case tbl_lookup key k news of None \<Rightarrow> tbl_lookup key k t
      | Some n \<Rightarrow> Some (case tbl_lookup key k t of None \<Rightarrow> n | Some r \<Rightarrow> merge n r))"
  using assms
proof (induction news arbitrary: t)
  case (Cons n ns)
  have fits: "keeps_key key (key n) n (merge n)"
    unfolding keeps_key_def by (intro conjI allI impI refl Cons.prems(2) list.set_intros(1))
  have "key n \<notin> key ` set ns" using Cons.prems(1) by auto
  then have none: "tbl_lookup key (key n) ns = None" by (simp add: tbl_lookup_None_iff)
  have IH: "tbl_lookup key k (upsert_each key merge ns t') =
     (case tbl_lookup key k ns of None \<Rightarrow> tbl_lookup key k t'
      | Some n \<Rightarrow> Some (case tbl_lookup key k t' of None \<Rightarrow> n | Some r \<Rightarrow> merge n r))" for t'
    using Cons.prems(1) by (intro Cons.IH Cons.prems(2) list.set_intros(2)) simp_all
  show ?case
  proof (cases "k = key n")
    case True
    then show ?thesis
      unfolding upsert_each.simps IH by (simp only: none list_table.lookup_same [OF fits]
        tbl_lookup_simps option.case if_True refl)
  next
    case False
    then have "key n \<noteq> k" by simp
    then show ?thesis
      unfolding upsert_each.simps IH list_table.lookup_other [OF fits False]
      by (simp only: tbl_lookup_simps if_False)
  qed
qed simp

lemma upsert_each_distinct:
  assumes "distinct (map key t)" and "\<And>n r. n \<in> set news \<Longrightarrow> key r = key n \<Longrightarrow> key (merge n r) = key n"
  shows "distinct (map key (upsert_each key merge news t))"
  using assms
proof (induction news arbitrary: t)
  case (Cons n ns)
  have fits: "keeps_key key (key n) n (merge n)"
    unfolding keeps_key_def by (intro conjI allI impI refl Cons.prems(2) list.set_intros(1))
  have "distinct (map key (tbl_upsert key (key n) n (merge n) t))"
    using fits Cons.prems(1) by (rule list_table.invar_upsert)
  then have "distinct (map key (upsert_each key merge ns (tbl_upsert key (key n) n (merge n) t)))"
    by (rule Cons.IH) (rule Cons.prems(2), rule list.set_intros(2))
  then show ?case by simp
qed simp

lemma tbl_lookup_map_keys:
  "(\<And>x. key (g x) = x) \<Longrightarrow> tbl_lookup key k (map g xs) = (if k \<in> set xs then Some (g k) else None)"
  by (induction xs) auto

section \<open>Upserts of \<open>user_metrics\<close>\<close>

lemma sql_result_simps [simp]:
  "sql_result (Inl e, s) = (Inl (Sql e), s)" "sql_result (Inr u, s) = (Inr u, s)"
  by (simp_all add: sql_result_def)

lemma default_user_metrics_id [simp]: "um_user_id (default_user_metrics u now) = u"
  by (simp add: default_user_metrics_def)

lemma um_upsert_frame [simp]:
  "trades (um_upsert_stmt u new upd s) = trades s"
  "user_emotion_metrics (um_upsert_stmt u new upd s) = user_emotion_metrics s"
  "session_metrics (um_upsert_stmt u new upd s) = session_metrics s"
  "overtrading_events (um_upsert_stmt u new upd s) = overtrading_events s"
  "clock (um_upsert_stmt u new upd s) = clock s" "draws (um_upsert_stmt u new upd s) = draws s"
  "faults (um_upsert_stmt u new upd s) = faults s"
  by (simp_all add: um_upsert_stmt_def)

lemma um_upsert_lookup:
  assumes "um_user_id new = u" and "\<And>r. um_user_id r = u \<Longrightarrow> um_user_id (upd r) = u"
  shows "tbl_lookup um_user_id u' (user_metrics (um_upsert_stmt u new upd s)) =
     (if u' = u then Some (case tbl_lookup um_user_id u (user_metrics s) of
          None \<Rightarrow> new | Some r \<Rightarrow> (upd r)\<lparr>um_updated_at := clock s\<rparr>)
      else tbl_lookup um_user_id u' (user_metrics s))"
proof -
  have "keeps_key um_user_id u new (\<lambda>r. (upd r)\<lparr>um_updated_at := clock s\<rparr>)"
    using assms by (simp add: keeps_key_def)
  then show ?thesis unfolding um_upsert_stmt_def by (simp add: um_table.lookup_upsert)
qed

text \<open>The statement that stores a score and a window, for a user.\<close>

definition store_score :: "uuid \<Rightarrow> rat \<Rightarrow> int \<Rightarrow> db \<Rightarrow> db" where
  "store_score u sc w s =
     um_upsert_stmt u
       ((default_user_metrics u (clock s))\<lparr>plan_adherence_score := Some sc, plan_adherence_window := w\<rparr>)
       (\<lambda>r. r\<lparr>plan_adherence_score := Some sc, plan_adherence_window := w\<rparr>) s"

definition score_of :: "uuid \<Rightarrow> db \<Rightarrow> rat option \<times> int" where
  "score_of u s = (case tbl_lookup um_user_id u (user_metrics s) of None \<Rightarrow> (None, 0)
     | Some r \<Rightarrow> (plan_adherence_score r, plan_adherence_window r))"

lemma store_score_reads:
  "score_of u' (store_score u sc w s) = (if u' = u then (Some sc, w) else score_of u' s)"
  "revenge_of u' (store_score u sc w s) = revenge_of u' s"
  "overtrading_of u' (store_score u sc w s) = overtrading_of u' s"
  by (simp_all add: score_of_def revenge_of_def overtrading_of_def store_score_def um_upsert_lookup
      default_user_metrics_def split: option.split)

lemma SetPlanAdherenceScore_healthy:
  assumes "faults s = []" and "score_column P f = Inr sc" and "0 \<le> w" and "w < 2 ^ 31"
  shows "SetPlanAdherenceScore P u f w s = (Inr (), store_score u sc w s)"
  using assms by (simp add: SetPlanAdherenceScore_def db_simps to_int4_def store_score_def)


section \<open>Counters\<close>

text \<open>
  A counter the worker bumps: one more for its key, nothing for the others, as long as the column's
  range has room. A sequence of bumps adds, to each key, the number of times it occurs.
\<close>

locale tally =
  fixes bump :: "'k \<Rightarrow> 's \<Rightarrow> ('e + unit) \<times> 's"
    and reading :: "'k \<Rightarrow> 's \<Rightarrow> int"
    and healthy :: "'s \<Rightarrow> bool"
    and limit :: int
  assumes bump_ok: "healthy s \<Longrightarrow> 0 \<le> reading k s \<Longrightarrow> reading k s < limit \<Longrightarrow>
      \<exists>s'. bump k s = (Inr (), s') \<and> healthy s' \<and> reading k s' = reading k s + 1 \<and>
        (\<forall>k'. k' \<noteq> k \<longrightarrow> reading k' s' = reading k' s)"
begin

fun bump_all :: "'k list \<Rightarrow> 's \<Rightarrow> 's" where
  "bump_all [] s = s"
| "bump_all (k # ks) s = bump_all ks (snd (bump k s))"

lemma reading_bump_all:
  assumes "healthy s" and "\<And>k. 0 \<le> reading k s" and "\<And>k. k \<in> set ks \<Longrightarrow> reading k s + int (length ks) \<le> limit"
  shows "reading k (bump_all ks s) = reading k s + int (count_list ks k)"
  using assms
proof (induction ks arbitrary: s)
  case (Cons j js)
  have "reading j s < limit" using Cons.prems(3) [of j] by simp
  then obtain s' where s': "bump j s = (Inr (), s')" "healthy s'" "reading j s' = reading j s + 1"
      "\<And>k'. k' \<noteq> j \<Longrightarrow> reading k' s' = reading k' s"
    using bump_ok [OF Cons.prems(1,2)] by blast
  have "0 \<le> reading k' s'" for k' using s'(3,4) Cons.prems(2) [of k'] by (cases "k' = j") auto
  moreover have "reading k' s' + int (length js) \<le> limit" if "k' \<in> set js" for k'
    using that s'(3,4) Cons.prems(3) [of k'] by (cases "k' = j") auto
  ultimately have "reading k (bump_all js s') = reading k s' + int (count_list js k)"
    using s'(2) by (intro Cons.IH)
  then show ?case using s' by (cases "j = k") auto
qed simp

end

lemma revenge_bump:
  assumes "faults s = []" and "0 \<le> revenge_of u s" and "revenge_of u s < 2 ^ 31 - 1"
  shows "\<exists>s'. IncrementRevengeCount u s = (Inr (), s') \<and> faults s' = [] \<and> clock s' = clock s \<and> draws s' = draws s \<and>
    trades s' = trades s \<and> user_emotion_metrics s' = user_emotion_metrics s \<and>
    session_metrics s' = session_metrics s \<and> overtrading_events s' = overtrading_events s \<and>
    (\<forall>u'. revenge_of u' s' = (if u' = u then revenge_of u s + 1 else revenge_of u' s) \<and>
      overtrading_of u' s' = overtrading_of u' s \<and> score_of u' s' = score_of u' s)"
  using assms
  by (cases "tbl_lookup um_user_id u (user_metrics s)")
     (auto simp: IncrementRevengeCount_def db_simps to_int4_def revenge_of_def overtrading_of_def score_of_def
        um_upsert_lookup default_user_metrics_def split: option.split)

lemma overtrading_bump:
  assumes "faults s = []" and "0 \<le> overtrading_of u s" and "overtrading_of u s < 2 ^ 31 - 1"
  shows "\<exists>s'. IncrementOvertradingCount u s = (Inr (), s') \<and> faults s' = [] \<and> clock s' = clock s \<and> draws s' = draws s \<and>
    trades s' = trades s \<and> user_emotion_metrics s' = user_emotion_metrics s \<and>
    session_metrics s' = session_metrics s \<and> overtrading_events s' = overtrading_events s \<and>
    (\<forall>u'. overtrading_of u' s' = (if u' = u then overtrading_of u s + 1 else overtrading_of u' s) \<and>
      revenge_of u' s' = revenge_of u' s \<and> score_of u' s' = score_of u' s)"
  using assms
  by (cases "tbl_lookup um_user_id u (user_metrics s)")
     (auto simp: IncrementOvertradingCount_def db_simps to_int4_def revenge_of_def overtrading_of_def score_of_def
        um_upsert_lookup default_user_metrics_def split: option.split)

definition emotion_wins :: "uuid \<times> emotional_state \<Rightarrow> db \<Rightarrow> int" where
  "emotion_wins k s = (case tbl_lookup ue_key k (user_emotion_metrics s) of None \<Rightarrow> 0 | Some r \<Rightarrow> wins r)"

definition emotion_losses :: "uuid \<times> emotional_state \<Rightarrow> db \<Rightarrow> int" where
  "emotion_losses k s = (case tbl_lookup ue_key k (user_emotion_metrics s) of None \<Rightarrow> 0 | Some r \<Rightarrow> losses r)"

lemma emotion_bump:
  assumes "faults s = []"
    and "0 \<le> (if won then emotion_wins (u, em) s else emotion_losses (u, em) s)"
    and "(if won then emotion_wins (u, em) s else emotion_losses (u, em) s) < 2 ^ 31 - 1"
  shows "\<exists>s'. UpsertEmotionStat u (emotion_text em) won s = (Inr (), s') \<and> faults s' = [] \<and> clock s' = clock s \<and>
    draws s' = draws s \<and> trades s' = trades s \<and> user_metrics s' = user_metrics s \<and>
    session_metrics s' = session_metrics s \<and> overtrading_events s' = overtrading_events s \<and>
    (\<forall>k. emotion_wins k s' = (if won \<and> k = (u, em) then emotion_wins k s + 1 else emotion_wins k s) \<and>
         emotion_losses k s' = (if \<not> won \<and> k = (u, em) then emotion_losses k s + 1 else emotion_losses k s))"
proof -
  define c where "c = (if won then emotion_wins (u, em) s else emotion_losses (u, em) s) + 1"
  let ?new = "\<lparr>ue_user_id = u, ue_emotion = em, wins = (if won then c else 0),
                 losses = (if won then 0 else c), ue_updated_at = clock s\<rparr>"
  let ?upd = "\<lambda>r. (if won then r\<lparr>wins := c\<rparr> else r\<lparr>losses := c\<rparr>)\<lparr>ue_updated_at := clock s\<rparr>"
  let ?s' = "s\<lparr>user_emotion_metrics := tbl_upsert ue_key (u, em) ?new ?upd (user_emotion_metrics s)\<rparr>"
  have "(case tbl_lookup ue_key (u, em) (user_emotion_metrics s) of
          None \<Rightarrow> Inr 1 | Some r \<Rightarrow> to_int4 ((if won then wins r else losses r) + 1)) = Inr c"
    using assms(2,3)
    by (cases won; cases "tbl_lookup ue_key (u, em) (user_emotion_metrics s)")
       (simp_all add: c_def emotion_wins_def emotion_losses_def to_int4_def)
  then have run: "UpsertEmotionStat u (emotion_text em) won s = (Inr (), ?s')"
    using assms(1) by (simp add: UpsertEmotionStat_def db_simps)
  have fits: "keeps_key ue_key (u, em) ?new ?upd" by (simp add: keeps_key_def)
  have "emotion_wins k ?s' = (if won \<and> k = (u, em) then emotion_wins k s + 1 else emotion_wins k s) \<and>
         emotion_losses k ?s' = (if \<not> won \<and> k = (u, em) then emotion_losses k s + 1 else emotion_losses k s)" for k
    unfolding emotion_wins_def emotion_losses_def
    using ue_table.lookup_upsert [OF fits, of k "user_emotion_metrics s"]
    by (auto simp: c_def emotion_wins_def emotion_losses_def split: option.split)
  with run assms(1) show ?thesis by (intro exI [of _ ?s']) simp
qed

interpretation revenge_tally: tally IncrementRevengeCount revenge_of "\<lambda>s. faults s = []" "2 ^ 31 - 1"
proof
  fix s u assume "faults s = []" "0 \<le> revenge_of u s" "revenge_of u s < 2 ^ 31 - 1"
  from revenge_bump [OF this] show "\<exists>s'. IncrementRevengeCount u s = (Inr (), s') \<and> faults s' = [] \<and>
      revenge_of u s' = revenge_of u s + 1 \<and> (\<forall>k'. k' \<noteq> u \<longrightarrow> revenge_of k' s' = revenge_of k' s)" by force
qed

interpretation overtrading_tally: tally IncrementOvertradingCount overtrading_of "\<lambda>s. faults s = []" "2 ^ 31 - 1"
proof
  fix s u assume "faults s = []" "0 \<le> overtrading_of u s" "overtrading_of u s < 2 ^ 31 - 1"
  from overtrading_bump [OF this] show "\<exists>s'. IncrementOvertradingCount u s = (Inr (), s') \<and> faults s' = [] \<and>
      overtrading_of u s' = overtrading_of u s + 1 \<and> (\<forall>k'. k' \<noteq> u \<longrightarrow> overtrading_of k' s' = overtrading_of k' s)"
    by force
qed

abbreviation bump_emotion :: "bool \<Rightarrow> uuid \<times> emotional_state \<Rightarrow> db \<Rightarrow> (go_error + unit) \<times> db" where
  "bump_emotion won k s \<equiv> UpsertEmotionStat (fst k) (emotion_text (snd k)) won s"

interpretation emo_wins: tally "bump_emotion True" emotion_wins "\<lambda>s. faults s = []" "2 ^ 31 - 1"
  using emotion_bump [where won = True] by unfold_locales force

interpretation emo_losses: tally "bump_emotion False" emotion_losses "\<lambda>s. faults s = []" "2 ^ 31 - 1"
  using emotion_bump [where won = False] by unfold_locales force

end
