(* ===== verification/Plan_Adherence.thy ===== *)
theory Plan_Adherence imports Metric_Facts begin

text \<open>
  The plan adherence score: the double the calculator computes and the four-digit decimal the column
  keeps agree with the exact mean, which trades the window holds, and what a broken stream does.
\<close>

section \<open>Rounding a mean of few ratings\<close>

text \<open>
  \<open>strconv.FormatFloat\<close> with precision -1 prints the shortest decimal that reads back as the same double. Such a
  decimal lies within half a unit in the last place of the double, which for a normal double (53 significant bits,
  a magnitude from \<open>2 powi (- 1022)\<close> below \<open>2 powi 1024\<close>) is at most \<open>2 powi (- 53)\<close> of its magnitude, less than
  \<open>1 / 10 ^ 15\<close> of it. Nothing is promised of subnormal doubles, whose unit in the last place is coarse (the
  smallest is printed as 5e-324), nor of numbers that are no double.
\<close>

definition normal_double :: "rat \<Rightarrow> bool" where
  "normal_double x \<longleftrightarrow> x \<in> range fl \<and> 2 powi (- 1022) \<le> \<bar>x\<bar> \<and> \<bar>x\<bar> < 2 powi 1024"

definition shortest_decimals :: "platform \<Rightarrow> bool" where
  "shortest_decimals P \<longleftrightarrow> (\<forall>x. normal_double x \<longrightarrow> \<bar>float_text P x - x\<bar> \<le> \<bar>x\<bar> / 10 ^ 15)"

lemma normal_fl:
  assumes "1 \<le> q" and "q \<le> 5"
  shows "normal_double (fl q)"
proof -
  have "fl 1 \<le> fl q" "fl q \<le> fl 5" using assms by (intro fl_mono; simp)+
  then have b: "1 \<le> fl q" "fl q \<le> 5" using fl_of_int [of 1] fl_of_int [of 5] by simp_all
  have "(2::rat) powi (- 1022) \<le> 2 powi 0" "(2::rat) powi 3 \<le> 2 powi 1024" by (rule powi2_mono; simp)+
  then show ?thesis using b by (simp add: normal_double_def)
qed

lemma floor_of_int_div:
  assumes "0 < d"
  shows "\<lfloor>of_int a / of_int d :: rat\<rfloor> = a div d"
  by (rule floor_divide_of_int_eq)

lemma floor_near:
  assumes "0 < d" and "a mod d \<noteq> 0" and "\<bar>x - of_int a / of_int d\<bar> < 1 / of_int d"
  shows "\<lfloor>x :: rat\<rfloor> = a div d"
proof -
  have m: "0 < a mod d" "a mod d < d" using assms(1,2) pos_mod_sign [OF assms(1), of a] pos_mod_bound [OF assms(1), of a] by linarith+
  have "(of_int a :: rat) = of_int (d * (a div d) + a mod d)" by (simp only: mult_div_mod_eq)
  also have "\<dots> = of_int d * of_int (a div d) + of_int (a mod d)" by (simp only: of_int_add of_int_mult)
  finally have e: "of_int a / of_int d = of_int (a div d) + (of_int (a mod d) / of_int d :: rat)"
    using assms(1) by (simp add: add_divide_distrib)
  have "of_int (a mod d) \<le> (of_int (d - 1) :: rat)" using m by (simp only: of_int_le_iff)
  then have "(of_int (a mod d) / of_int d :: rat) \<le> of_int (d - 1) / of_int d"
    using assms(1) by (intro divide_right_mono) simp_all
  also have "\<dots> = (1 :: rat) - 1 / of_int d" using assms(1) by (simp add: diff_divide_distrib)
  finally have u: "(of_int (a mod d) / of_int d :: rat) \<le> 1 - 1 / of_int d" .
  have "(1 :: rat) \<le> of_int (a mod d)" using m by simp
  then have l: "(1 :: rat) / of_int d \<le> of_int (a mod d) / of_int d"
    using assms(1) by (intro divide_right_mono) simp_all
  have "of_int (a div d) \<le> x \<and> x < of_int (a div d) + 1"
    using assms(3) unfolding e abs_less_iff using u l by linarith
  then show ?thesis by (simp add: floor_eq_iff)
qed

lemma no_tie:
  assumes "1 \<le> n" and "n \<le> (10::int)"
  shows "(20000 * k + n) mod (2 * n) \<noteq> 0"
proof
  assume "(20000 * k + n) mod (2 * n) = 0"
  then obtain m where m: "20000 * k + n = 2 * n * m" by (auto simp: mod_eq_0_iff_dvd dvd_def)
  then have "2 ^ 5 * (625 * k) = n * (2 * m - 1)" by (simp add: algebra_simps)
  then have "2 ^ 5 dvd n * (2 * m - 1)" by (metis dvd_triv_left)
  moreover have "coprime (2 ^ 5) (2 * m - 1)" by (simp only: coprime_power_left_iff) simp
  ultimately have "2 ^ 5 dvd n" by (simp only: coprime_dvd_mult_left_iff)
  then have "2 ^ 5 \<le> n" using assms(1) by (intro zdvd_imp_le) simp_all
  then show False using assms(2) by simp
qed

lemma numeric_round_pos: "0 \<le> x \<Longrightarrow> numeric_round sc x = of_int \<lfloor>x * 10 ^ sc + 1 / 2\<rfloor> / 10 ^ sc"
  by (simp add: numeric_round_def Let_def)

text \<open>A mean of at most ten integers is never half way between two four-digit decimals, so a small
  error before rounding does not change the result.\<close>

lemma numeric_round_mean:
  assumes n: "1 \<le> n" "n \<le> 10" and k: "0 \<le> k" and x: "0 \<le> x"
    and "\<bar>x - of_int k / of_int n\<bar> \<le> 1 / 10 ^ 6"
  shows "numeric_round 4 x = numeric_round 4 (of_int k / of_int n)"
proof -
  let ?a = "20000 * k + n" and ?d = "2 * n"
  have d: "0 < ?d" using n by simp
  have q: "of_int k / of_int n * 10 ^ 4 + 1 / 2 = (of_int ?a / of_int ?d :: rat)"
    using n by (simp add: field_simps)
  have "\<bar>(x * 10 ^ 4 + 1 / 2) - of_int ?a / of_int ?d\<bar> = \<bar>x - of_int k / of_int n\<bar> * 10 ^ 4"
  proof -
    have "(x * 10 ^ 4 + 1 / 2) - of_int ?a / of_int ?d = (x - of_int k / of_int n) * 10 ^ 4"
      unfolding q [symmetric] by (simp add: left_diff_distrib)
    then show ?thesis by (simp only: abs_mult) simp
  qed
  also have "\<dots> \<le> 1 / 10 ^ 6 * 10 ^ 4" using assms(5) by (intro mult_right_mono) simp_all
  also have "\<dots> = 1 / 100" by simp
  also have "\<dots> < 1 / of_int ?d" using n by (intro divide_strict_left_mono) (simp_all flip: of_int_mult)
  finally have "\<lfloor>x * 10 ^ 4 + 1 / 2\<rfloor> = ?a div ?d"
    by (rule floor_near [OF d no_tie [OF n]])
  moreover have "\<lfloor>of_int k / of_int n * 10 ^ 4 + 1 / 2 :: rat\<rfloor> = ?a div ?d"
    unfolding q by (rule floor_of_int_div [OF d])
  moreover have "0 \<le> (of_int k / of_int n :: rat)" using n k by simp
  ultimately show ?thesis using x by (simp only: numeric_round_pos)
qed

lemma numeric_round_mono: "0 \<le> x \<Longrightarrow> x \<le> y \<Longrightarrow> numeric_round sc x \<le> numeric_round sc y"
  unfolding numeric_round_def Let_def
  by (simp add: divide_right_mono floor_mono mult_right_mono)

lemma mean_bounds:
  fixes vs :: "int list"
  assumes "vs \<noteq> []" and "\<And>v. v \<in> set vs \<Longrightarrow> lo \<le> v \<and> v \<le> hi"
  shows "of_int lo \<le> (of_int (sum_list vs) / of_nat (length vs) :: rat)"
    and "(of_int (sum_list vs) / of_nat (length vs) :: rat) \<le> of_int hi"
proof -
  have "lo * int (length vs) \<le> sum_list vs \<and> sum_list vs \<le> hi * int (length vs)"
    using assms(2)
  proof (induction vs)
    case (Cons v vs)
    then have "lo \<le> v \<and> v \<le> hi" "lo * int (length vs) \<le> sum_list vs \<and> sum_list vs \<le> hi * int (length vs)"
      by auto
    then show ?case by (simp add: algebra_simps)
  qed simp
  then have "of_int (lo * int (length vs)) \<le> (of_int (sum_list vs) :: rat)"
    "(of_int (sum_list vs) :: rat) \<le> of_int (hi * int (length vs))" by (simp_all only: of_int_le_iff)
  then show "of_int lo \<le> (of_int (sum_list vs) / of_nat (length vs) :: rat)"
    "(of_int (sum_list vs) / of_nat (length vs) :: rat) \<le> of_int hi"
    using assms(1) by (simp_all add: pos_le_divide_eq pos_divide_le_eq)
qed

section \<open>The stored score\<close>

definition mean_score :: "int list \<Rightarrow> rat" where
  "mean_score vs = numeric_round 4 (of_int (sum_list vs) / of_nat (length vs))"

lemma mean_score_bounds:
  assumes "vs \<noteq> []" and "\<And>v. v \<in> set vs \<Longrightarrow> 1 \<le> v \<and> v \<le> 5"
  shows "1 \<le> mean_score vs" and "mean_score vs \<le> 5"
proof -
  note b = mean_bounds [OF assms(1), of 1 5]
  have "numeric_round 4 1 \<le> mean_score vs" unfolding mean_score_def
    using b(1) assms(2) by (intro numeric_round_mono) auto
  then show "1 \<le> mean_score vs" by simp
  have "mean_score vs \<le> numeric_round 4 5" unfolding mean_score_def
    using b assms(2) by (intro numeric_round_mono) (auto intro: order_trans [OF zero_le_one])
  then show "mean_score vs \<le> 5" by simp
qed

lemma score_column_mean:
  assumes "shortest_decimals P" and "vs \<noteq> []" and "length vs \<le> 10"
    and r: "\<And>v. v \<in> set vs \<Longrightarrow> 1 \<le> v \<and> v \<le> 5"
  shows "score_column P (f_div (of_exact (of_int (sum_list vs))) (fl (of_int (int (length vs))))) =
           Inr (mean_score vs)"
proof -
  define n where "n = int (length vs)"
  define k where "k = sum_list vs"
  define q where "q = (of_int k / of_int n :: rat)"
  have n: "1 \<le> n" "n \<le> 10" using assms(2,3) by (cases vs; simp add: n_def)+
  have q: "1 \<le> q" "q \<le> 5"
    using mean_bounds(1) [OF assms(2), of 1 5, OF r] mean_bounds(2) [OF assms(2), of 1 5, OF r]
    by (simp_all add: q_def k_def n_def)
  have "of_int n \<le> (of_int k :: rat)" "of_int k \<le> (of_int (5 * n) :: rat)"
    using q n by (simp_all add: q_def pos_le_divide_eq pos_divide_le_eq)
  then have "n \<le> k" "k \<le> 5 * n" by (simp_all only: of_int_le_iff)
  then have k: "0 \<le> k" "k \<le> 50" using n by linarith+
  have pw: "(2::rat) powi 3 = 8" "(2::rat) powi (3 - 53) = 1 / 1125899906842624"
    by (simp_all add: power_int_def power_one_over)
  have "\<bar>q\<bar> \<le> 2 powi 3" using q unfolding pw by linarith
  then have "\<bar>fl q - q\<bar> \<le> 2 powi (3 - 53)" by (rule fl_error_powi) simp
  then have e1: "\<bar>fl q - q\<bar> \<le> 1 / 1125899906842624" unfolding pw .
  have "fl q \<le> fl 5" using q(2) by (rule fl_mono)
  moreover have "0 \<le> fl q" using q by (intro dbl.rnd_nonneg) linarith
  ultimately have f: "\<bar>fl q\<bar> \<le> 5" using fl_of_int [of 5] by simp
  have "\<bar>float_text P (fl q) - fl q\<bar> \<le> \<bar>fl q\<bar> / 10 ^ 15"
    using assms(1) normal_fl [OF q] by (simp only: shortest_decimals_def)
  also have "\<dots> \<le> 5 / 10 ^ 15" using f by (rule divide_right_mono) simp
  finally have "\<bar>float_text P (fl q) - fl q\<bar> \<le> 1 / 10000000" by simp
  with e1 have e: "\<bar>float_text P (fl q) - q\<bar> \<le> 1 / 1000000" unfolding abs_le_iff by linarith
  then have "0 \<le> float_text P (fl q)" using q unfolding abs_le_iff by linarith
  moreover from e have e2: "\<bar>float_text P (fl q) - q\<bar> \<le> 1 / 10 ^ 6" by simp
  ultimately have r: "numeric_round 4 (float_text P (fl q)) = mean_score vs"
    using numeric_round_mean [OF n k(1) _ e2 [unfolded q_def]]
    unfolding mean_score_def q_def k_def n_def by simp
  have b: "\<bar>of_int k\<bar> \<le> (1267650600228229401496703205376::rat)"
    "\<bar>q\<bar> \<le> (1267650600228229401496703205376::rat)" using k q by linarith+
  have "fl (of_int k) = of_int k" "fl (of_int n) = of_int n" using k n by (simp_all add: fl_of_int)
  then have div: "f_div (of_exact (of_int k)) (fl (of_int n)) = Fin (fl q)"
    using of_exact_small [OF b(1)] of_exact_small [OF b(2)] by (simp only: f_div.simps q_def)
  have "1 \<le> mean_score vs" "mean_score vs \<le> 5" using mean_score_bounds [OF assms(2)] assms(4) by blast+
  then show ?thesis
    unfolding n_def [symmetric] k_def [symmetric] div
    by (simp add: score_column_def to_numeric_def r Let_def)
qed

section \<open>The latest ratings\<close>

definition latest :: "uuid \<Rightarrow> db \<Rightarrow> trade_row list" where
  "latest u s = take 10 (sort_desc (sql_key_of \<circ> exit_at) (filter (rated u) (trades s)))"

lemma last_ratings_latest: "last_ratings u s = map (the \<circ> plan_adherence) (latest u s)"
  by (simp add: last_ratings_def latest_def)

lemma latest_spec:
  "mset (latest u s) \<subseteq># mset (filter (rated u) (trades s))"
  "length (latest u s) = min 10 (length (filter (rated u) (trades s)))"
  "r \<in> set (latest u s) \<Longrightarrow> rated u r \<and> r \<in> set (trades s)"
  "mset older = mset (filter (rated u) (trades s)) - mset (latest u s) \<Longrightarrow> r \<in> set (latest u s) \<Longrightarrow>
     r' \<in> set older \<Longrightarrow> sql_key_of (exit_at r') \<le> sql_key_of (exit_at r)"
proof -
  let ?s = "sort_desc (sql_key_of \<circ> exit_at) (filter (rated u) (trades s))"
  have m: "mset (filter (rated u) (trades s)) = mset (take 10 ?s) + mset (drop 10 ?s)"
    by (simp only: mset_sort_desc mset_append [symmetric] append_take_drop_id)
  then show "mset (latest u s) \<subseteq># mset (filter (rated u) (trades s))" by (simp add: latest_def)
  show "length (latest u s) = min 10 (length (filter (rated u) (trades s)))" by (simp add: latest_def)
  show "rated u r \<and> r \<in> set (trades s)" if "r \<in> set (latest u s)"
    using that set_sort_desc [of "sql_key_of \<circ> exit_at" "filter (rated u) (trades s)"]
    by (auto simp: latest_def dest!: in_set_takeD)
  show "sql_key_of (exit_at r') \<le> sql_key_of (exit_at r)"
    if "mset older = mset (filter (rated u) (trades s)) - mset (latest u s)" "r \<in> set (latest u s)" "r' \<in> set older"
  proof -
    have "mset older = mset (drop 10 ?s)" using that(1) m by (simp add: latest_def)
    then have "r' \<in> set (drop 10 ?s)" using that(3) by (metis set_mset_mset)
    then show ?thesis
      using sort_desc_take_drop [of r 10 "sql_key_of \<circ> exit_at" "filter (rated u) (trades s)" r'] that(2)
      by (simp add: latest_def)
  qed
qed

lemma rating_range:
  assumes "trades_ok s" and "v \<in> set (last_ratings u s)"
  shows "1 \<le> v \<and> v \<le> 5"
proof -
  from assms(2) obtain r where r: "r \<in> set (latest u s)" "v = the (plan_adherence r)"
    by (auto simp: last_ratings_latest)
  from latest_spec(3) [OF r(1)] assms(1) have "trade_checks r = None" "plan_adherence r \<noteq> None"
    by (auto simp: trades_ok_def rated_def)
  with r(2) show ?thesis by (auto simp: trade_checks_def split: if_splits)
qed

lemma PlanAdherence_healthy:
  assumes "trades_ok s" and "faults s = []" and "shortest_decimals P"
  shows "PlanAdherence_calc P u s =
     (Inr (), if last_ratings u s = [] then s
              else store_score u (mean_score (last_ratings u s)) (int (length (last_ratings u s))) s)"
proof (cases "last_ratings u s = []")
  case False
  have len: "length (last_ratings u s) \<le> 10" by (simp add: last_ratings_latest latest_spec(2))
  have "SetPlanAdherenceScore P u
      (f_div (of_exact (of_int (sum_list (last_ratings u s)))) (fl (of_int (int (length (last_ratings u s))))))
      (int (length (last_ratings u s))) s =
    (Inr (), store_score u (mean_score (last_ratings u s)) (int (length (last_ratings u s))) s)"
    using len rating_range [OF assms(1), of _ u]
    by (intro SetPlanAdherenceScore_healthy [OF assms(2)] score_column_mean [OF assms(3) False]) auto
  then show ?thesis using False assms(2) by (simp add: PlanAdherence_calc_def db_simps)
qed (simp add: PlanAdherence_calc_def db_simps assms(2))

text \<open>
  The latest ratings up to ties: \<open>ORDER BY exit_at DESC\<close> leaves the order among equal exits open, so a statement
  about the rows of the window speaks of some \<open>n\<close> trades none of the others has left after.
\<close>

definition latest_rated :: "nat \<Rightarrow> uuid \<Rightarrow> db \<Rightarrow> trade_row list \<Rightarrow> bool" where
  "latest_rated n u s ts \<longleftrightarrow> length ts = min n (length (filter (rated u) (trades s))) \<and>
     (\<exists>older. mset ts + mset older = mset (filter (rated u) (trades s)) \<and>
        (\<forall>r \<in> set ts. \<forall>r' \<in> set older. the (exit_at r') \<le> the (exit_at r)))"

lemma latest_rated_take:
  assumes "trades_ok s" and "n \<le> 10"
  shows "latest_rated n u s (take n (latest u s))"
proof -
  let ?s = "sort_desc (sql_key_of \<circ> exit_at) (filter (rated u) (trades s))"
  have t: "take n (latest u s) = take n ?s" using assms(2) by (simp add: latest_def min_def)
  have exits: "\<exists>x. exit_at r = Some x" if "r \<in> set ?s" for r
    using that assms(1) by (auto simp: trades_ok_def rated_def trade_checks_def split: if_splits)
  have "the (exit_at r') \<le> the (exit_at r)" if r: "r \<in> set (take n ?s)" "r' \<in> set (drop n ?s)" for r r'
  proof -
    obtain x y where "exit_at r = Some x" "exit_at r' = Some y"
      using exits [OF in_set_takeD [OF r(1)]] exits [OF in_set_dropD [OF r(2)]] by blast
    then show ?thesis using sort_desc_take_drop [OF r] by simp
  qed
  moreover have "mset (take n ?s) + mset (drop n ?s) = mset (filter (rated u) (trades s))"
    by (simp flip: mset_append)
  ultimately show ?thesis unfolding latest_rated_def t by (intro conjI exI [of _ "drop n ?s"]) auto
qed

lemma PlanAdherence_scored:
  "db_query (last_ratings u) s = (Inr (vs, e), s1) \<Longrightarrow> vs \<noteq> [] \<Longrightarrow> PlanAdherence_calc P u s =
     SetPlanAdherenceScore P u (f_div (of_exact (of_int (sum_list vs))) (fl (of_int (int (length vs))))) (int (length vs)) s1"
  by (simp add: PlanAdherence_calc_def)

section \<open>Properties\<close>

text \<open>
  C12: On a healthy connection the adherence score of a user becomes the mean, at four decimals, of
  the ratings of the (at most ten) closed, rated trades with the latest exits, in spite of the
  detour through a double; it lies between 1 and 5, the window is the number of trades averaged,
  nothing is written when there is none, and the counters, the other users and the other tables
  keep their values.
\<close>

theorem PlanAdherence_score:
  assumes "trades_ok s" and "faults s = []" and "shortest_decimals P"
  shows "\<exists>ts older s'. PlanAdherence_calc P u s = (Inr (), s') \<and>
    mset ts + mset older = mset (filter (rated u) (trades s)) \<and>
    length ts = min 10 (length (filter (rated u) (trades s))) \<and>
    (\<forall>r \<in> set ts. \<forall>r' \<in> set older. the (exit_at r') \<le> the (exit_at r)) \<and>
    (ts = [] \<longrightarrow> s' = s) \<and>
    (ts \<noteq> [] \<longrightarrow> score_of u s' =
       (Some (numeric_round 4 (of_int (\<Sum>r \<leftarrow> ts. the (plan_adherence r)) / of_nat (length ts))), int (length ts)) \<and>
       1 \<le> the (fst (score_of u s')) \<and> the (fst (score_of u s')) \<le> 5) \<and>
    (\<forall>u'. u' \<noteq> u \<longrightarrow> score_of u' s' = score_of u' s) \<and>
    (\<forall>u'. revenge_of u' s' = revenge_of u' s \<and> overtrading_of u' s' = overtrading_of u' s) \<and>
    trades s' = trades s \<and> user_emotion_metrics s' = user_emotion_metrics s \<and>
    session_metrics s' = session_metrics s \<and> overtrading_events s' = overtrading_events s"
proof -
  let ?ts = "latest u s" and ?vs = "last_ratings u s"
  let ?s' = "if ?vs = [] then s else store_score u (mean_score ?vs) (int (length ?vs)) s"
  obtain older where o: "mset older = mset (filter (rated u) (trades s)) - mset ?ts" by (metis ex_mset)
  have m: "mset ?ts + mset older = mset (filter (rated u) (trades s))"
    using latest_spec(1) [of u s] by (simp add: o)
  have closed: "rated u r \<Longrightarrow> r \<in> set (trades s) \<Longrightarrow> exit_at r \<noteq> None" for r
    using assms(1) by (auto simp: trades_ok_def rated_def trade_checks_def split: if_splits)
  have ord: "the (exit_at r') \<le> the (exit_at r)" if r: "r \<in> set ?ts" "r' \<in> set older" for r r'
  proof -
    have "r' \<in># mset (filter (rated u) (trades s))" using r(2) m [symmetric] by simp
    then have "exit_at r' \<noteq> None" using closed by auto
    moreover have "exit_at r \<noteq> None" using latest_spec(3) [OF r(1)] closed by blast
    ultimately show ?thesis using latest_spec(4) [OF o r] by auto
  qed
  have b: "?ts \<noteq> [] \<Longrightarrow> 1 \<le> mean_score ?vs \<and> mean_score ?vs \<le> 5"
    using mean_score_bounds [of ?vs] rating_range [OF assms(1), of _ u] by (auto simp: last_ratings_latest)
  have sum: "sum_list ?vs = (\<Sum>r \<leftarrow> ?ts. the (plan_adherence r))"
    by (simp add: last_ratings_latest comp_def)
  have ratings: "?vs = [] \<longleftrightarrow> ?ts = []" "length ?vs = length ?ts" by (simp_all add: last_ratings_latest)
  have reads: "trades (store_score u sc w s) = trades s"
      "user_emotion_metrics (store_score u sc w s) = user_emotion_metrics s"
      "session_metrics (store_score u sc w s) = session_metrics s"
      "overtrading_events (store_score u sc w s) = overtrading_events s" for sc w
    by (simp_all add: store_score_def)
  show ?thesis
    using m ord b latest_spec(2) [of u s] PlanAdherence_healthy [OF assms, of u]
    by (intro exI3 [of _ ?ts older ?s'])
       (auto simp: sum [symmetric] mean_score_def ratings reads store_score_reads)
qed

text \<open>
  C38: When the connection breaks after \<open>n\<close> of the ratings were read, the calculator notices nothing: on a user with
  rated trades it reports success and stores the mean of the (at most \<open>n\<close>) ratings that arrived, those of trades
  none of the others has left after, with their number as the window.
\<close>

theorem PlanAdherence_broken_stream:
  assumes "trades_ok s" and "faults s = [FCut n]" and "shortest_decimals P"
    and "0 < n" and "filter (rated u) (trades s) \<noteq> []"
  shows "\<exists>ts s'. PlanAdherence_calc P u s = (Inr (), s') \<and> latest_rated (min n 10) u s ts \<and> ts \<noteq> [] \<and>
    score_of u s' = (Some (numeric_round 4 (of_int (\<Sum>r \<leftarrow> ts. the (plan_adherence r)) / of_nat (length ts))), int (length ts)) \<and>
    trades s' = trades s"
proof -
  let ?s = "s\<lparr>faults := []\<rparr>" and ?ts = "take (min n 10) (latest u s)"
  let ?vs = "map (the \<circ> plan_adherence) ?ts"
  have vs: "take n (last_ratings u s) = ?vs" by (simp add: last_ratings_latest latest_def take_map)
  have ne: "?ts \<noteq> []" using assms(4,5) by (simp add: latest_def)
  have len: "length ?vs \<le> 10" by simp
  have "1 \<le> v \<and> v \<le> 5" if "v \<in> set ?vs" for v
    using that rating_range [OF assms(1), of v u] unfolding vs [symmetric] by (blast dest: in_set_takeD)
  then have set: "SetPlanAdherenceScore P u (f_div (of_exact (of_int (sum_list ?vs))) (fl (of_int (int (length ?vs)))))
      (int (length ?vs)) ?s = (Inr (), store_score u (mean_score ?vs) (int (length ?vs)) ?s)"
    using len ne by (intro SetPlanAdherenceScore_healthy score_column_mean [OF assms(3)]) auto
  have query: "db_query (last_ratings u) s = (Inr (?vs, Some ConnFail), ?s)"
    by (simp add: db_query_def next_fault_def assms(2) last_ratings_def flip: vs)
  have nonempty: "?vs \<noteq> []" using ne by (simp only: map_is_Nil_conv not_False_eq_True)
  have run: "PlanAdherence_calc P u s = (Inr (), store_score u (mean_score ?vs) (int (length ?vs)) ?s)"
    unfolding PlanAdherence_scored [OF query nonempty] by (rule set)
  have "score_of u (store_score u (mean_score ?vs) (int (length ?vs)) ?s) = (Some (mean_score ?vs), int (length ?ts))"
    "trades (store_score u (mean_score ?vs) (int (length ?vs)) ?s) = trades s"
    by (simp_all only: store_score_reads) (simp_all add: store_score_def)
  then show ?thesis
    using latest_rated_take [OF assms(1), of "min n 10" u] ne run
    by (intro exI [of _ ?ts] exI [of _ "store_score u (mean_score ?vs) (int (length ?vs)) ?s"])
       (simp add: mean_score_def comp_def)
qed

section \<open>Examples\<close>

lemma ref_shortest: "shortest_decimals ref_platform"
  by (simp add: shortest_decimals_def)

text \<open>Two closed trades of one user, rated 4 and 1.\<close>

definition closed_row :: "nat \<Rightarrow> int \<Rightarrow> instant \<Rightarrow> trade_outcome \<Rightarrow> emotional_state \<Rightarrow> trade_row" where
  "closed_row k rating t oc em =
     \<lparr>trade_id = of_nat k, user_id = 2, trader_name = None, session_id = 3, asset = ''AAPL'',
      asset_class = Equity, direction = Long, entry_price = 100, exit_price = Some 110, quantity = 1,
      entry_at = t, exit_at = Some (t + 1000), status = Closed, outcome = Some oc, pnl = Some 10,
      plan_adherence = Some rating, emotional_state = Some em, entry_rationale = None,
      revenge_flag = False, ground_truth_pathologies = None, created_at = 0, updated_at = 0\<rparr>"

definition two_trades :: db where
  "two_trades = empty_db\<lparr>trades := [closed_row 1 4 1000 Loss Calm, closed_row 2 1 3000 Win Anxious]\<rparr>"

lemma two_trades_ok: "trades_ok two_trades"
  by (simp add: trades_ok_def two_trades_def closed_row_def trade_checks_def)

lemma two_trades_faults [simp]: "faults two_trades = []"
  by (simp add: two_trades_def)

lemma two_trades_ratings: "last_ratings 2 two_trades = [1, 4]"
  by code_simp

theorem PlanAdherence_score_witness:
  "\<exists>s'. PlanAdherence_calc ref_platform 2 two_trades = (Inr (), s') \<and> trades s' = trades two_trades"
  using PlanAdherence_score [OF two_trades_ok two_trades_faults ref_shortest, of 2] by blast

theorem PlanAdherence_broken_stream_witness:
  "\<exists>s'. PlanAdherence_calc ref_platform 2 (two_trades\<lparr>faults := [FCut 1]\<rparr>) = (Inr (), s') \<and>
     score_of 2 s' = (Some 1, 1)"
proof -
  let ?s = "two_trades\<lparr>faults := [FCut 1]\<rparr>"
  let ?a = "closed_row 1 4 1000 Loss Calm" and ?b = "closed_row 2 1 3000 Win Anxious"
  have f: "filter (rated 2) (trades ?s) = [?a, ?b]" by (simp add: two_trades_def rated_def closed_row_def)
  have ok: "trades_ok ?s" using two_trades_ok by (simp add: trades_ok_def)
  have one: "ts = [?b]" if "latest_rated (min 1 10) 2 ?s ts" for ts
  proof -
    from that obtain older where o: "length ts = 1" "mset ts + mset older = {#?a, ?b#}"
      "\<forall>r \<in> set ts. \<forall>r' \<in> set older. the (exit_at r') \<le> the (exit_at r)"
      unfolding latest_rated_def f by auto
    then obtain r where r: "ts = [r]" by (auto simp: length_Suc_conv)
    have "r = ?a \<or> r = ?b" using o(2) unfolding r by (metis add_mset_add_single insert_iff set_mset_add_mset_insert
          union_iff set_mset_empty empty_iff mset.simps)
    moreover have "r \<noteq> ?a"
    proof
      assume "r = ?a"
      then have "mset older = {#?b#}" using o(2) unfolding r by simp
      then have "?b \<in> set older" by (metis in_multiset_in_set set_mset_single singletonI set_mset_mset)
      then show False using o(3) unfolding r \<open>r = ?a\<close> by (auto simp: closed_row_def)
    qed
    ultimately show ?thesis using r by blast
  qed
  have "faults ?s = [FCut 1]" "(0::nat) < 1" "filter (rated 2) (trades ?s) \<noteq> []" unfolding f by simp_all
  from PlanAdherence_broken_stream [OF ok this(1) ref_shortest this(2,3)] one
  obtain s' where s': "PlanAdherence_calc ref_platform 2 ?s = (Inr (), s')"
    "score_of 2 s' = (Some (numeric_round 4 (of_int (\<Sum>r \<leftarrow> [?b]. the (plan_adherence r)) / of_nat (length [?b]))), int (length [?b]))"
    by blast
  then show ?thesis by (simp add: closed_row_def)
qed

end
