(* ===== verification/Revenge.thy ===== *)
theory Revenge imports Plan_Adherence begin

text \<open>
  The revenge flag: when the calculator raises it, what it writes, and its agreement with the bulk
  statement of the backfill.
\<close>

section \<open>The rule\<close>

text \<open>A loss of the user closed within the ninety seconds up to the entry, and a mood that qualifies.\<close>

definition recent_loss :: "uuid \<Rightarrow> trade_row \<Rightarrow> trade_row \<Rightarrow> bool" where
  "recent_loss u t l \<longleftrightarrow> user_id l = u \<and> status l = Closed \<and> outcome l = Some Loss \<and>
     (\<exists>x. exit_at l = Some x \<and> x \<le> entry_at t \<and> entry_at t - x \<le> 90 * 10 ^ 9)"

definition on_tilt :: "trade_row \<Rightarrow> bool" where
  "on_tilt t \<longleftrightarrow> emotional_state t = Some Anxious \<or> emotional_state t = Some Fearful"

definition is_revenge :: "uuid \<Rightarrow> trade_row \<Rightarrow> db \<Rightarrow> bool" where
  "is_revenge u t s \<longleftrightarrow> on_tilt t \<and> (\<exists>l \<in> set (trades s). recent_loss u t l)"

lemma mod_timestamptz: "t mod 1000 = 0 \<Longrightarrow> to_timestamptz t = t"
  by (simp add: to_timestamptz_def minus_mod_eq_div_mult [symmetric])

lemma losing_close_exit: "losing_close u t r \<Longrightarrow> \<exists>x. exit_at r = Some x \<and> x \<le> to_timestamptz t"
  by (auto simp: losing_close_def split: option.splits)

lemma last_loss_None: "last_loss u t s = None \<longleftrightarrow> (\<forall>r \<in> set (trades s). \<not> losing_close u t r)"
  by (auto simp: last_loss_def filter_empty_conv split: list.split)
     (metis (mono_tags) filter_empty_conv list.distinct(1) sort_desc_Nil_iff)

lemma last_loss_Some:
  assumes "last_loss u t s = Some e"
  shows "\<exists>r x. r \<in> set (trades s) \<and> losing_close u t r \<and> exit_at r = Some x \<and> e = Some x \<and>
    (\<forall>r' x'. r' \<in> set (trades s) \<longrightarrow> losing_close u t r' \<longrightarrow> exit_at r' = Some x' \<longrightarrow> x' \<le> x)"
proof -
  from assms obtain r rs where hd: "sort_desc (sql_key_of \<circ> exit_at) (filter (losing_close u t) (trades s)) = r # rs"
    and e: "e = exit_at r" by (auto simp: last_loss_def split: list.splits)
  from sort_desc_hd_mem [OF hd] have r: "r \<in> set (trades s)" "losing_close u t r" by auto
  from losing_close_exit [OF r(2)] obtain x where x: "exit_at r = Some x" by blast
  have "x' \<le> x" if "r' \<in> set (trades s)" "losing_close u t r'" "exit_at r' = Some x'" for r' x'
    using sort_desc_hd_max [OF hd, of r'] that x by simp
  with r x e show ?thesis by blast
qed

lemma time_sub_within:
  assumes "0 \<le> a - b"
  shows "seconds 90 < time_sub a b \<longleftrightarrow> 90 * 10 ^ 9 < a - b"
  using assms by (auto simp: time_sub_def seconds_def)

lemma recent_loss_last:
  assumes "entry_at t mod 1000 = 0"
  shows "(\<exists>l \<in> set (trades s). recent_loss u t l) \<longleftrightarrow>
    (case last_loss u (entry_at t) s of Some (Some x) \<Rightarrow> \<not> seconds 90 < time_sub (entry_at t) x | _ \<Rightarrow> False)"
proof -
  note tt = mod_timestamptz [OF assms]
  have close: "recent_loss u t l \<longleftrightarrow> losing_close u (entry_at t) l \<and> (\<exists>x. exit_at l = Some x \<and> entry_at t - x \<le> 90 * 10 ^ 9)" for l
    by (auto simp: recent_loss_def losing_close_def tt split: option.splits)
  show ?thesis
  proof (cases "last_loss u (entry_at t) s")
    case None
    then have "\<forall>r \<in> set (trades s). \<not> losing_close u (entry_at t) r" by (simp only: last_loss_None)
    with None show ?thesis by (auto simp: close)
  next
    case (Some e)
    from last_loss_Some [OF Some] obtain r x where r: "r \<in> set (trades s)" "losing_close u (entry_at t) r"
        "exit_at r = Some x" "e = Some x"
      and m: "\<And>r' x'. r' \<in> set (trades s) \<Longrightarrow> losing_close u (entry_at t) r' \<Longrightarrow> exit_at r' = Some x' \<Longrightarrow> x' \<le> x"
      by blast
    have "x \<le> entry_at t" using losing_close_exit [OF r(2)] r(3) tt by simp
    then have sub: "seconds 90 < time_sub (entry_at t) x \<longleftrightarrow> 90 * 10 ^ 9 < entry_at t - x"
      by (intro time_sub_within) simp
    have "(\<exists>l \<in> set (trades s). recent_loss u t l) \<longleftrightarrow> entry_at t - x \<le> 90 * 10 ^ 9"
    proof
      assume "\<exists>l \<in> set (trades s). recent_loss u t l"
      then obtain l y where "l \<in> set (trades s)" "losing_close u (entry_at t) l" "exit_at l = Some y"
          "entry_at t - y \<le> 90 * 10 ^ 9" by (auto simp: close)
      with m [of l y] show "entry_at t - x \<le> 90 * 10 ^ 9" by linarith
    next
      assume "entry_at t - x \<le> 90 * 10 ^ 9"
      with r show "\<exists>l \<in> set (trades s). recent_loss u t l" by (auto simp: close)
    qed
    then show ?thesis by (simp add: Some r(4) sub not_less)
  qed
qed

lemma on_tilt_text:
  "(map_option emotion_text (emotional_state t) = None \<or>
    (map_option emotion_text (emotional_state t) \<noteq> Some ''anxious'' \<and>
     map_option emotion_text (emotional_state t) \<noteq> Some ''fearful'')) \<longleftrightarrow> \<not> on_tilt t"
proof (cases "emotional_state t")
  case (Some em)
  then show ?thesis by (cases em) (simp_all add: on_tilt_def)
qed (simp add: on_tilt_def)

text \<open>The state after the flag went up.\<close>

definition flagged :: "uuid \<Rightarrow> db \<Rightarrow> db" where
  "flagged tid s = s\<lparr>trades := map (\<lambda>r. if trade_id r = tid then touch (clock s) (r\<lparr>revenge_flag := True\<rparr>) else r) (trades s)\<rparr>"

lemma SetRevengeFlag_healthy: "faults s = [] \<Longrightarrow> SetRevengeFlag tid True s = (Inr (), flagged tid s)"
  by (simp add: SetRevengeFlag_def db_simps set_flag_stmt_def flagged_def)

lemma RevengeFlag_healthy:
  assumes "trades_ok s" and "faults s = []" and "tbl_lookup trade_id tid (trades s) = Some t"
  shows "RevengeFlag_calc SetRevengeFlag tid u s =
    (if is_revenge u t s then IncrementRevengeCount u (flagged tid s) else (Inr (), s))"
proof -
  have "t \<in> set (trades s)" using tbl_lookup_key [OF assms(3)] by blast
  then have m: "entry_at t mod 1000 = 0" using assms(1) by (simp add: trades_ok_def)
  show ?thesis
  proof (cases "on_tilt t")
    case True
    then show ?thesis
      using assms(2,3) on_tilt_text [of t] recent_loss_last [OF m, of s u]
      by (auto simp: RevengeFlag_calc_def db_simps read_row_def is_revenge_def SetRevengeFlag_healthy
            Let_def split: option.splits)
  next
    case False
    then show ?thesis
      using assms(2,3) on_tilt_text [of t]
      by (simp add: RevengeFlag_calc_def db_simps read_row_def is_revenge_def Let_def)
  qed
qed

lemma flagged_trade:
  "tbl_lookup trade_id k (trades (flagged tid s)) =
     map_option (\<lambda>r. if k = tid then touch (clock s) (r\<lparr>revenge_flag := True\<rparr>) else r) (tbl_lookup trade_id k (trades s))"
proof -
  have "tbl_lookup trade_id k (trades (flagged tid s)) =
     map_option (\<lambda>r. if trade_id r = tid then touch (clock s) (r\<lparr>revenge_flag := True\<rparr>) else r)
       (tbl_lookup trade_id k (trades s))"
    unfolding flagged_def by (simp add: tbl_lookup_map touch_def)
  then show ?thesis by (cases "tbl_lookup trade_id k (trades s)") (auto dest: tbl_lookup_key)
qed

lemma flagged_frame [simp]:
  "faults (flagged tid s) = faults s" "user_metrics (flagged tid s) = user_metrics s"
  "clock (flagged tid s) = clock s" "draws (flagged tid s) = draws s"
  "user_emotion_metrics (flagged tid s) = user_emotion_metrics s"
  "session_metrics (flagged tid s) = session_metrics s" "overtrading_events (flagged tid s) = overtrading_events s"
  "revenge_of u (flagged tid s) = revenge_of u s" "overtrading_of u (flagged tid s) = overtrading_of u s"
  "score_of u (flagged tid s) = score_of u s"
  by (simp_all add: flagged_def revenge_of_def overtrading_of_def score_of_def)

section \<open>The bulk statement of the backfill\<close>

text \<open>
  For a trade that is not itself closed the two rules agree, although one looks for the latest loss with a sorted query
  and a saturating subtraction and the other with a maximum and an interval.
\<close>

lemma revenge_rule_iff:
  assumes "trades_ok s" and "t \<in> set (trades s)" and "status t \<noteq> Closed"
  shows "revenge_rule (trades s) t \<longleftrightarrow> is_revenge (user_id t) t s"
proof -
  let ?xs = "losing_exits (trades s) t"
  have inj: "trade_id l = trade_id t \<Longrightarrow> l \<in> set (trades s) \<Longrightarrow> l = t" for l
    using assms(1,2) unfolding trades_ok_def by (metis inj_on_def distinct_map)
  have xs: "x \<in> set ?xs \<longleftrightarrow> (\<exists>l \<in> set (trades s). user_id l = user_id t \<and> status l = Closed \<and>
      outcome l = Some Loss \<and> exit_at l = Some x \<and> x \<le> entry_at t)" for x
  proof -
    have "trade_id l \<noteq> trade_id t" if "l \<in> set (trades s)" "status l = Closed" for l
      using inj [OF _ that(1)] that(2) assms(3) by blast
    then show ?thesis by (fastforce simp: losing_exits_def in_map_filter)
  qed
  have "(?xs \<noteq> [] \<and> entry_at t - Max (set ?xs) \<le> seconds 90) \<longleftrightarrow> (\<exists>x \<in> set ?xs. entry_at t - x \<le> 90 * 10 ^ 9)"
  proof (cases "?xs = []")
    case False
    have "(\<exists>x \<in> set ?xs. entry_at t - x \<le> 90 * 10 ^ 9) \<longleftrightarrow> entry_at t - 90 * 10 ^ 9 \<le> Max (set ?xs)"
      using False by (subst Max_ge_iff; simp add: algebra_simps)
    then show ?thesis using False by (auto simp: seconds_def)
  qed simp
  moreover have "(\<exists>x \<in> set ?xs. entry_at t - x \<le> 90 * 10 ^ 9) \<longleftrightarrow> (\<exists>l \<in> set (trades s). recent_loss (user_id t) t l)"
    unfolding Bex_def xs recent_loss_def by blast
  ultimately show ?thesis
    unfolding revenge_rule_def Let_def is_revenge_def on_tilt_def by blast
qed

definition reflag :: "instant \<Rightarrow> trade_row list \<Rightarrow> trade_row \<Rightarrow> trade_row" where
  "reflag now rows r = touch now (r\<lparr>revenge_flag := revenge_rule rows r\<rparr>)"

lemma map_filter_map: "List.map_filter f (map g xs) = List.map_filter (f \<circ> g) xs"
  by (induction xs) (simp_all add: List.map_filter_simps split: option.split)

lemma losing_exits_touch:
  "losing_exits (map (\<lambda>r. touch now (r\<lparr>revenge_flag := b\<rparr>)) rows) (touch now (t\<lparr>revenge_flag := b\<rparr>)) = losing_exits rows t"
  by (simp add: losing_exits_def filter_map map_filter_map comp_def touch_def cong: option.case_cong)

lemma revenge_rule_touch:
  "revenge_rule (map (\<lambda>r. touch now (r\<lparr>revenge_flag := b\<rparr>)) rows) (touch now (t\<lparr>revenge_flag := b\<rparr>)) = revenge_rule rows t"
  by (simp add: revenge_rule_def losing_exits_touch) (simp add: touch_def)

lemma count_flags_healthy:
  assumes "length (trades s) < 2 ^ 31"
  shows "\<exists>t. count_flags_stmt s = Inr (s\<lparr>user_metrics := t\<rparr>) \<and> (trades s \<noteq> [] \<longrightarrow> t \<noteq> []) \<and>
    (\<forall>u \<in> user_id ` set (trades s). revenge_of u (s\<lparr>user_metrics := t\<rparr>) = count_rows (\<lambda>r. user_id r = u \<and> revenge_flag r) (trades s))"
proof -
  let ?n = "\<lambda>u. count_rows (\<lambda>r. user_id r = u \<and> revenge_flag r) (trades s)"
  let ?row = "\<lambda>u. (default_user_metrics u (clock s))\<lparr>revenge_trades_count := ?n u\<rparr>"
  let ?merge = "\<lambda>new old. old\<lparr>revenge_trades_count := revenge_trades_count new, um_updated_at := clock s\<rparr>"
  let ?t = "upsert_each um_user_id ?merge (map ?row (users_of (trades s))) (user_metrics s)"
  have "to_int4 (?n u) = Inr (?n u)" for u
  proof -
    have "0 \<le> ?n u" "?n u \<le> int (length (trades s))" by (simp_all add: count_rows_le_length)
    moreover have "int (length (trades s)) < 2 ^ 31" using assms by simp
    ultimately have "- (2 ^ 31) \<le> ?n u \<and> ?n u < 2 ^ 31" by linarith
    then show ?thesis by (simp only: to_int4_def simp_thms if_True)
  qed
  then have c: "collect_ok (map (\<lambda>u. bind_ok (to_int4 (?n u)) (\<lambda>n. Inr ((default_user_metrics u (clock s))\<lparr>revenge_trades_count := n\<rparr>)))
      (users_of (trades s))) = Inr (map ?row (users_of (trades s)))"
    by (intro collect_ok_map) simp
  have id: "um_user_id (?row u) = u" "um_user_id (?merge n r) = um_user_id r" for u n r
    by (simp_all add: default_user_metrics_def)
  have d: "distinct (map um_user_id (map ?row (users_of (trades s))))"
    by (simp add: comp_def default_user_metrics_def users_of_def)
  have stmt: "count_flags_stmt s = Inr (s\<lparr>user_metrics := ?t\<rparr>)"
    using d by (simp add: count_flags_stmt_def c upsert_rows_def)
  have look: "tbl_lookup um_user_id u ?t = Some (case tbl_lookup um_user_id u (user_metrics s) of None \<Rightarrow> ?row u | Some r \<Rightarrow> ?merge (?row u) r)"
    if "u \<in> user_id ` set (trades s)" for u
  proof -
    have "tbl_lookup um_user_id u (map ?row (users_of (trades s))) = Some (?row u)"
      using that by (subst tbl_lookup_map_keys) (auto simp: users_of_def default_user_metrics_def)
    then show ?thesis using id by (subst upsert_each_lookup [OF d]) simp_all
  qed
  have "revenge_of u (s\<lparr>user_metrics := ?t\<rparr>) = ?n u" if "u \<in> user_id ` set (trades s)" for u
    using look [OF that] by (simp add: revenge_of_def split: option.split)
  moreover have "?t \<noteq> []" if "trades s \<noteq> []"
  proof -
    have "user_id (hd (trades s)) \<in> user_id ` set (trades s)" using that by simp
    from look [OF this] show ?thesis by auto
  qed
  ultimately show ?thesis using stmt by blast
qed

lemma backfillRevengeFlag_healthy:
  assumes "faults s = []" and "length (trades s) < 2 ^ 31"
  shows "\<exists>s'. backfillRevengeFlag s = (Inr (), s') \<and> trades s' = map (reflag (clock s) (trades s)) (trades s) \<and>
    (\<forall>u \<in> user_id ` set (trades s). revenge_of u s' = count_rows (\<lambda>r. user_id r = u \<and> revenge_flag r) (trades s'))"
proof -
  define s1 where "s1 = s\<lparr>trades := map (\<lambda>r. touch (clock s) (r\<lparr>revenge_flag := False\<rparr>)) (trades s)\<rparr>"
  define s2 where "s2 = s\<lparr>trades := map (reflag (clock s) (trades s)) (trades s)\<rparr>"
  have r1: "db_exec reset_flags_stmt s = (Inr (), s1)"
    using assms(1) by (simp add: db_simps reset_flags_stmt_def s1_def)
  have "trades s2 = map (\<lambda>r. if revenge_rule (trades s1) r then touch (clock s1) (r\<lparr>revenge_flag := True\<rparr>) else r) (trades s1)"
    by (simp add: s1_def s2_def revenge_rule_touch reflag_def) (simp add: touch_def)
  then have "flag_stmt s1 = Inr s2" by (simp add: flag_stmt_def s1_def s2_def)
  then have r2: "db_exec flag_stmt s1 = (Inr (), s2)" using assms(1) by (simp add: db_simps s1_def)
  have s2: "faults s2 = []" "length (trades s2) < 2 ^ 31" "user_id ` set (trades s2) = user_id ` set (trades s)"
    using assms by (simp_all add: s2_def image_image reflag_def touch_def)
  from count_flags_healthy [OF s2(2)] obtain t where t: "count_flags_stmt s2 = Inr (s2\<lparr>user_metrics := t\<rparr>)"
    "\<forall>u \<in> user_id ` set (trades s2). revenge_of u (s2\<lparr>user_metrics := t\<rparr>) = count_rows (\<lambda>r. user_id r = u \<and> revenge_flag r) (trades s2)"
    by blast
  then have "backfillRevengeFlag s = (Inr (), s2\<lparr>user_metrics := t\<rparr>)"
    using s2(1) by (simp add: backfillRevengeFlag_def r1 r2 after_def wrap_err_def db_simps)
  moreover have "trades (s2\<lparr>user_metrics := t\<rparr>) = map (reflag (clock s) (trades s)) (trades s)" by (simp add: s2_def)
  moreover have "\<forall>u \<in> user_id ` set (trades s). revenge_of u (s2\<lparr>user_metrics := t\<rparr>) =
      count_rows (\<lambda>r. user_id r = u \<and> revenge_flag r) (trades (s2\<lparr>user_metrics := t\<rparr>))"
    using t(2) unfolding s2(3) by simp
  ultimately show ?thesis by blast
qed

section \<open>Properties\<close>

text \<open>
  C10: The calculator raises the flag of an opened trade, and adds one to its user's counter, exactly
  when the trade's mood is anxious or fearful and some losing trade of the user closed within the
  ninety seconds up to the entry; the other trades, users and tables keep their values, and
  otherwise nothing changes at all.
\<close>

theorem RevengeFlag_iff:
  assumes "trades_ok s" and "faults s = []" and "tbl_lookup trade_id tid (trades s) = Some t"
    and "0 \<le> revenge_of u s" and "revenge_of u s < 2 ^ 31 - 1"
  shows "\<exists>s'. RevengeFlag_calc SetRevengeFlag tid u s = (Inr (), s') \<and>
    (if is_revenge u t s
     then tbl_lookup trade_id tid (trades s') = Some (t\<lparr>revenge_flag := True, updated_at := clock s\<rparr>) \<and>
          (\<forall>k. k \<noteq> tid \<longrightarrow> tbl_lookup trade_id k (trades s') = tbl_lookup trade_id k (trades s)) \<and>
          revenge_of u s' = revenge_of u s + 1 \<and>
          (\<forall>u'. u' \<noteq> u \<longrightarrow> revenge_of u' s' = revenge_of u' s) \<and>
          (\<forall>u'. overtrading_of u' s' = overtrading_of u' s \<and> score_of u' s' = score_of u' s) \<and>
          user_emotion_metrics s' = user_emotion_metrics s \<and> session_metrics s' = session_metrics s \<and>
          overtrading_events s' = overtrading_events s
     else s' = s)"
proof (cases "is_revenge u t s")
  case True
  obtain s' where s': "IncrementRevengeCount u (flagged tid s) = (Inr (), s')" "trades s' = trades (flagged tid s)"
      "\<And>u'. revenge_of u' s' = (if u' = u then revenge_of u s + 1 else revenge_of u' s)"
      "\<And>u'. overtrading_of u' s' = overtrading_of u' s" "\<And>u'. score_of u' s' = score_of u' s"
      "user_emotion_metrics s' = user_emotion_metrics s" "session_metrics s' = session_metrics s"
      "overtrading_events s' = overtrading_events s"
    using revenge_bump [of "flagged tid s" u] assms(2,4,5) by auto
  then show ?thesis
    using True RevengeFlag_healthy [OF assms(1-3), of u]
    by (intro exI [of _ s']) (auto simp: flagged_trade assms(3) touch_def option.map_ident)
next
  case False
  then show ?thesis using RevengeFlag_healthy [OF assms(1-3), of u] by auto
qed

text \<open>
  C28: The calculator and the backfill decide alike. On a healthy connection, for a stored trade that is not closed and
  not flagged yet, running the calculator on it and running the bulk backfill of the flags over all trades both succeed,
  and leave the trade with the same flag; the calculator adds one to the counter of the user exactly when the flag went
  up, and the backfill sets the counter of every user with trades to the number of flagged ones.
\<close>

theorem RevengeFlag_backfill_agree:
  assumes "trades_ok s" and "faults s = []" and "t \<in> set (trades s)" and "status t \<noteq> Closed" and "\<not> revenge_flag t"
    and "0 \<le> revenge_of (user_id t) s" and "revenge_of (user_id t) s < 2 ^ 31 - 1" and "length (trades s) < 2 ^ 31"
  shows "\<exists>s1 s2 r1 r2. RevengeFlag_calc SetRevengeFlag (trade_id t) (user_id t) s = (Inr (), s1) \<and>
    backfillRevengeFlag s = (Inr (), s2) \<and>
    tbl_lookup trade_id (trade_id t) (trades s1) = Some r1 \<and> tbl_lookup trade_id (trade_id t) (trades s2) = Some r2 \<and>
    (revenge_flag r1 \<longleftrightarrow> revenge_flag r2) \<and>
    revenge_of (user_id t) s1 = revenge_of (user_id t) s + (if revenge_flag r1 then 1 else 0) \<and>
    (\<forall>u \<in> user_id ` set (trades s). revenge_of u s2 = count_rows (\<lambda>r. user_id r = u \<and> revenge_flag r) (trades s2))"
proof -
  have look: "tbl_lookup trade_id (trade_id t) (trades s) = Some t"
    using assms(1,3) by (simp add: trades_ok_def tbl_lookup_distinct)
  have calc: "\<exists>s1 r1. RevengeFlag_calc SetRevengeFlag (trade_id t) (user_id t) s = (Inr (), s1) \<and>
      tbl_lookup trade_id (trade_id t) (trades s1) = Some r1 \<and> (revenge_flag r1 \<longleftrightarrow> is_revenge (user_id t) t s) \<and>
      revenge_of (user_id t) s1 = revenge_of (user_id t) s + (if revenge_flag r1 then 1 else 0)"
  proof (cases "is_revenge (user_id t) t s")
    case True
    obtain s1 where "IncrementRevengeCount (user_id t) (flagged (trade_id t) s) = (Inr (), s1)"
      "trades s1 = trades (flagged (trade_id t) s)" "revenge_of (user_id t) s1 = revenge_of (user_id t) s + 1"
      using revenge_bump [of "flagged (trade_id t) s" "user_id t"] assms(2,6,7) by auto
    then show ?thesis using True by (simp add: RevengeFlag_healthy [OF assms(1,2) look] flagged_trade look touch_def)
  next
    case False
    then show ?thesis using assms(5) by (simp add: RevengeFlag_healthy [OF assms(1,2) look] look)
  qed
  obtain s2 where s2: "backfillRevengeFlag s = (Inr (), s2)" "trades s2 = map (reflag (clock s) (trades s)) (trades s)"
    "\<forall>u \<in> user_id ` set (trades s). revenge_of u s2 = count_rows (\<lambda>r. user_id r = u \<and> revenge_flag r) (trades s2)"
    using backfillRevengeFlag_healthy [OF assms(2,8)] by blast
  have "tbl_lookup trade_id (trade_id t) (trades s2) = Some (reflag (clock s) (trades s) t)"
    unfolding s2(2) by (subst tbl_lookup_map) (simp_all add: reflag_def touch_def look)
  moreover have "revenge_flag (reflag (clock s) (trades s) t) \<longleftrightarrow> is_revenge (user_id t) t s"
    using revenge_rule_iff [OF assms(1,3,4)] by (simp add: reflag_def touch_def)
  ultimately show ?thesis using calc s2(1,3) by blast
qed

text \<open>A losing close, and an anxious entry a minute later.\<close>

definition revenge_db :: db where
  "revenge_db = empty_db\<lparr>trades := [closed_row 1 4 1000 Loss Calm,
     (closed_row 2 1 (60 * 10 ^ 9) Win Anxious)\<lparr>status := Open, exit_at := None, outcome := None\<rparr>]\<rparr>"

lemma revenge_db_ok: "trades_ok revenge_db" "faults revenge_db = []"
    "tbl_lookup trade_id 2 (trades revenge_db) =
       Some ((closed_row 2 1 (60 * 10 ^ 9) Win Anxious)\<lparr>status := Open, exit_at := None, outcome := None\<rparr>)"
    "revenge_of 2 revenge_db = 0"
    "is_revenge 2 ((closed_row 2 1 (60 * 10 ^ 9) Win Anxious)\<lparr>status := Open, exit_at := None, outcome := None\<rparr>) revenge_db"
  by (simp_all add: trades_ok_def revenge_db_def closed_row_def trade_checks_def revenge_of_def is_revenge_def
      on_tilt_def recent_loss_def)

theorem RevengeFlag_iff_witness:
  "\<exists>s'. RevengeFlag_calc SetRevengeFlag 2 2 revenge_db = (Inr (), s') \<and> revenge_of 2 s' = 1"
  using RevengeFlag_iff [OF revenge_db_ok(1-3), of 2] revenge_db_ok(4,5) by auto

theorem RevengeFlag_backfill_agree_witness:
  "\<exists>s1 s2 r1 r2. RevengeFlag_calc SetRevengeFlag 2 2 revenge_db = (Inr (), s1) \<and> backfillRevengeFlag revenge_db = (Inr (), s2) \<and>
     tbl_lookup trade_id 2 (trades s1) = Some r1 \<and> tbl_lookup trade_id 2 (trades s2) = Some r2 \<and>
     revenge_flag r1 = revenge_flag r2"
proof -
  let ?t = "(closed_row 2 1 (60 * 10 ^ 9) Win Anxious)\<lparr>status := Open, exit_at := None, outcome := None\<rparr>"
  have t: "?t \<in> set (trades revenge_db)" "status ?t \<noteq> Closed" "\<not> revenge_flag ?t" "user_id ?t = 2" "trade_id ?t = 2"
    "length (trades revenge_db) < 2 ^ 31" by (simp_all add: revenge_db_def closed_row_def)
  have "0 \<le> revenge_of (user_id ?t) revenge_db" "revenge_of (user_id ?t) revenge_db < 2 ^ 31 - 1"
    using revenge_db_ok(4) t(4) by simp_all
  from RevengeFlag_backfill_agree [OF revenge_db_ok(1,2) t(1-3) this t(6), unfolded t(4,5)] show ?thesis by blast
qed

end
