(* ===== verification/Overtrading.thy ===== *)
theory Overtrading imports Revenge begin

text \<open>
  Overtrading: when the calculator records an event, and the spacing its deduplication keeps between
  the events of one user; the sliding window of the backfill against its specification.
\<close>

section \<open>The live detector\<close>

text \<open>The state after an event was recorded, before the counter is bumped.\<close>

definition ot_event :: "platform \<Rightarrow> uuid \<Rightarrow> instant \<Rightarrow> db \<Rightarrow> overtrading_row" where
  "ot_event P u t s =
     \<lparr>event_id = new_uuid P (draws s), ot_user_id = u, window_start = to_timestamptz (t - minutes 30),
      window_end = to_timestamptz t, trade_count = opens_in u (t - minutes 30) t s, detected_at = clock s\<rparr>"

definition fresh_ids :: "platform \<Rightarrow> db \<Rightarrow> bool" where
  "fresh_ids P s \<longleftrightarrow> new_uuid P (draws s) \<notin> event_id ` set (overtrading_events s)"

definition triggers :: "uuid \<Rightarrow> instant \<Rightarrow> db \<Rightarrow> bool" where
  "triggers u t s \<longleftrightarrow> 10 < opens_in u (t - minutes 30) t s \<and> events_in u (t - minutes 30) t s = 0"

lemma Overtrading_healthy:
  assumes "faults s = []" and "fresh_ids P s"
    and "0 \<le> overtrading_of u s" and "overtrading_of u s < 2 ^ 31 - 1"
    and "opens_in u (t - minutes 30) t s < 2 ^ 31"
  shows "\<exists>s'. Overtrading_calc P pub u t s q =
      (Inr (), if triggers u t s then s' else s,
       if triggers u t s then
         (case pub of None \<Rightarrow> q | Some f \<Rightarrow> snd (f u (t - minutes 30) t (opens_in u (t - minutes 30) t s) q))
       else q) \<and>
    overtrading_events s' = overtrading_events s @ [ot_event P u t s] \<and> faults s' = [] \<and>
    draws s' = Suc (draws s) \<and> clock s' = clock s \<and> trades s' = trades s \<and>
    user_emotion_metrics s' = user_emotion_metrics s \<and> session_metrics s' = session_metrics s \<and>
    (\<forall>u'. overtrading_of u' s' = (if u' = u then overtrading_of u s + 1 else overtrading_of u' s) \<and>
      revenge_of u' s' = revenge_of u' s \<and> score_of u' s' = score_of u' s)"
proof -
  let ?s1 = "s\<lparr>draws := Suc (draws s), overtrading_events := overtrading_events s @ [ot_event P u t s]\<rparr>"
  have o: "overtrading_of v ?s1 = overtrading_of v s" "revenge_of v ?s1 = revenge_of v s" "score_of v ?s1 = score_of v s" for v
    by (simp_all add: overtrading_of_def revenge_of_def score_of_def)
  obtain s' where s': "IncrementOvertradingCount u ?s1 = (Inr (), s')" "faults s' = []" "clock s' = clock s"
      "draws s' = Suc (draws s)" "trades s' = trades s" "user_emotion_metrics s' = user_emotion_metrics s"
      "session_metrics s' = session_metrics s" "overtrading_events s' = overtrading_events s @ [ot_event P u t s]"
      "\<forall>u'. overtrading_of u' s' = (if u' = u then overtrading_of u s + 1 else overtrading_of u' s) \<and>
        revenge_of u' s' = revenge_of u' s \<and> score_of u' s' = score_of u' s"
    using overtrading_bump [of ?s1 u] assms(1,3,4) by (auto simp: o)
  have nn: "0 \<le> opens_in u (t - minutes 30) t s" "0 \<le> events_in u (t - minutes 30) t s"
    by (simp_all add: opens_in_def events_in_def)
  have ins: "AddOvertradingEvent P u (t - minutes 30) t (opens_in u (t - minutes 30) t s) s = (Inr (), ?s1)"
    using assms(1,2,5) nn
    by (simp add: AddOvertradingEvent_def Let_def db_simps insert_event_stmt_def to_int4_def fresh_ids_def ot_event_def)
  have "Overtrading_calc P pub u t s q =
      (Inr (), if triggers u t s then s' else s,
       if triggers u t s then
         (case pub of None \<Rightarrow> q | Some f \<Rightarrow> snd (f u (t - minutes 30) t (opens_in u (t - minutes 30) t s) q))
       else q)"
    using assms(1) nn(2) ins s'(1)
    by (cases pub) (simp_all add: Overtrading_calc_def Let_def db_simps read_row_def triggers_def)
  with s' show ?thesis by blast
qed

section \<open>Spacing of the events\<close>

definition user_events :: "uuid \<Rightarrow> db \<Rightarrow> instant list" where
  "user_events u s = map window_end (filter (\<lambda>e. ot_user_id e = u) (overtrading_events s))"

definition spaced :: "uuid \<Rightarrow> db \<Rightarrow> bool" where
  "spaced u s \<longleftrightarrow> sorted_wrt (\<lambda>a b. a + minutes 30 < b) (user_events u s)"

lemma to_timestamptz_sub: "to_timestamptz (t - minutes 30) = to_timestamptz t - minutes 30"
proof -
  have "(t + (- 1800000000) * 1000) div 1000 = - 1800000000 + t div 1000"
    by (rule div_mult_self1) simp
  then show ?thesis by (simp add: to_timestamptz_def minutes_def)
qed

lemma events_in_0_iff:
  "events_in u (t - minutes 30) t s = 0 \<longleftrightarrow>
   (\<forall>x \<in> set (user_events u s). x \<le> to_timestamptz t \<longrightarrow> x + minutes 30 < to_timestamptz t)"
  unfolding events_in_def user_events_def count_rows_eq_0_iff to_timestamptz_sub by (auto simp: not_le algebra_simps)

lemma user_events_append:
  "overtrading_events s' = overtrading_events s @ [e] \<Longrightarrow>
   user_events u s' = user_events u s @ (if ot_user_id e = u then [window_end e] else [])"
  by (simp add: user_events_def)

section \<open>The sliding window of the backfill\<close>

text \<open>The entries of the half hour up to the one at position \<open>i\<close>, in order.\<close>

definition window_at :: "instant list \<Rightarrow> nat \<Rightarrow> instant list" where
  "window_at ts i = filter (\<lambda>x. ts ! i - minutes 30 \<le> x) (take (Suc i) ts)"

definition spike_starts :: "instant list \<Rightarrow> nat \<Rightarrow> bool" where
  "spike_starts ts i \<longleftrightarrow> 10 < length (window_at ts i) \<and> (i = 0 \<or> length (window_at ts (i - 1)) \<le> 10)"

lemma sorted_dropWhile_filter:
  "sorted ts \<Longrightarrow> dropWhile (\<lambda>x. x < c) ts = filter (\<lambda>x. c \<le> x) ts" for c :: int
proof (induction ts)
  case (Cons t ts)
  show ?case
  proof (cases "t < c")
    case False
    then have "filter (\<lambda>x. c \<le> x) ts = ts" using Cons.prems by (auto simp: filter_id_conv)
    with False show ?thesis by simp
  qed (use Cons in simp)
qed simp

lemma window_step:
  assumes "sorted ts" and "k < length ts"
  shows "dropWhile (\<lambda>x. x < ts ! k - minutes 30) (if k = 0 then [] else window_at ts (k - 1)) @ [ts ! k] = window_at ts k"
proof (cases k)
  case 0
  then show ?thesis using assms(2) by (cases ts) (simp_all add: window_at_def minutes_def)
next
  case (Suc j)
  have le: "ts ! j \<le> ts ! k" using assms Suc by (intro sorted_nth_mono) simp_all
  have "sorted (window_at ts j)" using assms(1) by (simp add: window_at_def sorted_wrt_take sorted_wrt_filter)
  then have "dropWhile (\<lambda>x. x < ts ! k - minutes 30) (window_at ts j) = filter (\<lambda>x. ts ! k - minutes 30 \<le> x) (window_at ts j)"
    by (rule sorted_dropWhile_filter)
  also have "\<dots> = filter (\<lambda>x. ts ! k - minutes 30 \<le> x) (take k ts)"
    using le Suc by (auto simp: window_at_def filter_filter intro!: filter_cong)
  finally show ?thesis
    using assms(2) Suc by (simp add: window_at_def take_Suc_conv_app_nth minutes_def)
qed

lemma scan_from:
  assumes "sorted ts" and "k \<le> length ts"
  defines "W \<equiv> \<lambda>k. if k = 0 then [] else window_at ts (k - 1)"
  shows "scan_window (W k) (10 < length (W k)) (drop k ts) =
    map (\<lambda>i. (hd (window_at ts i), ts ! i, int (length (window_at ts i)))) (filter (spike_starts ts) [k..<length ts])"
  using assms(2)
proof (induction rule: inc_induct)
  case (step k)
  have w: "dropWhile (\<lambda>x. x < ts ! k - minutes 30) (W k) @ [ts ! k] = W (Suc k)" "W (Suc k) = window_at ts k"
    using window_step [OF assms(1) step.hyps(2)] by (simp_all add: W_def)
  have s: "spike_starts ts k \<longleftrightarrow> 10 < length (W (Suc k)) \<and> length (W k) \<le> 10"
    by (auto simp: spike_starts_def W_def)
  have d: "drop k ts = ts ! k # drop (Suc k) ts" using step.hyps(2) by (rule Cons_nth_drop_Suc [symmetric])
  have u: "[k..<length ts] = k # [Suc k..<length ts]" using step.hyps(2) by (rule upt_conv_Cons)
  show ?case
    unfolding d u scan_window.simps Let_def w(1)
    using step.IH s by (auto simp: w(2) not_less)
qed simp

section \<open>The events the backfill stores\<close>

lemma sort_key_same: "(\<And>x. x \<in> set xs \<Longrightarrow> f x = c) \<Longrightarrow> sort_key f xs = xs"
  by (induction xs) (simp_all add: insort_is_Cons)

lemma per_user_entries:
  "per_user (entries s) u = sort (map entry_at (filter (\<lambda>r. user_id r = u) (trades s)))"
proof -
  let ?f = "filter (\<lambda>r. user_id r = u)"
  have "per_user (entries s) u = map entry_at (?f (sort_key user_id (sort_key entry_at (trades s))))"
    by (simp add: per_user_def entries_def filter_map comp_def)
  also have "?f (sort_key user_id (sort_key entry_at (trades s))) = sort_key user_id (?f (sort_key entry_at (trades s)))"
    by (simp only: filter_sort)
  also have "\<dots> = ?f (sort_key entry_at (trades s))" by (rule sort_key_same [where c = u]) simp
  also have "\<dots> = sort_key entry_at (?f (trades s))" by (simp only: filter_sort)
  also have "map entry_at \<dots> = sort (map entry_at (?f (trades s)))"
    by (rule sym, rule properties_for_sort) simp_all
  finally show ?thesis .
qed

lemma entries_users: "set (map fst (entries s)) = set (map user_id (trades s))"
  by (simp add: entries_def image_image)

text \<open>The spikes of a user: each with its window's first entry, its own entry and its count.\<close>

definition spikes :: "uuid \<Rightarrow> db \<Rightarrow> (instant \<times> instant \<times> int) list" where
  "spikes u s = scan_window [] False (sort (map entry_at (filter (\<lambda>r. user_id r = u) (trades s))))"

lemma spikes_absent: "u \<notin> set (map user_id (trades s)) \<Longrightarrow> spikes u s = []"
proof -
  assume "u \<notin> set (map user_id (trades s))"
  then have "filter (\<lambda>r. user_id r = u) (trades s) = []" by (auto simp: filter_empty_conv)
  then show ?thesis by (simp add: spikes_def)
qed

lemma filter_concat_one:
  assumes "distinct us" and "\<And>v x. x \<in> set (f v) \<Longrightarrow> fst x = v"
  shows "filter (\<lambda>x. fst x = u) (concat (map f us)) = (if u \<in> set us then f u else [])"
  using assms(1)
proof (induction us)
  case (Cons v vs)
  have "filter (\<lambda>x. fst x = u) (f v) = (if v = u then f v else [])"
    using assms(2) by (auto simp: filter_id_conv filter_empty_conv)
  with Cons show ?case by auto
qed simp

definition permutes_lists :: "(nat \<Rightarrow> uuid list \<Rightarrow> uuid list) \<Rightarrow> bool" where
  "permutes_lists iter \<longleftrightarrow> (\<forall>k us. mset (iter k us) = mset us)"

lemma permutes_lists_set:
  assumes "permutes_lists iter"
  shows "set (iter k us) = set us" "distinct (iter k us) = distinct us"
  using assms by (metis permutes_lists_def set_mset_mset, metis permutes_lists_def distinct_count_atmost_1 mset_eq_imp_distinct_iff)

lemma detected_user:
  assumes "permutes_lists iter"
  shows "filter (\<lambda>e. fst e = u) (detected (iter 0) (entries s)) = map (\<lambda>(ws, we, n). (u, ws, we, n)) (spikes u s)"
proof -
  have "distinct (iter 0 (remdups (map fst (entries s))))" using permutes_lists_set(2) [OF assms] by simp
  then have "filter (\<lambda>e. fst e = u) (detected (iter 0) (entries s)) =
      (if u \<in> set (map user_id (trades s)) then map (\<lambda>(ws, we, n). (u, ws, we, n)) (spikes u s) else [])"
    unfolding detected_def
    by (subst filter_concat_one)
       (auto simp: per_user_entries spikes_def permutes_lists_set(1) [OF assms] entries_users [simplified])
  then show ?thesis using spikes_absent [of u s] by (cases "u \<in> set (map user_id (trades s))") simp_all
qed

text \<open>Inserting the events: the table grows by their rows, under fresh identifiers.\<close>

definition event_rows :: "platform \<Rightarrow> (uuid \<times> instant \<times> instant \<times> int) list \<Rightarrow> nat \<Rightarrow> instant \<Rightarrow> overtrading_row list" where
  "event_rows P evs d now = map (\<lambda>(k, u, ws, we, n).
     \<lparr>event_id = new_uuid P k, ot_user_id = u, window_start = to_timestamptz ws,
      window_end = to_timestamptz we, trade_count = n, detected_at = now\<rparr>) (zip [d..<d + length evs] evs)"

lemma event_rows_Cons:
  "event_rows P (e # evs) d now = event_rows P [e] d now @ event_rows P evs (Suc d) now"
proof -
  have "[d..<d + length (e # evs)] = d # [Suc d..<Suc d + length evs]"
    by (simp add: upt_conv_Cons del: upt_Suc)
  moreover have "[d..<d + length [e]] = [d]" by simp
  ultimately show ?thesis unfolding event_rows_def by (simp del: upt_Suc)
qed

lemma insert_events_healthy:
  assumes "faults s = []" and "\<forall>e \<in> set evs. 0 \<le> snd (snd (snd e)) \<and> snd (snd (snd e)) < 2 ^ 31"
    and "event_id ` set (overtrading_events s) \<subseteq> new_uuid P ` {d..<draws s}"
    and "inj_on (new_uuid P) {d..<draws s + length evs}" and "d \<le> draws s"
  shows "insert_events P evs s = (Inr (), s\<lparr>draws := draws s + length evs,
     overtrading_events := overtrading_events s @ event_rows P evs (draws s) (clock s)\<rparr>)"
  using assms
proof (induction evs arbitrary: s)
  case (Cons e evs)
  obtain u ws we n where e: "e = (u, ws, we, n)" by (cases e)
  let ?s1 = "s\<lparr>draws := Suc (draws s), overtrading_events := overtrading_events s @ event_rows P [e] (draws s) (clock s)\<rparr>"
  have "new_uuid P (draws s) \<notin> event_id ` set (overtrading_events s)"
    using Cons.prems(3-5) by (auto dest!: subsetD inj_onD)
  then have "AddOvertradingEvent P u ws we n s = (Inr (), ?s1)"
    using Cons.prems(1,2) by (simp add: e AddOvertradingEvent_def Let_def db_simps insert_event_stmt_def to_int4_def event_rows_def)
  moreover have "insert_events P evs ?s1 = (Inr (), ?s1\<lparr>draws := draws ?s1 + length evs,
     overtrading_events := overtrading_events ?s1 @ event_rows P evs (draws ?s1) (clock ?s1)\<rparr>)"
  proof (rule Cons.IH)
    show "event_id ` set (overtrading_events ?s1) \<subseteq> new_uuid P ` {d..<draws ?s1}"
      using Cons.prems(3,5) by (auto simp: event_rows_def e)
  qed (use Cons.prems in auto)
  ultimately show ?case using event_rows_Cons [of P e evs "draws s" "clock s"] by (simp add: e)
qed (simp add: event_rows_def)

lemma scan_all:
  "sorted ts \<Longrightarrow> scan_window [] False ts =
    map (\<lambda>i. (hd (window_at ts i), ts ! i, int (length (window_at ts i)))) (filter (spike_starts ts) [0..<length ts])"
  using scan_from [of ts 0] by simp

lemma spikes_small:
  "(ws, we, n) \<in> set (spikes u s) \<Longrightarrow> 0 \<le> n \<and> n \<le> int (length (trades s))"
  "length (spikes u s) \<le> length (trades s)"
proof -
  let ?ts = "sort (map entry_at (filter (\<lambda>r. user_id r = u) (trades s)))"
  have len: "length ?ts \<le> length (trades s)" by simp
  have "length (window_at ?ts i) \<le> length ?ts" for i
    unfolding window_at_def by (rule order_trans [OF length_filter_le]) simp
  then have w: "length (window_at ?ts i) \<le> length (trades s)" for i
    using len by (rule order_trans)
  show "0 \<le> n \<and> n \<le> int (length (trades s))" if "(ws, we, n) \<in> set (spikes u s)"
    using that w unfolding spikes_def by (auto simp: scan_all)
  show "length (spikes u s) \<le> length (trades s)"
    unfolding spikes_def scan_all [OF sorted_sort] length_map
    by (rule order_trans [OF length_filter_le]) (use len in simp)
qed

lemma upsert_counters_healthy:
  assumes "faults s = []" and "distinct (map fst cs)" and "\<forall>c \<in> set cs. 0 \<le> snd c \<and> snd c < 2 ^ 31"
  shows "\<exists>s'. upsert_counters cs s = (Inr (), s') \<and> faults s' = [] \<and> draws s' = draws s \<and> clock s' = clock s \<and>
    trades s' = trades s \<and> user_emotion_metrics s' = user_emotion_metrics s \<and> session_metrics s' = session_metrics s \<and>
    overtrading_events s' = overtrading_events s \<and>
    (\<forall>u. overtrading_of u s' = (case map_of cs u of None \<Rightarrow> overtrading_of u s | Some c \<Rightarrow> c) \<and>
         revenge_of u s' = revenge_of u s \<and> score_of u s' = score_of u s)"
  using assms
proof (induction cs arbitrary: s)
  case (Cons uc cs)
  obtain u c where uc: "uc = (u, c)" by (cases uc)
  let ?s1 = "um_upsert_stmt u ((default_user_metrics u (clock s))\<lparr>overtrading_events_count := c\<rparr>)
         (\<lambda>r. r\<lparr>overtrading_events_count := c\<rparr>) s"
  have st: "counter_stmt u c s = Inr ?s1" using Cons.prems(3) by (simp add: counter_stmt_def to_int4_def uc)
  have rd: "overtrading_of v ?s1 = (if v = u then c else overtrading_of v s) \<and> revenge_of v ?s1 = revenge_of v s \<and>
      score_of v ?s1 = score_of v s" for v
    by (simp add: overtrading_of_def revenge_of_def score_of_def um_upsert_lookup default_user_metrics_def split: option.split)
  from Cons.IH [of ?s1] Cons.prems obtain s' where s': "upsert_counters cs ?s1 = (Inr (), s')" "faults s' = []"
      "draws s' = draws s" "clock s' = clock s" "trades s' = trades s" "user_emotion_metrics s' = user_emotion_metrics s"
      "session_metrics s' = session_metrics s" "overtrading_events s' = overtrading_events s"
      "\<forall>v. overtrading_of v s' = (case map_of cs v of None \<Rightarrow> overtrading_of v ?s1 | Some c \<Rightarrow> c) \<and>
         revenge_of v s' = revenge_of v ?s1 \<and> score_of v s' = score_of v ?s1"
    by auto
  moreover have "map_of cs u = None" using Cons.prems(2) by (simp add: uc map_of_eq_None_iff)
  ultimately show ?case
    using Cons.prems(1) rd
    by (intro exI [of _ s']) (auto simp: uc db_simps st after_def wrap_err_def split: option.split)
qed (simp)

lemma map_of_counts:
  "map_of (event_counts evs) u = (if u \<in> fst ` set evs then Some (count_rows (\<lambda>e. fst e = u) evs) else None)"
proof -
  have "map_of (map (\<lambda>v. (v, f v)) us) u = (if u \<in> set us then Some (f u) else None)" for us and f :: "uuid \<Rightarrow> int"
    by (induction us) auto
  then show ?thesis by (simp add: event_counts_def)
qed

lemma event_rows_user:
  "map (\<lambda>e. (window_start e, window_end e, trade_count e)) (filter (\<lambda>e. ot_user_id e = u) (event_rows P evs d now)) =
   map (\<lambda>(_, ws, we, n). (to_timestamptz ws, to_timestamptz we, n)) (filter (\<lambda>e. fst e = u) evs)"
proof (induction evs arbitrary: d)
  case (Cons e evs)
  then show ?case
    unfolding event_rows_Cons [of P e evs] by (cases e) (simp add: event_rows_def [of P "[_]"])
qed (simp add: event_rows_def)

lemma after_simps [simp]:
  "after (Inl e, s) f = (Inl e, s)" "after (Inr u, s) f = f s"
  by (simp_all add: after_def)

lemma wrap_err_simps [simp]:
  "wrap_err m (Inl e, s) = (Inl (Wrap m e), s)" "wrap_err m (Inr v, s) = (Inr v, s)"
  by (simp_all add: wrap_err_def)

lemma in_tx_healthy:
  "faults s = [] \<Longrightarrow> body s = (Inr (), s1) \<Longrightarrow> faults s1 = [] \<Longrightarrow> in_tx body s = (Inr (), s1)"
  by (simp add: in_tx_def next_fault_def)

lemma reset_counters_reads:
  fixes s
  defines "s' \<equiv> s\<lparr>user_metrics := map (\<lambda>r. r\<lparr>overtrading_events_count := 0\<rparr>) (user_metrics s)\<rparr>"
  shows "overtrading_of u s' = 0" "revenge_of u s' = revenge_of u s" "score_of u s' = score_of u s"
  unfolding s'_def overtrading_of_def revenge_of_def score_of_def
  by (simp_all add: tbl_lookup_map split: option.split)

lemma detected_small:
  assumes "permutes_lists iter" and "e \<in> set (detected (iter 0) (entries s))"
  shows "0 \<le> snd (snd (snd e)) \<and> snd (snd (snd e)) \<le> int (length (trades s))"
proof -
  have "e \<in> set (filter (\<lambda>e'. fst e' = fst e) (detected (iter 0) (entries s)))" using assms(2) by simp
  then obtain ws we n where "(ws, we, n) \<in> set (spikes (fst e) s)" "e = (fst e, ws, we, n)"
    unfolding detected_user [OF assms(1)] by auto
  then show ?thesis using spikes_small(1) by (metis snd_conv)
qed

lemma backfillOvertrading_healthy:
  assumes "faults s = []" and "permutes_lists iter" and "length (trades s) < 2 ^ 31"
    and "inj_on (new_uuid P) {draws s..<draws s + length (detected (iter 0) (entries s))}"
  shows "\<exists>s'. backfillOvertrading P iter s = (Inr (), s') \<and> faults s' = [] \<and> clock s' = clock s \<and> trades s' = trades s \<and>
    user_emotion_metrics s' = user_emotion_metrics s \<and> session_metrics s' = session_metrics s \<and>
    draws s' = draws s + length (detected (iter 0) (entries s)) \<and>
    (\<forall>u. map (\<lambda>e. (window_start e, window_end e, trade_count e)) (filter (\<lambda>e. ot_user_id e = u) (overtrading_events s')) =
           map (\<lambda>(ws, we, n). (to_timestamptz ws, to_timestamptz we, n)) (spikes u s) \<and>
         overtrading_of u s' = int (length (spikes u s)) \<and>
         revenge_of u s' = revenge_of u s \<and> score_of u s' = score_of u s)"
proof -
  let ?evs = "detected (iter 0) (entries s)"
  let ?cs = "event_counts ?evs"
  let ?ord = "map (\<lambda>u. (u, the (map_of ?cs u))) (iter 1 (map fst ?cs))"
  let ?s2 = "s\<lparr>overtrading_events := []\<rparr>"
  let ?s3 = "?s2\<lparr>draws := draws s + length ?evs, overtrading_events := event_rows P ?evs (draws s) (clock s)\<rparr>"
  let ?s4 = "?s3\<lparr>user_metrics := map (\<lambda>r. r\<lparr>overtrading_events_count := 0\<rparr>) (user_metrics s)\<rparr>"
  have small: "\<forall>e \<in> set ?evs. 0 \<le> snd (snd (snd e)) \<and> snd (snd (snd e)) < 2 ^ 31"
    using detected_small [OF assms(2), of _ s] assms(3) by fastforce
  have ins: "insert_events P ?evs ?s2 = (Inr (), ?s3)"
    using insert_events_healthy [of ?s2 ?evs P "draws s"] small assms(1,4) by simp
  have user: "filter (\<lambda>e. fst e = u) ?evs = map (\<lambda>(ws, we, n). (u, ws, we, n)) (spikes u s)" for u
    by (rule detected_user [OF assms(2)])
  have cnt: "count_rows (\<lambda>e. fst e = u) ?evs = int (length (spikes u s))" for u
    using user [of u] by (simp add: count_rows_def)
  have fsts: "map fst ?cs = remdups (map fst ?evs)" by (simp add: event_counts_def comp_def)
  have ord: "distinct (map fst ?ord)" "map_of ?ord u = map_of ?cs u" for u
  proof -
    have d: "distinct (iter 1 (map fst ?cs))" "set (iter 1 (map fst ?cs)) = fst ` set ?evs"
      using permutes_lists_set [OF assms(2)] by (simp_all add: fsts)
    then show "distinct (map fst ?ord)" by (simp add: comp_def)
    have "map_of (map (\<lambda>v. (v, g v)) us) u = (if u \<in> set us then Some (g u) else None)" for us and g :: "uuid \<Rightarrow> int"
      by (induction us) auto
    then show "map_of ?ord u = map_of ?cs u" using d(2) by (simp add: map_of_counts)
  qed
  have "0 \<le> snd c \<and> snd c < 2 ^ 31" if "c \<in> set ?ord" for c
  proof -
    from that obtain u where "c = (u, the (map_of ?cs u))" "u \<in> fst ` set ?evs"
      using permutes_lists_set(1) [OF assms(2)] by (auto simp: fsts)
    then show ?thesis using spikes_small(2) [of u s] assms(3) by (auto simp: map_of_counts cnt)
  qed
  then obtain s' where s': "upsert_counters ?ord ?s4 = (Inr (), s')" "faults s' = []" "clock s' = clock s"
      "trades s' = trades s" "user_emotion_metrics s' = user_emotion_metrics s" "session_metrics s' = session_metrics s"
      "draws s' = draws s + length ?evs" "overtrading_events s' = event_rows P ?evs (draws s) (clock s)"
      "\<forall>u. overtrading_of u s' = (case map_of ?ord u of None \<Rightarrow> overtrading_of u ?s4 | Some c \<Rightarrow> c) \<and>
         revenge_of u s' = revenge_of u ?s4 \<and> score_of u s' = score_of u ?s4"
    using upsert_counters_healthy [of ?s4 ?ord] ord(1) assms(1) by auto
  have z: "overtrading_of u ?s4 = 0" for u
    using reset_counters_reads(1) [of u ?s3] by simp
  have ov: "overtrading_of u s' = (case map_of ?cs u of None \<Rightarrow> 0 | Some c \<Rightarrow> c)" for u
    unfolding conjunct1 [OF spec [OF s'(9), of u]] ord(2) z ..
  have "overtrading_of u s' = int (length (spikes u s))" for u
  proof (cases "u \<in> fst ` set ?evs")
    case True
    then show ?thesis unfolding ov map_of_counts cnt by simp
  next
    case False
    then have "filter (\<lambda>e. fst e = u) ?evs = []" by (auto simp: filter_empty_conv)
    then have "spikes u s = []" unfolding user by simp
    with False show ?thesis unfolding ov map_of_counts by simp
  qed
  moreover have "map (\<lambda>e. (window_start e, window_end e, trade_count e)) (filter (\<lambda>e. ot_user_id e = u) (overtrading_events s')) =
           map (\<lambda>(ws, we, n). (to_timestamptz ws, to_timestamptz we, n)) (spikes u s)" for u
    unfolding s'(8) event_rows_user user by (simp add: comp_def case_prod_beta)
  moreover have "revenge_of u s' = revenge_of u s" "score_of u s' = score_of u s" for u
    using s'(9) reset_counters_reads(2,3) [of u ?s3] by (simp_all add: revenge_of_def score_of_def)
  moreover have "backfillOvertrading P iter s = (Inr (), s')"
    using assms(1) ins s'(1,2)
    by (simp add: backfillOvertrading_def db_simps in_tx_healthy Let_def clear_events_stmt_def reset_counters_stmt_def)
  ultimately show ?thesis using s'(2-7) by blast
qed

section \<open>Properties\<close>

text \<open>
  C11: The live detector records one event, with the half hour before the entry as its window and the
  number of entries in it, adds one to the user's counter and publishes, exactly when more than ten
  entries of the user fall into that window and no recorded event of the user ends in it; otherwise
  it changes nothing and publishes nothing. What the publisher does has no influence on the result.
\<close>

theorem Overtrading_records:
  assumes "faults s = []" and "new_uuid P (draws s) \<notin> event_id ` set (overtrading_events s)"
    and "0 \<le> overtrading_of u s" and "overtrading_of u s < 2 ^ 31 - 1"
    and "opens_in u (t - minutes 30) t s < 2 ^ 31"
  shows "\<exists>s'. Overtrading_calc P (Some pub) u t s q =
      (Inr (), s', if 10 < opens_in u (t - minutes 30) t s \<and> events_in u (t - minutes 30) t s = 0
         then snd (pub u (t - minutes 30) t (opens_in u (t - minutes 30) t s) q) else q) \<and>
    (if 10 < opens_in u (t - minutes 30) t s \<and> events_in u (t - minutes 30) t s = 0
     then overtrading_events s' = overtrading_events s @
            [\<lparr>event_id = new_uuid P (draws s), ot_user_id = u, window_start = to_timestamptz (t - minutes 30),
              window_end = to_timestamptz t, trade_count = opens_in u (t - minutes 30) t s, detected_at = clock s\<rparr>] \<and>
          overtrading_of u s' = overtrading_of u s + 1 \<and>
          (\<forall>v. v \<noteq> u \<longrightarrow> overtrading_of v s' = overtrading_of v s) \<and>
          (\<forall>v. revenge_of v s' = revenge_of v s \<and> score_of v s' = score_of v s) \<and>
          trades s' = trades s \<and> user_emotion_metrics s' = user_emotion_metrics s \<and> session_metrics s' = session_metrics s
     else s' = s)"
proof -
  from Overtrading_healthy [of s P u t "Some pub" q, OF assms(1) _ assms(3-5)] assms(2)
  obtain s' where run: "Overtrading_calc P (Some pub) u t s q =
      (Inr (), if triggers u t s then s' else s,
       if triggers u t s then snd (pub u (t - minutes 30) t (opens_in u (t - minutes 30) t s) q) else q)"
    and s': "overtrading_events s' = overtrading_events s @ [ot_event P u t s]" "trades s' = trades s"
      "user_emotion_metrics s' = user_emotion_metrics s" "session_metrics s' = session_metrics s"
      "\<forall>v. overtrading_of v s' = (if v = u then overtrading_of u s + 1 else overtrading_of v s) \<and>
         revenge_of v s' = revenge_of v s \<and> score_of v s' = score_of v s"
    unfolding fresh_ids_def option.case by blast
  show ?thesis
  proof (cases "triggers u t s")
    case True
    with run s' show ?thesis unfolding triggers_def ot_event_def by (intro exI [of _ s']) simp
  next
    case False
    with run show ?thesis unfolding triggers_def by (intro exI [of _ s]) auto
  qed
qed

text \<open>
  C27: The deduplication keeps the recorded events of a user more than half an hour apart, as long as
  the entries are handled in their order: an event is only added more than half an hour after every
  earlier one. The events of the other users are not touched.
\<close>

theorem Overtrading_spacing:
  assumes "faults s = []" and "new_uuid P (draws s) \<notin> event_id ` set (overtrading_events s)"
    and "0 \<le> overtrading_of u s" and "overtrading_of u s < 2 ^ 31 - 1"
    and "opens_in u (t - minutes 30) t s < 2 ^ 31"
    and "sorted_wrt (\<lambda>a b. a + minutes 30 < b) (user_events u s)"
    and "\<forall>x \<in> set (user_events u s). x \<le> to_timestamptz t"
  shows "sorted_wrt (\<lambda>a b. a + minutes 30 < b) (user_events u (fst (snd (Overtrading_calc P pub u t s q)))) \<and>
    (\<forall>x \<in> set (user_events u (fst (snd (Overtrading_calc P pub u t s q)))). x \<le> to_timestamptz t) \<and>
    (\<forall>v. v \<noteq> u \<longrightarrow> user_events v (fst (snd (Overtrading_calc P pub u t s q))) = user_events v s)"
proof -
  from Overtrading_healthy [of s P u t pub q, OF assms(1) _ assms(3-5)] assms(2) obtain s' where
    run: "fst (snd (Overtrading_calc P pub u t s q)) = (if triggers u t s then s' else s)"
    and ev: "overtrading_events s' = overtrading_events s @ [ot_event P u t s]"
    unfolding fresh_ids_def by auto
  show ?thesis
  proof (cases "triggers u t s")
    case True
    then have "\<forall>x \<in> set (user_events u s). x + minutes 30 < to_timestamptz t"
      using assms(7) by (auto simp: triggers_def events_in_0_iff)
    with True assms(6,7) show ?thesis
      unfolding run by (simp add: user_events_append [OF ev] ot_event_def sorted_wrt_append)
  qed (use assms(6,7) run in simp)
qed

text \<open>
  C17: On entries in order, the backfill's walk with its moving window reports, in order, exactly the
  positions where the number of entries in the half hour up to and including that entry exceeds ten
  and at the entry before it did not; each with the first entry of its window and the count.
\<close>

theorem scan_window_spec:
  assumes "sorted ts"
  shows "scan_window [] False ts =
    map (\<lambda>i. (hd (window_at ts i), ts ! i, int (length (window_at ts i))))
      (filter (\<lambda>i. 10 < length (window_at ts i) \<and> (i = 0 \<or> length (window_at ts (i - 1)) \<le> 10)) [0..<length ts])"
  using scan_all [OF assms] unfolding spike_starts_def .

text \<open>
  C18: The backfill of overtrading replaces the event log and the counters, in one transaction, by
  what the walk over each user's sorted entries reports, whatever the order in which Go ranges over
  its maps; running it again changes no window, count or counter.
\<close>

theorem backfillOvertrading_result:
  assumes "faults s = []" and "permutes_lists iter" and "length (trades s) < 2 ^ 31"
    and "inj_on (new_uuid P) {draws s..<draws s + 2 * length (detected (iter 0) (entries s))}"
  shows "\<exists>s1 s2. backfillOvertrading P iter s = (Inr (), s1) \<and> backfillOvertrading P iter s1 = (Inr (), s2) \<and>
    trades s1 = trades s \<and>
    (\<forall>s' \<in> {s1, s2}. \<forall>u.
       map (\<lambda>e. (window_start e, window_end e, trade_count e)) (filter (\<lambda>e. ot_user_id e = u) (overtrading_events s')) =
         map (\<lambda>(ws, we, n). (to_timestamptz ws, to_timestamptz we, n))
           (scan_window [] False (sort (map entry_at (filter (\<lambda>r. user_id r = u) (trades s))))) \<and>
       overtrading_of u s' =
         int (length (scan_window [] False (sort (map entry_at (filter (\<lambda>r. user_id r = u) (trades s)))))) \<and>
       revenge_of u s' = revenge_of u s \<and> score_of u s' = score_of u s)"
proof -
  obtain s1 where s1: "backfillOvertrading P iter s = (Inr (), s1)" "faults s1 = []" "trades s1 = trades s"
    "draws s1 = draws s + length (detected (iter 0) (entries s))"
    "\<forall>u. map (\<lambda>e. (window_start e, window_end e, trade_count e)) (filter (\<lambda>e. ot_user_id e = u) (overtrading_events s1)) =
           map (\<lambda>(ws, we, n). (to_timestamptz ws, to_timestamptz we, n)) (spikes u s) \<and>
         overtrading_of u s1 = int (length (spikes u s)) \<and>
         revenge_of u s1 = revenge_of u s \<and> score_of u s1 = score_of u s"
    using backfillOvertrading_healthy [OF assms(1-3) inj_on_subset [OF assms(4)]] by auto
  have en: "entries s1 = entries s" by (simp add: entries_def s1(3))
  have sp: "spikes u s1 = spikes u s" for u by (simp add: spikes_def s1(3))
  obtain s2 where s2: "backfillOvertrading P iter s1 = (Inr (), s2)"
    "\<forall>u. map (\<lambda>e. (window_start e, window_end e, trade_count e)) (filter (\<lambda>e. ot_user_id e = u) (overtrading_events s2)) =
           map (\<lambda>(ws, we, n). (to_timestamptz ws, to_timestamptz we, n)) (spikes u s) \<and>
         overtrading_of u s2 = int (length (spikes u s)) \<and>
         revenge_of u s2 = revenge_of u s1 \<and> score_of u s2 = score_of u s1"
    using backfillOvertrading_healthy [OF s1(2) assms(2) _ inj_on_subset [OF assms(4)]] assms(3)
    unfolding s1(3,4) sp en by auto
  have "\<forall>s' \<in> {s1, s2}. \<forall>u.
       map (\<lambda>e. (window_start e, window_end e, trade_count e)) (filter (\<lambda>e. ot_user_id e = u) (overtrading_events s')) =
         map (\<lambda>(ws, we, n). (to_timestamptz ws, to_timestamptz we, n)) (spikes u s) \<and>
       overtrading_of u s' = int (length (spikes u s)) \<and> revenge_of u s' = revenge_of u s \<and> score_of u s' = score_of u s"
    using s1(5) s2(2) by simp
  with s1(1,3) s2(1) show ?thesis unfolding spikes_def by blast
qed

section \<open>Examples\<close>

definition busy_db :: db where
  "busy_db = empty_db\<lparr>trades := map (\<lambda>k. closed_row k 3 (int k * 10 ^ 6) Win Calm) [1..<12]\<rparr>"

lemma busy_db_faults [simp]: "faults busy_db = []" "draws busy_db = 0" "overtrading_events busy_db = []"
    "user_metrics busy_db = []"
  by (simp_all add: busy_db_def)

lemma busy_db_opens: "opens_in 2 (11000000 - minutes 30) 11000000 busy_db = 11"
  by code_simp

lemma busy_db_reads: "overtrading_of 2 busy_db = 0" "events_in 2 a b busy_db = 0" "user_events u busy_db = []"
  by (simp_all add: overtrading_of_def events_in_def user_events_def)

theorem Overtrading_records_witness:
  "\<exists>s'. Overtrading_calc ref_platform (Some (\<lambda>u ws we n q. (Inl ErrNotFound, Suc q))) 2 11000000 busy_db 0 = (Inr (), s', 1) \<and>
     overtrading_of 2 s' = 1"
  using Overtrading_records [of busy_db ref_platform 2 11000000 "\<lambda>u ws we n q. (Inl ErrNotFound, Suc q)" 0]
  by (force simp: busy_db_opens busy_db_reads)

theorem Overtrading_spacing_witness:
  "sorted_wrt (\<lambda>a b. a + minutes 30 < b)
     (user_events 2 (fst (snd (Overtrading_calc ref_platform None 2 11000000 busy_db ()))))"
  using Overtrading_spacing [of busy_db ref_platform 2 11000000 None "()"]
  by (simp add: busy_db_opens busy_db_reads)

theorem scan_window_spec_witness:
  "scan_window [] False (replicate 12 0) =
     map (\<lambda>i. (hd (window_at (replicate 12 0) i), replicate 12 0 ! i, int (length (window_at (replicate 12 0) i))))
       (filter (\<lambda>i. 10 < length (window_at (replicate 12 0) i) \<and>
          (i = 0 \<or> length (window_at (replicate 12 0) (i - 1)) \<le> 10)) [0..<12])"
  using scan_window_spec [of "replicate 12 0"] by (simp add: sorted_replicate)

lemma busy_db_detected: "length (detected (\<lambda>us. us) (entries busy_db)) = 1"
  by code_simp

theorem backfillOvertrading_result_witness:
  "\<exists>s1. backfillOvertrading ref_platform (\<lambda>_ us. us) busy_db = (Inr (), s1) \<and> trades s1 = trades busy_db"
proof -
  have "inj_on (new_uuid ref_platform) {0..<2 * 1}"
  proof -
    have "{0..<2 * 1::nat} = {0, 1}" by auto
    then show ?thesis by (simp add: ref_platform_def)
  qed
  then have inj: "inj_on (new_uuid ref_platform)
      {draws busy_db..<draws busy_db + 2 * length (detected (\<lambda>us. us) (entries busy_db))}"
    by (simp only: busy_db_detected busy_db_faults add_0)
  have "permutes_lists (\<lambda>_ us. us)" "length (trades busy_db) < 2 ^ 31"
    by (simp_all add: permutes_lists_def busy_db_def)
  then show ?thesis using backfillOvertrading_result [OF busy_db_faults(1) _ _ inj] by blast
qed

end
