(* ===== verification/Emotion_Tilt.thy ===== *)
theory Emotion_Tilt imports Overtrading begin

text \<open>
  Win rate by emotion and session tilt: each handled trade moves one counter, handling every closed
  trade once gives what the backfill computes, and the tilt of a session against its definition.
\<close>

section \<open>One trade, one counter\<close>

lemma outcome_win_text: "outcome_text oc = ''win'' \<longleftrightarrow> oc = Win"
  by (cases oc) simp_all

lemma WinRate_healthy:
  assumes "faults s = []" and "tbl_lookup trade_id tid (trades s) = Some t"
  shows "WinRateByEmotion_calc tid u s =
    (case (emotional_state t, outcome t) of
       (Some em, Some oc) \<Rightarrow> UpsertEmotionStat u (emotion_text em) (oc = Win) s
     | _ \<Rightarrow> (Inr (), s))"
  using assms
  by (simp add: WinRateByEmotion_calc_def db_simps read_row_def outcome_win_text split: option.split)

text \<open>A trade adds to the wins of \<open>k\<close>, to its losses, or to neither.\<close>

definition adds_win :: "uuid \<times> emotional_state \<Rightarrow> trade_row \<Rightarrow> bool" where
  "adds_win k r \<longleftrightarrow> emotional_state r = Some (snd k) \<and> user_id r = fst k \<and> outcome r = Some Win"

definition adds_loss :: "uuid \<times> emotional_state \<Rightarrow> trade_row \<Rightarrow> bool" where
  "adds_loss k r \<longleftrightarrow> emotional_state r = Some (snd k) \<and> user_id r = fst k \<and> outcome r = Some Loss"

definition emotion_room :: "nat \<Rightarrow> db \<Rightarrow> bool" where
  "emotion_room n s \<longleftrightarrow> (\<forall>k. 0 \<le> emotion_wins k s \<and> emotion_wins k s + int n < 2 ^ 31 \<and>
     0 \<le> emotion_losses k s \<and> emotion_losses k s + int n < 2 ^ 31)"

lemma emotion_roomD:
  "emotion_room n s \<Longrightarrow> 0 \<le> emotion_wins k s \<and> emotion_wins k s + int n < 2 ^ 31 \<and>
     0 \<le> emotion_losses k s \<and> emotion_losses k s + int n < 2 ^ 31"
  unfolding emotion_room_def by blast

lemma emotion_room_step:
  assumes "emotion_room (Suc n) s"
    and "\<And>k. emotion_wins k s \<le> emotion_wins k s' \<and> emotion_wins k s' \<le> emotion_wins k s + 1 \<and>
       emotion_losses k s \<le> emotion_losses k s' \<and> emotion_losses k s' \<le> emotion_losses k s + 1"
  shows "emotion_room n s'"
  unfolding emotion_room_def
proof
  fix k
  show "0 \<le> emotion_wins k s' \<and> emotion_wins k s' + int n < 2 ^ 31 \<and>
     0 \<le> emotion_losses k s' \<and> emotion_losses k s' + int n < 2 ^ 31"
    using emotion_roomD [OF assms(1), of k] assms(2) [of k] by simp
qed

lemma WinRate_step:
  assumes "faults s = []" and "tbl_lookup trade_id (trade_id t) (trades s) = Some t" and "emotion_room (Suc n) s"
  shows "\<exists>s'. WinRateByEmotion_calc (trade_id t) (user_id t) s = (Inr (), s') \<and> faults s' = [] \<and> trades s' = trades s \<and>
    user_metrics s' = user_metrics s \<and> session_metrics s' = session_metrics s \<and>
    overtrading_events s' = overtrading_events s \<and>
    (\<forall>k. emotion_wins k s' = emotion_wins k s + (if adds_win k t then 1 else 0) \<and>
         emotion_losses k s' = emotion_losses k s + (if adds_loss k t then 1 else 0)) \<and> emotion_room n s'"
proof (cases "\<exists>em oc. emotional_state t = Some em \<and> outcome t = Some oc")
  case True
  then obtain em oc where t: "emotional_state t = Some em" "outcome t = Some oc" by blast
  have w: "oc = Win \<longleftrightarrow> oc \<noteq> Loss" by (cases oc) simp_all
  have room: "0 \<le> (if oc = Win then emotion_wins (user_id t, em) s else emotion_losses (user_id t, em) s)"
    "(if oc = Win then emotion_wins (user_id t, em) s else emotion_losses (user_id t, em) s) < 2 ^ 31 - 1"
    using emotion_roomD [OF assms(3), of "(user_id t, em)"] by (cases "oc = Win"; simp)+
  obtain s' where s': "UpsertEmotionStat (user_id t) (emotion_text em) (oc = Win) s = (Inr (), s')" "faults s' = []"
      "trades s' = trades s" "user_metrics s' = user_metrics s" "session_metrics s' = session_metrics s"
      "overtrading_events s' = overtrading_events s"
      "\<forall>k. emotion_wins k s' = (if oc = Win \<and> k = (user_id t, em) then emotion_wins k s + 1 else emotion_wins k s) \<and>
         emotion_losses k s' = (if oc \<noteq> Win \<and> k = (user_id t, em) then emotion_losses k s + 1 else emotion_losses k s)"
    using emotion_bump [OF assms(1) room] by blast
  have "adds_win k t \<longleftrightarrow> oc = Win \<and> k = (user_id t, em)" "adds_loss k t \<longleftrightarrow> oc \<noteq> Win \<and> k = (user_id t, em)" for k
    using t w by (cases k; auto simp: adds_win_def adds_loss_def)+
  then have rd: "emotion_wins k s' = emotion_wins k s + (if adds_win k t then 1 else 0) \<and>
         emotion_losses k s' = emotion_losses k s + (if adds_loss k t then 1 else 0)" for k
    using spec [OF s'(7), of k] by simp
  moreover have "emotion_room n s'"
    by (rule emotion_room_step [OF assms(3)]) (use rd in auto)
  ultimately show ?thesis using s' t WinRate_healthy [OF assms(1,2), of "user_id t"] by (intro exI [of _ s']) simp
next
  case False
  then have "\<not> adds_win k t" "\<not> adds_loss k t" for k by (auto simp: adds_win_def adds_loss_def)
  moreover have "WinRateByEmotion_calc (trade_id t) (user_id t) s = (Inr (), s)"
    using False WinRate_healthy [OF assms(1,2), of "user_id t"] by (auto split: option.splits)
  moreover have "emotion_room n s" by (rule emotion_room_step [OF assms(3)]) simp
  ultimately show ?thesis using assms(1) by simp
qed

text \<open>Handling the closing of each of a list of trades, in turn.\<close>

fun close_all :: "trade_row list \<Rightarrow> db \<Rightarrow> db" where
  "close_all [] s = s"
| "close_all (t # ts) s = close_all ts (snd (WinRateByEmotion_calc (trade_id t) (user_id t) s))"

lemma close_all_counts:
  assumes "faults s = []" and "distinct (map trade_id (trades s))" and "set ts \<subseteq> set (trades s)" and "emotion_room (length ts) s"
  shows "emotion_wins k (close_all ts s) = emotion_wins k s + count_rows (adds_win k) ts \<and>
    emotion_losses k (close_all ts s) = emotion_losses k s + count_rows (adds_loss k) ts"
  using assms
proof (induction ts arbitrary: s)
  case (Cons t ts)
  have "tbl_lookup trade_id (trade_id t) (trades s) = Some t"
    using Cons.prems(2,3) by (intro tbl_lookup_distinct) simp_all
  moreover have "emotion_room (Suc (length ts)) s" using Cons.prems(4) by simp
  ultimately obtain s' where
    s': "WinRateByEmotion_calc (trade_id t) (user_id t) s = (Inr (), s')" "faults s' = []" "trades s' = trades s"
      "\<forall>k. emotion_wins k s' = emotion_wins k s + (if adds_win k t then 1 else 0) \<and>
         emotion_losses k s' = emotion_losses k s + (if adds_loss k t then 1 else 0)" "emotion_room (length ts) s'"
    using WinRate_step [OF Cons.prems(1)] by blast
  have "emotion_wins k (close_all ts s') = emotion_wins k s' + count_rows (adds_win k) ts \<and>
    emotion_losses k (close_all ts s') = emotion_losses k s' + count_rows (adds_loss k) ts"
    using Cons.prems(2,3) s' by (intro Cons.IH) simp_all
  with s'(1) spec [OF s'(4), of k] show ?case by simp
qed simp

section \<open>The backfill's groups\<close>

lemma emotion_group_ok:
  assumes "length rows < 2 ^ 31"
  shows "emotion_group (filter decided rows) k now =
    Inr \<lparr>ue_user_id = fst k, ue_emotion = snd k,
      wins = count_rows (\<lambda>r. status r = Closed \<and> adds_win k r) rows,
      losses = count_rows (\<lambda>r. status r = Closed \<and> adds_loss k r) rows, ue_updated_at = now\<rparr>"
proof -
  have small: "count_rows p rows < 2 ^ 31" for p
    by (rule le_less_trans [OF count_rows_le_length]) (use assms in simp)
  have "count_rows (\<lambda>r. outcome r = Some oc)
      (filter (\<lambda>r. (user_id r, the (emotional_state r)) = k) (filter decided rows)) =
    count_rows (\<lambda>r. status r = Closed \<and> emotional_state r = Some (snd k) \<and> user_id r = fst k \<and> outcome r = Some oc) rows" for oc
    unfolding count_rows_def filter_filter
    by (intro arg_cong [where f = int] arg_cong [where f = length] filter_cong) (auto simp: decided_def)
  then show ?thesis
    using small by (simp add: emotion_group_def Let_def to_int4_def adds_win_def adds_loss_def order_trans [of _ 0])
qed

lemma backfill_emotions:
  assumes "faults s = []" and "length (trades s) < 2 ^ 31" and "user_emotion_metrics s = []"
  shows "\<exists>s'. backfillWinRateByEmotion s = (Inr (), s') \<and> trades s' = trades s \<and> user_metrics s' = user_metrics s \<and>
    session_metrics s' = session_metrics s \<and> overtrading_events s' = overtrading_events s \<and> faults s' = [] \<and>
    (\<forall>k. emotion_wins k s' = count_rows (\<lambda>r. status r = Closed \<and> adds_win k r) (trades s) \<and>
         emotion_losses k s' = count_rows (\<lambda>r. status r = Closed \<and> adds_loss k r) (trades s))"
proof -
  let ?rows = "filter decided (trades s)"
  let ?ks = "remdups (map (\<lambda>r. (user_id r, the (emotional_state r))) ?rows)"
  let ?g = "\<lambda>k. \<lparr>ue_user_id = fst k, ue_emotion = snd k,
      wins = count_rows (\<lambda>r. status r = Closed \<and> adds_win k r) (trades s),
      losses = count_rows (\<lambda>r. status r = Closed \<and> adds_loss k r) (trades s), ue_updated_at = clock s\<rparr>"
  let ?merge = "\<lambda>new old. old\<lparr>wins := wins new, losses := losses new, ue_updated_at := clock s\<rparr>"
  let ?t = "upsert_each ue_key ?merge (map ?g ?ks) []"
  let ?s' = "s\<lparr>user_emotion_metrics := ?t\<rparr>"
  have "collect_ok (map (\<lambda>k. emotion_group ?rows k (clock s)) ?ks) = Inr (map ?g ?ks)"
    by (intro collect_ok_map) (simp add: emotion_group_ok [OF assms(2)])
  moreover have keys: "map ue_key (map ?g ?ks) = ?ks" by (simp add: comp_def)
  then have d: "distinct (map ue_key (map ?g ?ks))" by (simp only: distinct_remdups)
  ultimately have run: "backfillWinRateByEmotion s = (Inr (), ?s')"
    using assms(1,3) by (simp add: backfillWinRateByEmotion_def db_simps emotion_stmt_def Let_def upsert_rows_def)
  have lk: "tbl_lookup ue_key k ?t = (if k \<in> set ?ks then Some (?g k) else None)" for k
    by (subst upsert_each_lookup [OF d]) (auto simp: tbl_lookup_map_keys)
  have "k \<notin> set ?ks \<Longrightarrow> r \<in> set (trades s) \<Longrightarrow> status r = Closed \<Longrightarrow> \<not> adds_win k r \<and> \<not> adds_loss k r" for k r
    by (cases k) (force simp: adds_win_def adds_loss_def decided_def)
  then have "k \<notin> set ?ks \<Longrightarrow> count_rows (\<lambda>r. status r = Closed \<and> adds_win k r) (trades s) = 0 \<and>
      count_rows (\<lambda>r. status r = Closed \<and> adds_loss k r) (trades s) = 0" for k
    unfolding count_rows_eq_0_iff by blast
  then have "emotion_wins k ?s' = count_rows (\<lambda>r. status r = Closed \<and> adds_win k r) (trades s) \<and>
         emotion_losses k ?s' = count_rows (\<lambda>r. status r = Closed \<and> adds_loss k r) (trades s)" for k
    using lk [of k] by (cases "k \<in> set ?ks") (simp_all add: emotion_wins_def emotion_losses_def)
  with run assms(1) show ?thesis by (intro exI [of _ ?s']) simp
qed

section \<open>Tilt of a session\<close>

definition session_trades :: "uuid \<Rightarrow> db \<Rightarrow> trade_row list" where
  "session_trades sid s = sort_key entry_at (filter (\<lambda>r. session_id r = sid \<and> status r = Closed) (trades s))"

lemma session_rows_lag: "session_rows sid s = with_lag outcome None (session_trades sid s)"
  by (simp add: session_rows_def session_trades_def)

lemma with_lag_fst [simp]: "map fst (with_lag f prev rs) = rs"
  by (induction rs arbitrary: prev) simp_all

lemma with_lag_length [simp]: "length (with_lag f prev rs) = length rs"
  by (induction rs arbitrary: prev) simp_all

text \<open>The rows whose predecessor has a value are the predecessors of all rows but the last.\<close>

lemma with_lag_count:
  "count_rows (\<lambda>(_, p). p = v) (with_lag f prev rs) =
     (if rs = [] then 0 else (if prev = v then 1 else 0) + count_rows (\<lambda>r. f r = v) (butlast rs))"
  by (induction rs arbitrary: prev) auto

lemma count_butlast_le: "count_rows p (butlast rs) \<le> count_rows p rs"
  by (induction rs) auto

definition tilt_row :: "uuid \<Rightarrow> uuid \<Rightarrow> (trade_row \<times> trade_outcome option) list \<Rightarrow> instant \<Rightarrow> session_row" where
  "tilt_row sid u grp now =
     \<lparr>sm_session_id = sid, sm_user_id = u, total_trades = int (length grp),
      loss_following_trades = count_rows (\<lambda>(_, p). p = Some Loss) grp,
      tilt_index = numeric_round 4 (of_int (count_rows (\<lambda>(_, p). p = Some Loss) grp) / of_int (int (length grp))),
      last_outcome = None, last_exit_at = None, sm_updated_at = now\<rparr>"

lemma ratio_round:
  assumes "0 \<le> a" and "a \<le> b" and "0 < (b::int)"
  shows "0 \<le> numeric_round 4 (of_int a / of_int b)" and "numeric_round 4 (of_int a / of_int b) \<le> 1"
proof -
  have q: "0 \<le> (of_int a / of_int b :: rat)" "of_int a / of_int b \<le> (1 :: rat)" using assms by simp_all
  from q(1) show "0 \<le> numeric_round 4 (of_int a / of_int b)" by (rule numeric_round_sign)
  have "numeric_round 4 (of_int a / of_int b) \<le> numeric_round 4 1" using q by (rule numeric_round_mono)
  then show "numeric_round 4 (of_int a / of_int b) \<le> 1" by simp
qed

lemma tilt_group_ok:
  assumes "grp \<noteq> []" and "length grp < 2 ^ 31"
  shows "tilt_group sid u grp now = Inr (tilt_row sid u grp now)"
proof -
  let ?l = "count_rows (\<lambda>(_, p). p = Some Loss) grp"
  have l: "0 \<le> ?l" "?l \<le> int (length grp)" by (simp_all add: count_rows_le_length)
  have n: "0 < int (length grp)" "int (length grp) < 2 ^ 31" using assms by simp_all
  have "to_numeric 5 4 (of_int ?l / of_int (int (length grp))) =
      Inr (numeric_round 4 (of_int ?l / of_int (int (length grp))))"
    using ratio_round [OF l n(1)] by (simp add: to_numeric_def Let_def)
  then show ?thesis
    using l n assms(1) order_trans [of "- 2147483648" 0 ?l] by (simp add: tilt_group_def Let_def to_int4_def tilt_row_def)
qed

definition groups_of :: "uuid \<Rightarrow> db \<Rightarrow> session_row list" where
  "groups_of sid s = map (\<lambda>u. tilt_row sid u (filter (\<lambda>(r, _). user_id r = u) (session_rows sid s)) (clock s))
     (remdups (map user_id (session_trades sid s)))"

lemma tilt_groups_ok:
  assumes "length (trades s) < 2 ^ 31"
  shows "tilt_groups sid s = map Inr (groups_of sid s)"
proof -
  have "length (session_trades sid s) \<le> length (trades s)" by (simp add: session_trades_def)
  then have "length (session_rows sid s) < 2 ^ 31"
    unfolding session_rows_lag with_lag_length using assms by (rule le_less_trans)
  then have len: "length (filter p (session_rows sid s)) < 2 ^ 31" for p
    by (rule le_less_trans [OF length_filter_le])
  have users: "map (user_id \<circ> fst) (session_rows sid s) = map user_id (session_trades sid s)"
    by (simp add: session_rows_lag flip: map_map)
  have ne: "filter (\<lambda>(r, _). user_id r = u) (session_rows sid s) \<noteq> []"
    if "u \<in> set (map user_id (session_trades sid s))" for u
    using that unfolding users [symmetric] by (force simp: filter_empty_conv)
  show ?thesis
    unfolding tilt_groups_def groups_of_def Let_def users map_map
    by (rule map_cong [OF refl]) (simp only: comp_apply set_remdups tilt_group_ok [OF ne len])
qed

lemma collect_ok_Inr: "collect_ok (map Inr xs) = Inr xs"
  by (induction xs) simp_all

lemma store_tilts_groups:
  "store_tilts (map Inr news) s =
     (if distinct (map sm_session_id news)
      then Inr (s\<lparr>session_metrics := upsert_each sm_session_id (tilt_merge (clock s)) news (session_metrics s)\<rparr>)
      else Inl CardinalityViolation)"
  by (simp add: store_tilts_def collect_ok_Inr upsert_rows_def)

lemma groups_of_ids: "map sm_session_id (groups_of sid s) = replicate (length (groups_of sid s)) sid"
  by (simp add: groups_of_def tilt_row_def map_replicate_const comp_def)

lemma groups_of_length: "length (groups_of sid s) = length (remdups (map user_id (session_trades sid s)))"
  by (simp add: groups_of_def)

lemma remdups_two:
  assumes "a \<in> set xs" and "b \<in> set xs" and "a \<noteq> b"
  shows "2 \<le> length (remdups xs)"
proof -
  have "card {a, b} \<le> card (set xs)" using assms by (intro card_mono) auto
  with assms(3) show ?thesis by (simp add: length_remdups_card_conv)
qed

lemma mixed_groups:
  assumes "a \<in> set (trades s)" and "b \<in> set (trades s)" and "session_id a = sid" and "session_id b = sid"
    and "status a = Closed" and "status b = Closed" and "user_id a \<noteq> user_id b"
  shows "\<not> distinct (map sm_session_id (groups_of sid s))"
proof -
  have "user_id a \<in> set (map user_id (session_trades sid s))" "user_id b \<in> set (map user_id (session_trades sid s))"
    using assms(1-6) by (auto simp: session_trades_def)
  then have "2 \<le> length (groups_of sid s)"
    unfolding groups_of_length using assms(7) by (rule remdups_two)
  then have "length (groups_of sid s) = Suc (Suc (length (groups_of sid s) - 2))" by simp
  then have "map sm_session_id (groups_of sid s) = sid # sid # replicate (length (groups_of sid s) - 2) sid"
    unfolding groups_of_ids by (metis replicate_Suc)
  then show ?thesis by simp
qed

lemma mixed_tilt:
  assumes "\<not> distinct (map sm_session_id (groups_of sid s))" and "faults s = []" and "length (trades s) < 2 ^ 31"
  shows "SessionTilt_calc sid s = (Inl (Sql CardinalityViolation), s)"
  using assms by (simp add: SessionTilt_calc_def UpsertSessionTilt_def tilt_stmt_def tilt_groups_ok [OF assms(3)]
      store_tilts_groups db_simps)

lemma remdups_all_same: "xs \<noteq> [] \<Longrightarrow> (\<And>x. x \<in> set xs \<Longrightarrow> x = u) \<Longrightarrow> remdups xs = [u]"
proof (induction xs)
  case (Cons x xs)
  show ?case
  proof (cases xs)
    case Nil
    then show ?thesis using Cons.prems(2) by simp
  next
    case (Cons y ys)
    then have "remdups xs = [u]" "x = u" "y = u" using Cons.IH Cons.prems by auto
    with Cons show ?thesis by simp
  qed
qed simp

lemma groups_of_single:
  assumes "session_trades sid s \<noteq> []" and "\<And>r. r \<in> set (session_trades sid s) \<Longrightarrow> user_id r = u"
  shows "groups_of sid s = [tilt_row sid u (session_rows sid s) (clock s)]"
proof -
  have "remdups (map user_id (session_trades sid s)) = [u]"
    using assms by (intro remdups_all_same) auto
  moreover have "filter (\<lambda>(r, _). user_id r = u) (session_rows sid s) = session_rows sid s"
  proof (rule filter_True)
    have "\<forall>r \<in> set (map fst (session_rows sid s)). user_id r = u"
      using assms(2) by (simp add: session_rows_lag)
    then show "\<forall>x \<in> set (session_rows sid s). case x of (r, _) \<Rightarrow> user_id r = u" by auto
  qed
  ultimately show ?thesis by (simp add: groups_of_def)
qed

lemma tilt_single:
  assumes "faults s = []" and "length (trades s) < 2 ^ 31"
    and "session_trades sid s \<noteq> []" and "\<And>r. r \<in> set (session_trades sid s) \<Longrightarrow> user_id r = u"
  defines "rs \<equiv> session_trades sid s"
  shows "\<exists>s' row. SessionTilt_calc sid s = (Inr (), s') \<and> tbl_lookup sm_session_id sid (session_metrics s') = Some row \<and>
    total_trades row = int (length rs) \<and> loss_following_trades row = count_rows (\<lambda>r. outcome r = Some Loss) (butlast rs) \<and>
    tilt_index row = numeric_round 4 (of_int (loss_following_trades row) / of_int (total_trades row)) \<and>
    0 \<le> tilt_index row \<and> tilt_index row \<le> 1 \<and>
    (\<forall>k. k \<noteq> sid \<longrightarrow> tbl_lookup sm_session_id k (session_metrics s') = tbl_lookup sm_session_id k (session_metrics s)) \<and>
    trades s' = trades s \<and> user_metrics s' = user_metrics s \<and> user_emotion_metrics s' = user_emotion_metrics s \<and>
    overtrading_events s' = overtrading_events s \<and> faults s' = []"
proof -
  let ?row = "tilt_row sid u (session_rows sid s) (clock s)"
  let ?t = "upsert_each sm_session_id (tilt_merge (clock s)) [?row] (session_metrics s)"
  have g: "groups_of sid s = [?row]" using assms(3,4) by (rule groups_of_single)
  have run: "SessionTilt_calc sid s = (Inr (), s\<lparr>session_metrics := ?t\<rparr>)"
    using assms(1) store_tilts_groups [of "[?row]" s]
    by (simp add: SessionTilt_calc_def UpsertSessionTilt_def tilt_stmt_def tilt_groups_ok [OF assms(2)]
        g db_simps del: upsert_each.simps)
  have look: "tbl_lookup sm_session_id k ?t = (if k = sid then Some (case tbl_lookup sm_session_id sid (session_metrics s) of
       None \<Rightarrow> ?row | Some r \<Rightarrow> tilt_merge (clock s) ?row r) else tbl_lookup sm_session_id k (session_metrics s))" for k
  proof -
    have ids: "sm_session_id ?row = sid" "\<And>r. sm_session_id (tilt_merge (clock s) ?row r) = sm_session_id r"
      by (simp_all add: tilt_row_def tilt_merge_def)
    show ?thesis by (subst upsert_each_lookup) (simp_all add: ids)
  qed
  let ?l = "count_rows (\<lambda>r. outcome r = Some Loss) (butlast rs)"
  have l: "count_rows (\<lambda>(_, p). p = Some Loss) (session_rows sid s) = ?l"
    using assms(3) unfolding session_rows_lag rs_def with_lag_count by simp
  have n: "0 \<le> ?l" "?l \<le> int (length rs)" "0 < int (length rs)"
    using assms(3) count_rows_le_length [of "\<lambda>r. outcome r = Some Loss" "butlast rs"] by (auto simp: rs_def)
  have len: "length (session_rows sid s) = length rs" by (simp add: session_rows_lag rs_def)
  have rowf: "\<exists>row. tbl_lookup sm_session_id sid ?t = Some row \<and> total_trades row = int (length rs) \<and>
      loss_following_trades row = ?l \<and>
      tilt_index row = numeric_round 4 (of_int (loss_following_trades row) / of_int (total_trades row)) \<and>
      0 \<le> tilt_index row \<and> tilt_index row \<le> 1"
    using ratio_round [OF n] unfolding look
    by (simp add: tilt_row_def tilt_merge_def l len split: option.split)
  obtain s' where s': "SessionTilt_calc sid s = (Inr (), s')" "session_metrics s' = ?t" "trades s' = trades s"
      "user_metrics s' = user_metrics s" "user_emotion_metrics s' = user_emotion_metrics s"
      "overtrading_events s' = overtrading_events s" "faults s' = []"
    using run assms(1) by (simp del: upsert_each.simps)
  have other: "k \<noteq> sid \<Longrightarrow> tbl_lookup sm_session_id k (session_metrics s') = tbl_lookup sm_session_id k (session_metrics s)" for k
    unfolding s'(2) look by simp
  from s'(1,3-) other rowf [folded s'(2)] show ?thesis by (intro exI [of _ s']) simp_all
qed

text \<open>
  An order of entry: \<open>ORDER BY entry_at\<close> fixes the order of the rows up to those entered at the same instant. The number
  of losses before the last row depends on the order only if the rows of the last instant differ in being losses.
\<close>

definition entry_order :: "trade_row list \<Rightarrow> trade_row list \<Rightarrow> bool" where
  "entry_order xs rs \<longleftrightarrow> mset rs = mset xs \<and> sorted (map entry_at rs)"

lemma count_rows_mset: "mset xs = mset ys \<Longrightarrow> count_rows p xs = count_rows p ys"
  unfolding count_rows_def by (metis mset_filter size_mset)

lemma count_rows_butlast: "xs \<noteq> [] \<Longrightarrow> count_rows p xs = count_rows p (butlast xs) + (if p (last xs) then 1 else 0)"
  by (induction xs rule: rev_induct) (simp_all add: count_rows_def)

lemma last_entry_max:
  assumes "sorted (map entry_at rs)" and "r \<in> set rs"
  shows "entry_at r \<le> entry_at (last rs)"
  using assms by (induction rs rule: rev_induct) (auto simp: sorted_append)

lemma butlast_count_order:
  assumes "entry_order xs rs" and "entry_order xs rs'" and "rs' \<noteq> []"
    and "\<forall>r \<in> set rs. entry_at r = entry_at (last rs) \<longrightarrow> (outcome r = Some Loss \<longleftrightarrow> outcome (last rs) = Some Loss)"
  shows "count_rows (\<lambda>r. outcome r = Some Loss) (butlast rs') = count_rows (\<lambda>r. outcome r = Some Loss) (butlast rs)"
proof -
  have m: "mset rs = mset rs'" using assms(1,2) by (simp add: entry_order_def)
  have sets: "set rs = set rs'" using m by (rule mset_eq_setD)
  then have ne: "rs \<noteq> []" using assms(3) by auto
  have mem: "last rs' \<in> set rs" "last rs \<in> set rs'" using last_in_set [OF assms(3)] last_in_set [OF ne] by (simp_all only: sets)
  have "entry_at (last rs') = entry_at (last rs)"
    using last_entry_max [OF _ mem(1)] last_entry_max [OF _ mem(2)] assms(1,2) by (simp add: entry_order_def)
  then have "outcome (last rs') = Some Loss \<longleftrightarrow> outcome (last rs) = Some Loss" using assms(4) mem(1) by blast
  then show ?thesis
    using count_rows_mset [OF m, of "\<lambda>r. outcome r = Some Loss"]
      count_rows_butlast [OF ne, of "\<lambda>r. outcome r = Some Loss"] count_rows_butlast [OF assms(3), of "\<lambda>r. outcome r = Some Loss"]
    by simp
qed

section \<open>Properties\<close>

text \<open>
  C13: Handling the closing of every closed trade exactly once, in any order and starting from empty
  tables, gives for every user and emotion the number of closed trades won and lost in that mood,
  which is what the backfill computes in one statement.
\<close>

theorem WinRate_exactly_once:
  assumes "trades_ok s" and "faults s = []" and "user_emotion_metrics s = []" and "length (trades s) < 2 ^ 31"
    and "mset ts = mset (filter (\<lambda>r. status r = Closed) (trades s))"
  shows "\<forall>k. emotion_wins k (close_all ts s) = emotion_wins k (snd (backfillWinRateByEmotion s)) \<and>
    emotion_losses k (close_all ts s) = emotion_losses k (snd (backfillWinRateByEmotion s)) \<and>
    emotion_wins k (close_all ts s) =
      count_rows (\<lambda>r. status r = Closed \<and> user_id r = fst k \<and> emotional_state r = Some (snd k) \<and> outcome r = Some Win) (trades s) \<and>
    emotion_losses k (close_all ts s) =
      count_rows (\<lambda>r. status r = Closed \<and> user_id r = fst k \<and> emotional_state r = Some (snd k) \<and> outcome r = Some Loss) (trades s)"
proof -
  have cnt: "count_rows p ts = count_rows (\<lambda>r. status r = Closed \<and> p r) (trades s)" for p
  proof -
    have "size (filter_mset p (mset ts)) = size (filter_mset p (mset (filter (\<lambda>r. status r = Closed) (trades s))))"
      by (simp only: assms(5))
    then show ?thesis unfolding mset_filter [symmetric] size_mset by (simp add: count_rows_def conj_commute)
  qed
  have sub: "set ts \<subseteq> set (trades s)" using arg_cong [OF assms(5), of set_mset] by auto
  have "length ts \<le> length (trades s)"
    unfolding mset_eq_length [OF assms(5)] by simp
  then have room: "emotion_room (length ts) s"
    using assms(3,4) by (simp add: emotion_room_def emotion_wins_def emotion_losses_def)
  have dist: "distinct (map trade_id (trades s))" using assms(1) by (simp add: trades_ok_def)
  have zero: "emotion_wins k s = 0" "emotion_losses k s = 0" for k
    using assms(3) by (simp_all add: emotion_wins_def emotion_losses_def)
  have c: "emotion_wins k (close_all ts s) = count_rows (\<lambda>r. status r = Closed \<and> adds_win k r) (trades s) \<and>
    emotion_losses k (close_all ts s) = count_rows (\<lambda>r. status r = Closed \<and> adds_loss k r) (trades s)" for k
    using close_all_counts [OF assms(2) dist sub room, of k] by (simp add: zero cnt)
  obtain s' where "backfillWinRateByEmotion s = (Inr (), s')"
    "\<forall>k. emotion_wins k s' = count_rows (\<lambda>r. status r = Closed \<and> adds_win k r) (trades s) \<and>
         emotion_losses k s' = count_rows (\<lambda>r. status r = Closed \<and> adds_loss k r) (trades s)"
    using backfill_emotions [OF assms(2,4,3)] by blast
  moreover have "count_rows (\<lambda>r. status r = Closed \<and> adds_win k r) (trades s) =
      count_rows (\<lambda>r. status r = Closed \<and> user_id r = fst k \<and> emotional_state r = Some (snd k) \<and> outcome r = Some Win) (trades s)"
    "count_rows (\<lambda>r. status r = Closed \<and> adds_loss k r) (trades s) =
      count_rows (\<lambda>r. status r = Closed \<and> user_id r = fst k \<and> emotional_state r = Some (snd k) \<and> outcome r = Some Loss) (trades s)" for k
    by (rule count_rows_cong; auto simp: adds_win_def adds_loss_def)+
  ultimately show ?thesis using c by simp
qed

text \<open>
  C14: The tilt of a session whose closed trades belong to one user: the stored total is the number of its closed
  trades (open and cancelled ones are not counted), the losses followed are the number of those entered after a losing
  one, in an order of entry that the query may return its rows in; when the trades entered last, if there are
  several at that instant, were all losses or none was, it is that number in every order of entry. The tilt is
  the ratio of the two at four decimals and lies between 0 and 1; the other sessions and tables keep their values, and
  a session without closed trades changes nothing.
\<close>

theorem SessionTilt_value:
  assumes "faults s = []" and "length (trades s) < 2 ^ 31"
    and "cls = filter (\<lambda>r. session_id r = sid \<and> status r = Closed) (trades s)"
    and "\<forall>r \<in> set cls. user_id r = u"
  shows "\<exists>s'. SessionTilt_calc sid s = (Inr (), s') \<and>
    (if cls = [] then s' = s
     else (\<exists>row. tbl_lookup sm_session_id sid (session_metrics s') = Some row \<and>
             total_trades row = int (length cls) \<and>
             (\<exists>rs. entry_order cls rs \<and>
                loss_following_trades row = count_rows (\<lambda>r. outcome r = Some Loss) (butlast rs)) \<and>
             (\<forall>rs. entry_order cls rs \<and>
                (\<forall>r \<in> set rs. entry_at r = entry_at (last rs) \<longrightarrow> (outcome r = Some Loss \<longleftrightarrow> outcome (last rs) = Some Loss)) \<longrightarrow>
                loss_following_trades row = count_rows (\<lambda>r. outcome r = Some Loss) (butlast rs)) \<and>
             tilt_index row = numeric_round 4 (of_int (loss_following_trades row) / of_int (total_trades row)) \<and>
             0 \<le> tilt_index row \<and> tilt_index row \<le> 1)) \<and>
    (\<forall>k. k \<noteq> sid \<longrightarrow> tbl_lookup sm_session_id k (session_metrics s') = tbl_lookup sm_session_id k (session_metrics s)) \<and>
    trades s' = trades s \<and> user_metrics s' = user_metrics s \<and> user_emotion_metrics s' = user_emotion_metrics s \<and>
    overtrading_events s' = overtrading_events s"
proof (cases "cls = []")
  case True
  then have "groups_of sid s = []" using assms(3) by (simp add: groups_of_def session_trades_def)
  then have "SessionTilt_calc sid s = (Inr (), s)"
    using assms(1) by (simp add: SessionTilt_calc_def UpsertSessionTilt_def tilt_stmt_def tilt_groups_ok [OF assms(2)]
        db_simps store_tilts_def upsert_rows_def)
  with True show ?thesis by simp
next
  case False
  let ?rs = "session_trades sid s"
  have order: "entry_order cls ?rs" by (simp add: entry_order_def session_trades_def assms(3))
  then have rs: "length ?rs = length cls" "set ?rs = set cls"
    using mset_eq_length [of ?rs cls] mset_eq_setD [of ?rs cls] by (simp_all add: entry_order_def)
  have ne: "?rs \<noteq> []" using False rs(1) by auto
  have any: "count_rows (\<lambda>r. outcome r = Some Loss) (butlast ?rs) = count_rows (\<lambda>r. outcome r = Some Loss) (butlast rs)"
    if "entry_order cls rs \<and> (\<forall>r \<in> set rs. entry_at r = entry_at (last rs) \<longrightarrow>
      (outcome r = Some Loss \<longleftrightarrow> outcome (last rs) = Some Loss))" for rs
    using that order by (intro butlast_count_order [OF _ _ ne]) blast+
  obtain s' row where r: "SessionTilt_calc sid s = (Inr (), s')" "tbl_lookup sm_session_id sid (session_metrics s') = Some row"
      "total_trades row = int (length ?rs)" "loss_following_trades row = count_rows (\<lambda>r. outcome r = Some Loss) (butlast ?rs)"
      "tilt_index row = numeric_round 4 (of_int (loss_following_trades row) / of_int (total_trades row))"
      "0 \<le> tilt_index row" "tilt_index row \<le> 1"
    and rest: "\<forall>k. k \<noteq> sid \<longrightarrow> tbl_lookup sm_session_id k (session_metrics s') = tbl_lookup sm_session_id k (session_metrics s)"
      "trades s' = trades s" "user_metrics s' = user_metrics s" "user_emotion_metrics s' = user_emotion_metrics s"
      "overtrading_events s' = overtrading_events s"
    using tilt_single [OF assms(1,2) ne, of u] assms(4) rs(2) by blast
  have "\<exists>rs. entry_order cls rs \<and> loss_following_trades row = count_rows (\<lambda>r. outcome r = Some Loss) (butlast rs)"
    using order r(4) by blast
  moreover have "\<forall>rs. entry_order cls rs \<and>
      (\<forall>r \<in> set rs. entry_at r = entry_at (last rs) \<longrightarrow> (outcome r = Some Loss \<longleftrightarrow> outcome (last rs) = Some Loss)) \<longrightarrow>
      loss_following_trades row = count_rows (\<lambda>r. outcome r = Some Loss) (butlast rs)"
    using any unfolding r(4) by blast
  ultimately show ?thesis
    unfolding if_not_P [OF False] using r rest rs(1) by (intro exI [of _ s'] conjI exI [of _ row]) simp_all
qed

text \<open>
  C37: Two closed trades of different users under one session identifier, which the API accepts, make
  the recomputation of that session fail, whatever was stored before and however often it is
  retried; the backfill's statement over all sessions fails with it, and neither changes anything.
\<close>

theorem SessionTilt_mixed_session:
  assumes "faults s = []" and "length (trades s) < 2 ^ 31"
    and "a \<in> set (trades s)" and "b \<in> set (trades s)" and "session_id a = sid" and "session_id b = sid"
    and "status a = Closed" and "status b = Closed" and "user_id a \<noteq> user_id b"
  shows "SessionTilt_calc sid s = (Inl (Sql CardinalityViolation), s) \<and>
    backfillSessionTilt s = (Inl (Sql CardinalityViolation), s)"
proof
  have nd: "\<not> distinct (map sm_session_id (groups_of sid s))" using assms(3-9) by (rule mixed_groups)
  then show "SessionTilt_calc sid s = (Inl (Sql CardinalityViolation), s)" using assms(1,2) by (rule mixed_tilt)
  let ?sids = "remdups (map session_id (filter (\<lambda>r. status r = Closed) (trades s)))"
  have all: "concat (map (\<lambda>sid. tilt_groups sid s) ?sids) = map Inr (concat (map (\<lambda>sid. groups_of sid s) ?sids))"
    by (simp add: tilt_groups_ok [OF assms(2)] map_concat comp_def)
  have "sid \<in> set ?sids" using assms(3,5,7) by auto
  then obtain xs ys where sids: "?sids = xs @ sid # ys" by (meson split_list)
  have "\<not> distinct (map sm_session_id (concat (map (\<lambda>sid. groups_of sid s) ?sids)))"
    unfolding sids using nd by simp
  then have "all_tilts_stmt s = Inl CardinalityViolation"
    unfolding all_tilts_stmt_def all store_tilts_groups by (simp only: if_False)
  then show "backfillSessionTilt s = (Inl (Sql CardinalityViolation), s)"
    using assms(1) by (simp add: backfillSessionTilt_def db_simps)
qed

section \<open>Examples\<close>

theorem WinRate_exactly_once_witness:
  "emotion_losses (2, Calm) (close_all (rev (trades two_trades)) two_trades) = 1"
proof -
  have "user_emotion_metrics two_trades = []" "length (trades two_trades) < 2 ^ 31"
    "mset (rev (trades two_trades)) = mset (filter (\<lambda>r. status r = Closed) (trades two_trades))"
    by (simp_all add: two_trades_def closed_row_def)
  note spec [OF WinRate_exactly_once [OF two_trades_ok two_trades_faults this], of "(2, Calm)"]
  moreover have "count_rows (\<lambda>r. status r = Closed \<and> user_id r = fst (2, Calm) \<and>
      emotional_state r = Some (snd (2 :: uuid, Calm)) \<and> outcome r = Some Loss) (trades two_trades) = 1"
    by (simp add: two_trades_def closed_row_def)
  ultimately show ?thesis by (elim conjE) (simp only:)
qed

theorem SessionTilt_value_witness:
  "\<exists>s' row. SessionTilt_calc 3 two_trades = (Inr (), s') \<and>
     tbl_lookup sm_session_id 3 (session_metrics s') = Some row \<and> loss_following_trades row = 1 \<and> total_trades row = 2"
proof -
  let ?ts = "trades two_trades"
  have closed: "?ts = filter (\<lambda>r. session_id r = 3 \<and> status r = Closed) ?ts" "\<forall>r \<in> set ?ts. user_id r = 2"
    "length ?ts < 2 ^ 31" "?ts \<noteq> []" "length ?ts = 2" by (simp_all add: two_trades_def closed_row_def)
  have order: "entry_order ?ts ?ts \<and> (\<forall>r \<in> set ?ts. entry_at r = entry_at (last ?ts) \<longrightarrow>
      (outcome r = Some Loss \<longleftrightarrow> outcome (last ?ts) = Some Loss))"
    by (simp add: entry_order_def two_trades_def closed_row_def)
  have cnt: "count_rows (\<lambda>r. outcome r = Some Loss) (butlast ?ts) = 1"
    by (simp add: two_trades_def closed_row_def count_rows_def)
  from SessionTilt_value [OF two_trades_faults closed(3,1,2)]
  obtain s' row where "SessionTilt_calc 3 two_trades = (Inr (), s')"
    "tbl_lookup sm_session_id 3 (session_metrics s') = Some row" "total_trades row = int (length ?ts)"
    "\<forall>rs. entry_order ?ts rs \<and> (\<forall>r \<in> set rs. entry_at r = entry_at (last rs) \<longrightarrow>
        (outcome r = Some Loss \<longleftrightarrow> outcome (last rs) = Some Loss)) \<longrightarrow>
      loss_following_trades row = count_rows (\<lambda>r. outcome r = Some Loss) (butlast rs)"
    using closed(4) by (simp only: if_False) blast
  with order cnt closed(5) show ?thesis by fastforce
qed

definition mixed_db :: db where
  "mixed_db = empty_db\<lparr>trades := [closed_row 1 4 1000 Loss Calm, (closed_row 2 1 3000 Win Anxious)\<lparr>user_id := 7\<rparr>]\<rparr>"

theorem SessionTilt_mixed_session_witness:
  "SessionTilt_calc 3 mixed_db = (Inl (Sql CardinalityViolation), mixed_db)"
  using SessionTilt_mixed_session [of mixed_db "closed_row 1 4 1000 Loss Calm"
      "(closed_row 2 1 3000 Win Anxious)\<lparr>user_id := 7\<rparr>" 3]
  by (simp add: mixed_db_def closed_row_def)

end
