(* ===== verification/Redelivery.thy ===== *)
theory Redelivery imports Delivery Emotion_Tilt begin

text \<open>
  What redelivery means for the metrics: when a message is acknowledged, and what a message that keeps
  failing leaves behind.
\<close>

section \<open>Acknowledgement\<close>

definition settles :: "'q redis \<Rightarrow> consumer \<Rightarrow> 'q view \<Rightarrow> bool" where
  "settles R c v \<longleftrightarrow> (\<forall>i n q. v q i = Owed n \<longrightarrow> v (snd (xack R (c_stream c) (c_group c) i q)) i = Settled)"

lemma Ack_settles:
  assumes "settles R c v" and "msg_stream m = c_stream c" and "msg_group m = c_group c" and "v q (msg_id m) = Owed n"
  shows "v (snd (Ack R m q)) (msg_id m) = Settled"
proof -
  have "snd (Ack R m q) = snd (xack R (c_stream c) (c_group c) (msg_id m) q)"
    using assms(2,3) by (simp add: Ack_def split: prod.split sum.split)
  with assms(1,4) show ?thesis by (auto simp: settles_def)
qed

text \<open>
  C16: the acknowledgement rule of \<open>handle\<close>, with a server that carries acknowledgements out: an owed
  message stays owed exactly when it was delivered fewer than five times, a calculator failed, and the
  event was not malformed; in every other case it is settled, and a dead-lettered message leaves the
  database alone.
\<close>
theorem handle_acknowledges:
  assumes "quiet_law (redis_of W) (run_ctx W) v" and "settles (redis_of W) (consumer_of W) v"
    and "msg_stream m = c_stream (consumer_of W)" and "msg_group m = c_group (consumer_of W)"
    and "v q (msg_id m) = Owed n" and "process W m (s, q) = ((failed, malformed), s1, q1)"
  shows "v (snd (handle W m (s, q))) (msg_id m) =
      (if msg_deliveries m < 5 \<and> 0 < failed \<and> \<not> malformed then Owed n else Settled) \<and>
    fst (handle W m (s, q)) = (if 5 \<le> msg_deliveries m then s else s1)"
proof (cases "maxDeliveries \<le> msg_deliveries m")
  case True
  then show ?thesis
    using Ack_settles [where c = "consumer_of W", OF assms(2-5)] by (simp add: handle_def handle_with_ends maxDeliveries_def)
next
  case False
  have q1: "v q1 = v q" using process_quiet [OF assms(1), of m s q] by (simp add: assms(6))
  then have "v (snd (Ack (redis_of W) m q1)) (msg_id m) = Settled"
    using assms(5) by (intro Ack_settles [OF assms(2-4)]) simp
  moreover have "handle W m (s, q) = (s1, if 0 < failed \<and> \<not> malformed then q1 else snd (Ack (redis_of W) m q1))"
    unfolding handle_def using False assms(6) by (rule handle_with_ends(2))
  ultimately show ?thesis using False q1 assms(5) by (simp add: maxDeliveries_def)
qed

section \<open>A message that keeps failing\<close>

text \<open>
  A server on which one entry is all that is pending: after the wait \<open>w\<close>, in which only clocks move, the
  recovery finds it idle and claims it; acknowledged, it is gone.
\<close>

definition redelivers ::
    "'q worker \<Rightarrow> 'q view \<Rightarrow> ('q \<Rightarrow> bool) \<Rightarrow> string \<Rightarrow> fields \<Rightarrow> (db \<times> 'q \<Rightarrow> db \<times> 'q) \<Rightarrow> bool" where
  "redelivers W v only i f w \<longleftrightarrow> (let R = redis_of W; c = consumer_of W in
     (\<forall>s q. \<exists>t. fst (w (s, q)) = s\<lparr>clock := t\<rparr>) \<and>
     (\<forall>s q n. only q \<longrightarrow> v q i = Owed n \<longrightarrow>
        (\<exists>q1 q2. xpending_ext R (c_stream c) (c_group c) stuckIdleTime batchSize (snd (w (s, q))) =
             (Inr [\<lparr>pend_id = i, pend_retry_count = int n\<rparr>], q1) \<and>
           xclaim R (c_stream c) (c_group c) (c_name c) stuckIdleTime [i] q1 = (Inr [(i, f)], q2) \<and>
           only q2 \<and> v q2 i = Owed (Suc n))) \<and>
     (\<forall>s q. only q \<longrightarrow> v q i = Settled \<longrightarrow>
        (\<exists>q1. xpending_ext R (c_stream c) (c_group c) stuckIdleTime batchSize (snd (w (s, q))) = (Inr [], q1) \<and>
           only q1 \<and> v q1 i = Settled)) \<and>
     (\<forall>q n. only q \<longrightarrow> v q i = Owed n \<longrightarrow>
        only (snd (xack R (c_stream c) (c_group c) i q)) \<and> v (snd (xack R (c_stream c) (c_group c) i q)) i = Settled))"

fun rounds :: "'q worker \<Rightarrow> (db \<times> 'q \<Rightarrow> db \<times> 'q) \<Rightarrow> nat \<Rightarrow> db \<times> 'q \<Rightarrow> db \<times> 'q" where
  "rounds W w 0 sq = sq"
| "rounds W w (Suc k) sq = recoverStuck W (w (rounds W w k sq))"

text \<open>The closed trade \<open>t\<close> of a session in which another user also closed a trade.\<close>

definition mixed :: "trade_row \<Rightarrow> db \<Rightarrow> bool" where
  "mixed t s \<longleftrightarrow> t \<in> set (trades s) \<and> status t = Closed \<and>
     (\<exists>b \<in> set (trades s). status b = Closed \<and> session_id b = session_id t \<and> user_id b \<noteq> user_id t)"

definition closed_event :: "platform \<Rightarrow> trade_row \<Rightarrow> instant \<Rightarrow> event" where
  "closed_event P t x = \<lparr>ev_type = EventTradeClosed, ev_trade_id = show_uuid P (trade_id t),
     ev_user_id = show_uuid P (user_id t), ev_session_id = show_uuid P (session_id t), ev_occurred_at = x\<rparr>"

text \<open>The state after \<open>k\<close> attempts, the counters beginning at those of \<open>s0\<close>.\<close>

definition tried_times :: "trade_row \<Rightarrow> db \<Rightarrow> nat \<Rightarrow> db \<Rightarrow> bool" where
  "tried_times t s0 k s \<longleftrightarrow> faults s = [] \<and> trades s = trades s0 \<and> emotion_room (5 - k) s \<and>
     (\<forall>e. emotion_wins e s = emotion_wins e s0 + int k * (if adds_win e t then 1 else 0) \<and>
          emotion_losses e s = emotion_losses e s0 + int k * (if adds_loss e t then 1 else 0))"

lemma emotion_counts_cong:
  "user_emotion_metrics s' = user_emotion_metrics s \<Longrightarrow>
     emotion_wins e s' = emotion_wins e s \<and> emotion_losses e s' = emotion_losses e s \<and> emotion_room n s' = emotion_room n s"
  by (simp add: emotion_wins_def emotion_losses_def emotion_room_def)

lemma tried_times_clock: "tried_times t s0 k s \<Longrightarrow> tried_times t s0 k (s\<lparr>clock := c\<rparr>)"
  using emotion_counts_cong [of "s\<lparr>clock := c\<rparr>" s] by (simp add: tried_times_def)

lemma tried_times_step:
  assumes "tried_times t s0 k s" and "k < 5"
    and "trades_ok s0" and "length (trades s0) < 2 ^ 31" and "mixed t s0"
    and "uuid_codec (platform_of W)" and "shortest_decimals (platform_of W)"
    and "msg_event m = closed_event (platform_of W) t x"
  shows "\<exists>s'. process W m (s, q) = ((1, False), s', q) \<and> tried_times t s0 (Suc k) s'"
proof -
  let ?P = "platform_of W"
  from assms(1) have s: "faults s = []" "trades s = trades s0" "emotion_room (5 - k) s"
    and cnt: "\<And>e. emotion_wins e s = emotion_wins e s0 + int k * (if adds_win e t then 1 else 0) \<and>
          emotion_losses e s = emotion_losses e s0 + int k * (if adds_loss e t then 1 else 0)"
    by (auto simp: tried_times_def)
  have ok: "trades_ok s" using assms(3) s(2) by (simp add: trades_ok_def)
  from assms(5) obtain b where t: "t \<in> set (trades s)" "status t = Closed" and b: "b \<in> set (trades s)" "status b = Closed"
    "session_id b = session_id t" "user_id b \<noteq> user_id t" by (auto simp: mixed_def s(2))
  define s1 where "s1 = snd (PlanAdherence_calc ?P (user_id t) s)"
  have r1: "PlanAdherence_calc ?P (user_id t) s = (Inr (), s1)"
    and f1: "faults s1 = []" "trades s1 = trades s" "user_emotion_metrics s1 = user_emotion_metrics s"
    using PlanAdherence_healthy [OF ok s(1) assms(7), of "user_id t"] s(1) by (simp_all add: s1_def store_score_def)
  have "tbl_lookup trade_id (trade_id t) (trades s1) = Some t"
    using ok t(1) f1(2) by (simp add: trades_ok_def tbl_lookup_distinct)
  moreover have "emotion_room (Suc (4 - k)) s1"
    using emotion_counts_cong [OF f1(3)] s(3) assms(2) by (simp add: Suc_diff_le [symmetric])
  ultimately obtain s2 where r2: "WinRateByEmotion_calc (trade_id t) (user_id t) s1 = (Inr (), s2)"
    and f2: "faults s2 = []" "trades s2 = trades s1" "emotion_room (4 - k) s2"
    and c2: "\<And>e. emotion_wins e s2 = emotion_wins e s1 + (if adds_win e t then 1 else 0) \<and>
         emotion_losses e s2 = emotion_losses e s1 + (if adds_loss e t then 1 else 0)"
    using WinRate_step [OF f1(1), of t "4 - k"] by blast
  have r3: "SessionTilt_calc (session_id t) s2 = (Inl (Sql CardinalityViolation), s2)"
  proof (rule mixed_tilt)
    show "\<not> distinct (map sm_session_id (groups_of (session_id t) s2))"
      using t b f1(2) f2(2) by (intro mixed_groups [of t s2 b]) auto
  qed (use f1(2) f2 s(2) assms(4) in simp_all)
  have "process W m (s, q) = ((1, False), s2, q)"
    using assms(6,8) r1 r2 r3
    by (simp add: process_def closed_event_def event_types uuid_codec_def process_closed_def failures_def Let_def)
  moreover have "tried_times t s0 (Suc k) s2"
    unfolding tried_times_def
  proof (intro conjI allI)
    show "faults s2 = []" "trades s2 = trades s0" using f2 f1(2) s(2) by simp_all
    show "emotion_room (5 - Suc k) s2" using f2(3) by simp
    fix e
    have "emotion_wins e s1 = emotion_wins e s" "emotion_losses e s1 = emotion_losses e s"
      using emotion_counts_cong [OF f1(3)] by blast+
    then show "emotion_wins e s2 = emotion_wins e s0 + int (Suc k) * (if adds_win e t then 1 else 0)"
      "emotion_losses e s2 = emotion_losses e s0 + int (Suc k) * (if adds_loss e t then 1 else 0)"
      using c2 [of e] cnt [of e] by (cases "adds_win e t"; cases "adds_loss e t"; simp)+
  qed
  ultimately show ?thesis by blast
qed

lemma recover_one:
  assumes "redelivers W v only i f w" and "only q" and "v q i = Owed n" and "decodeValues f = Inr ev" and "1 \<le> n"
  shows "\<exists>c q2. only q2 \<and> v q2 i = Owed (Suc n) \<and> recoverStuck W (w (s, q)) =
    handle W \<lparr>msg_id = i, msg_stream = c_stream (consumer_of W), msg_group = c_group (consumer_of W), msg_event = ev,
       msg_deliveries = int n\<rparr> (s\<lparr>clock := c\<rparr>, q2)"
proof -
  let ?R = "redis_of W" and ?c = "consumer_of W"
  from assms(1) obtain t where t: "fst (w (s, q)) = s\<lparr>clock := t\<rparr>" unfolding redelivers_def Let_def by blast
  from assms(1-3) obtain q1 q2 where x: "xpending_ext ?R (c_stream ?c) (c_group ?c) stuckIdleTime batchSize (snd (w (s, q))) =
        (Inr [\<lparr>pend_id = i, pend_retry_count = int n\<rparr>], q1)"
      "xclaim ?R (c_stream ?c) (c_group ?c) (c_name ?c) stuckIdleTime [i] q1 = (Inr [(i, f)], q2)"
      "only q2" "v q2 i = Owed (Suc n)"
    unfolding redelivers_def Let_def by blast
  have "ClaimStuck ?R ?c stuckIdleTime batchSize (snd (w (s, q))) =
      (Inr [\<lparr>msg_id = i, msg_stream = c_stream ?c, msg_group = c_group ?c, msg_event = ev, msg_deliveries = int n\<rparr>], q2)"
    using x assms(4) by (simp add: ClaimStuck_def delivery_count_def)
  then show ?thesis
    using x(3,4) t by (intro exI [of _ t] exI [of _ q2]) (simp add: recoverStuck_def recover_with_def split_beta)
qed

lemma handle_failing:
  assumes "redelivers W v only i f w" and "only q" and "v q i = Owed k" and "1 \<le> n" and "n \<le> k" and "tried_times t s0 n s"
    and "trades_ok s0" and "length (trades s0) < 2 ^ 31" and "mixed t s0"
    and "uuid_codec (platform_of W)" and "shortest_decimals (platform_of W)"
    and "msg_event m = closed_event (platform_of W) t x" and "msg_deliveries m = int n" and "msg_id m = i"
    and "msg_stream m = c_stream (consumer_of W)" and "msg_group m = c_group (consumer_of W)"
  shows "\<exists>s' q'. handle W m (s, q) = (s', q') \<and> only q' \<and>
    (if n < 5 then v q' i = Owed k \<and> tried_times t s0 (Suc n) s' else v q' i = Settled \<and> s' = s)"
proof (cases "n < 5")
  case True
  then obtain s' where s': "process W m (s, q) = ((1, False), s', q)" "tried_times t s0 (Suc n) s'"
    using tried_times_step [OF assms(6) _ assms(7-12)] by blast
  have "\<not> maxDeliveries \<le> msg_deliveries m" using True assms(13) by (simp add: maxDeliveries_def)
  from handle_with_ends(2) [where proc = "process W", OF this s'(1)] have "handle W m (s, q) = (s', q)"
    by (simp add: handle_def)
  with s'(2) True assms(2,3) show ?thesis by simp
next
  case False
  then have "handle W m (s, q) = (s, snd (Ack (redis_of W) m q))"
    using assms(13) by (simp add: handle_def handle_with_ends(1) maxDeliveries_def)
  moreover have "snd (Ack (redis_of W) m q) = snd (xack (redis_of W) (c_stream (consumer_of W)) (c_group (consumer_of W)) i q)"
    using assms(14-16) by (simp add: Ack_def split: prod.split sum.split)
  moreover have "only (snd (xack (redis_of W) (c_stream (consumer_of W)) (c_group (consumer_of W)) i q)) \<and>
      v (snd (xack (redis_of W) (c_stream (consumer_of W)) (c_group (consumer_of W)) i q)) i = Settled"
    using assms(1-3) unfolding redelivers_def Let_def by blast
  ultimately show ?thesis using False by simp
qed

lemma rounds_state:
  assumes "redelivers W v only i f w" and "only q1" and "v q1 i = Owed 1" and "tried_times t s0 1 s1"
    and "trades_ok s0" and "length (trades s0) < 2 ^ 31" and "mixed t s0"
    and "uuid_codec (platform_of W)" and "shortest_decimals (platform_of W)"
    and "decodeValues f = Inr (closed_event (platform_of W) t x)"
  shows "\<exists>s q. rounds W w k (s1, q1) = (s, q) \<and> only q \<and>
    (if k < 5 then v q i = Owed (Suc k) \<and> tried_times t s0 (Suc k) s else v q i = Settled \<and> tried_times t s0 5 s)"
proof (induction k)
  case 0
  with assms(2-4) show ?case by simp
next
  case (Suc k)
  then obtain s q where sq: "rounds W w k (s1, q1) = (s, q)" "only q"
    and st: "if k < 5 then v q i = Owed (Suc k) \<and> tried_times t s0 (Suc k) s else v q i = Settled \<and> tried_times t s0 5 s" by blast
  show ?case
  proof (cases "k < 5")
    case True
    with st have o: "v q i = Owed (Suc k)" "tried_times t s0 (Suc k) s" by simp_all
    have le: "1 \<le> Suc k" by simp
    obtain c q2 where r: "only q2" "v q2 i = Owed (Suc (Suc k))" "recoverStuck W (w (s, q)) =
        handle W \<lparr>msg_id = i, msg_stream = c_stream (consumer_of W), msg_group = c_group (consumer_of W),
          msg_event = closed_event (platform_of W) t x, msg_deliveries = int (Suc k)\<rparr> (s\<lparr>clock := c\<rparr>, q2)"
      using recover_one [OF assms(1) sq(2) o(1) assms(10) le, of s] by blast
    let ?m = "\<lparr>msg_id = i, msg_stream = c_stream (consumer_of W), msg_group = c_group (consumer_of W),
          msg_event = closed_event (platform_of W) t x, msg_deliveries = int (Suc k)\<rparr>"
    have "\<exists>s' q'. handle W ?m (s\<lparr>clock := c\<rparr>, q2) = (s', q') \<and> only q' \<and>
       (if Suc k < 5 then v q' i = Owed (Suc (Suc k)) \<and> tried_times t s0 (Suc (Suc k)) s'
        else v q' i = Settled \<and> s' = s\<lparr>clock := c\<rparr>)"
      by (rule handle_failing [OF assms(1) r(1,2) _ _ tried_times_clock [OF o(2)] assms(5-9)]) simp_all
    then obtain s' q' where h: "handle W ?m (s\<lparr>clock := c\<rparr>, q2) = (s', q')" "only q'"
      "if Suc k < 5 then v q' i = Owed (Suc (Suc k)) \<and> tried_times t s0 (Suc (Suc k)) s'
        else v q' i = Settled \<and> s' = s\<lparr>clock := c\<rparr>" by blast
    have "rounds W w (Suc k) (s1, q1) = (s', q')" using sq(1) r(3) h(1) by simp
    moreover have "Suc k = 5 \<Longrightarrow> tried_times t s0 5 (s\<lparr>clock := c\<rparr>)" using tried_times_clock [OF o(2), of c] by simp
    ultimately show ?thesis using h(2,3) True by (cases "Suc k < 5") (auto simp: not_less)
  next
    case False
    with st have o: "v q i = Settled" "tried_times t s0 5 s" by simp_all
    from assms(1) obtain c where c: "fst (w (s, q)) = s\<lparr>clock := c\<rparr>" unfolding redelivers_def Let_def by blast
    from assms(1) sq(2) o(1) obtain q2 where "xpending_ext (redis_of W) (c_stream (consumer_of W)) (c_group (consumer_of W))
        stuckIdleTime batchSize (snd (w (s, q))) = (Inr [], q2)" "only q2" "v q2 i = Settled"
      unfolding redelivers_def Let_def by blast
    then have "rounds W w (Suc k) (s1, q1) = (s\<lparr>clock := c\<rparr>, q2)" "only q2" "v q2 i = Settled"
      using sq(1) c by (simp_all add: recoverStuck_def recover_with_def ClaimStuck_def split_beta)
    then show ?thesis using False tried_times_clock [OF o(2)] by simp
  qed
qed

text \<open>
  C33: at-least-once delivery meets counters that are not idempotent. When two users share a session
  identifier, the event of a closed trade fails in the tilt calculator at every delivery. With a healthy
  database and a server that redelivers it, the worker processes it at the first read and in four recovery
  rounds, dead-letters it in the fifth, and does nothing afterwards; by then the trade is counted five
  times in the win rate of its emotion.
\<close>
theorem poison_counts_five_times:
  assumes "redelivers W v only i f w" and "only q" and "v q i = Owed 1"
    and "trades_ok s" and "faults s = []" and "length (trades s) < 2 ^ 31" and "emotion_room 5 s"
    and "t \<in> set (trades s)" and "status t = Closed"
    and "b \<in> set (trades s)" and "status b = Closed" and "session_id b = session_id t" and "user_id b \<noteq> user_id t"
    and "uuid_codec (platform_of W)" and "shortest_decimals (platform_of W)"
    and "decodeValues f = Inr ev"
    and "ev = \<lparr>ev_type = EventTradeClosed, ev_trade_id = show_uuid (platform_of W) (trade_id t),
       ev_user_id = show_uuid (platform_of W) (user_id t), ev_session_id = show_uuid (platform_of W) (session_id t),
       ev_occurred_at = x\<rparr>"
    and "m = \<lparr>msg_id = i, msg_stream = c_stream (consumer_of W), msg_group = c_group (consumer_of W), msg_event = ev,
       msg_deliveries = 1\<rparr>"
    and "rounds W w k (handle W m (s, q)) = (s', q')"
  shows "v q' i = (if k < 5 then Owed (Suc k) else Settled) \<and>
    emotion_wins e s' = emotion_wins e s + int (min 5 (Suc k)) * (if adds_win e t then 1 else 0) \<and>
    emotion_losses e s' = emotion_losses e s + int (min 5 (Suc k)) * (if adds_loss e t then 1 else 0)"
proof -
  have mixed: "mixed t s" using assms(8-13) by (auto simp: mixed_def)
  have ev: "ev = closed_event (platform_of W) t x" by (simp add: assms(17) closed_event_def)
  have "tried_times t s 0 s" using assms(5,7) by (simp add: tried_times_def)
  from tried_times_step [OF this _ assms(4,6) mixed assms(14,15), of m x q]
  obtain s1 where s1: "process W m (s, q) = ((1, False), s1, q)" "tried_times t s 1 s1" by (auto simp: assms(18) ev)
  have "\<not> maxDeliveries \<le> msg_deliveries m" by (simp add: assms(18) maxDeliveries_def)
  from handle_with_ends(2) [where proc = "process W", OF this s1(1)] have "handle W m (s, q) = (s1, q)"
    by (simp add: handle_def)
  with assms(19) have r: "rounds W w k (s1, q) = (s', q')" by simp
  from rounds_state [OF assms(1-3) s1(2) assms(4,6) mixed assms(14,15) assms(16) [unfolded ev], of k] r
  have "if k < 5 then v q' i = Owed (Suc k) \<and> tried_times t s (Suc k) s' else v q' i = Settled \<and> tried_times t s 5 s'"
    by auto
  moreover have "emotion_wins e s' = emotion_wins e s + int n * (if adds_win e t then 1 else 0) \<and>
      emotion_losses e s' = emotion_losses e s + int n * (if adds_loss e t then 1 else 0)" if "tried_times t s n s'" for n
    using that unfolding tried_times_def by blast
  ultimately show ?thesis by (cases "k < 5") (auto simp: min_def)
qed

section \<open>Examples\<close>

lemma ref_settles: "settles ref_redis c sv_slot"
  by (simp add: settles_def)

definition sample_message :: message where
  "sample_message = \<lparr>msg_id = ''1'', msg_stream = ''s'', msg_group = ''g'', msg_event = sample_event, msg_deliveries = 1\<rparr>"

text \<open>The identifiers of the sample event are malformed: it is dropped.\<close>

theorem handle_acknowledges_witness:
  "sv_slot (snd (handle ref_worker sample_message (empty_db, one_entry Map.empty (Owed 1)))) ''1'' = Settled"
proof -
  have "process ref_worker sample_message (empty_db, one_entry Map.empty (Owed 1)) =
      ((0, True), empty_db, one_entry Map.empty (Owed 1))"
    by (simp add: process_def sample_message_def sample_event_def event_types ref_platform_def Let_def)
  from handle_acknowledges [OF _ _ _ _ _ this, of sv_slot 1] show ?thesis
    using ref_laws ref_settles by (simp add: sample_message_def)
qed

text \<open>Thirty seconds pass.\<close>

definition half_minute :: "db \<times> server \<Rightarrow> db \<times> server" where
  "half_minute sq = (case sq of (s, q) \<Rightarrow>
     (s\<lparr>clock := clock s + 30 * 10 ^ 9\<rparr>, q\<lparr>sv_now := max (sv_now q) (sv_last q ''1'') + 30 * 10 ^ 9\<rparr>))"

definition only_one :: "fields \<Rightarrow> server \<Rightarrow> bool" where
  "only_one f q \<longleftrightarrow> sv_log q = [(''1'', f)]"

lemma ref_redelivers: "redelivers ref_worker sv_slot (only_one f) ''1'' f half_minute"
proof -
  have ids: "idle_ids stuckIdleTime [''1''] (snd (half_minute (s, q))) = (if count_of (sv_slot q ''1'') = None then [] else [''1''])" for s q
    by (simp add: idle_ids_def half_minute_def stuckIdleTime_def)
  have log: "sv_log (snd (half_minute (s, q))) = sv_log q" "sv_slot (snd (half_minute (s, q))) = sv_slot q" for s q
    by (simp_all add: half_minute_def)
  have one: "sv_ids q = [''1'']" "sv_fields q ''1'' = f" if "only_one f q" for q
    using that by (simp_all add: only_one_def sv_ids_def sv_fields_def)
  have keep: "only_one f (snd (half_minute (s, q))) = only_one f q" for s q by (simp add: only_one_def log)
  have bs: "take (nat batchSize) [''1''] = [''1'']" by (simp add: batchSize_def)
  have "\<exists>q1 q2. sv_pending stuckIdleTime batchSize (snd (half_minute (s, q))) = (Inr [\<lparr>pend_id = ''1'', pend_retry_count = int n\<rparr>], q1) \<and>
      sv_claim stuckIdleTime [''1''] q1 = (Inr [(''1'', f)], q2) \<and> only_one f q2 \<and> sv_slot q2 ''1'' = Owed (Suc n)"
    if "only_one f q" "sv_slot q ''1'' = Owed n" for s q n
    using that one [of "snd (half_minute (s, q))"] ids [of s q] bs
    by (simp add: keep sv_pending_def sv_claim_def Let_def log) (simp add: only_one_def deliver_def log)
  moreover have "\<exists>q1. sv_pending stuckIdleTime batchSize (snd (half_minute (s, q))) = (Inr [], q1) \<and> only_one f q1 \<and> sv_slot q1 ''1'' = Settled"
    if "only_one f q" "sv_slot q ''1'' = Settled" for s q
    using that one [of "snd (half_minute (s, q))"] ids [of s q]
    by (simp add: keep sv_pending_def log)
  moreover have "\<exists>t. fst (half_minute (s, q)) = s\<lparr>clock := t\<rparr>" for s q
    by (auto simp: half_minute_def)
  ultimately show ?thesis unfolding redelivers_def Let_def by (simp add: only_one_def)
qed

text \<open>The winning trade of user 7, made in an anxious mood, in a session of user 2.\<close>

definition anxious_win :: trade_row where
  "anxious_win = (closed_row 2 1 3000 Win Anxious)\<lparr>user_id := 7\<rparr>"

theorem poison_counts_five_times_witness:
  "emotion_wins (7, Anxious) (fst (rounds ref_worker half_minute 9 (handle ref_worker
      \<lparr>msg_id = ''1'', msg_stream = ''s'', msg_group = ''g'',
       msg_event = (closed_event ref_platform anxious_win 0), msg_deliveries = 1\<rparr>
      (mixed_db, one_entry (event_fields (closed_event ref_platform anxious_win 0)) (Owed 1))))) = 5"
proof -
  let ?ev = "closed_event ref_platform anxious_win 0"
  let ?q = "one_entry (event_fields ?ev) (Owed 1)"
  let ?m = "\<lparr>msg_id = ''1'', msg_stream = ''s'', msg_group = ''g'', msg_event = ?ev, msg_deliveries = 1\<rparr>"
  have year: "year_of 0 = 1970" by code_simp
  have dec: "decodeValues (event_fields ?ev) = Inr ?ev"
    by (simp add: decode_event_fields year closed_event_def ms_floor_def)
  have db: "trades_ok mixed_db" "faults mixed_db = []" "length (trades mixed_db) < 2 ^ 31" "emotion_room 5 mixed_db"
    "anxious_win \<in> set (trades mixed_db)" "closed_row 1 4 1000 Loss Calm \<in> set (trades mixed_db)"
    by (simp_all add: trades_ok_def mixed_db_def anxious_win_def closed_row_def trade_checks_def emotion_room_def
        emotion_wins_def emotion_losses_def)
  have only: "only_one (event_fields ?ev) ?q" by (simp add: only_one_def one_entry_def)
  obtain s' q' where r: "rounds ref_worker half_minute 9 (handle ref_worker ?m (mixed_db, ?q)) = (s', q')" by fastforce
  have "sv_slot q' ''1'' = (if (9::nat) < 5 then Owed (Suc 9) else Settled) \<and>
    emotion_wins (7, Anxious) s' = emotion_wins (7, Anxious) mixed_db + int (min 5 (Suc 9)) * (if adds_win (7, Anxious) anxious_win then 1 else 0) \<and>
    emotion_losses (7, Anxious) s' = emotion_losses (7, Anxious) mixed_db + int (min 5 (Suc 9)) * (if adds_loss (7, Anxious) anxious_win then 1 else 0)"
    by (rule poison_counts_five_times [OF ref_redelivers only _ db(1-5) _ db(6) _ _ _ _ _ dec _ _ r])
       (simp_all add: ref_uuid_codec ref_shortest closed_event_def anxious_win_def closed_row_def)
  then show ?thesis using r
    by (simp add: adds_win_def anxious_win_def closed_row_def emotion_wins_def mixed_db_def)
qed

end
