(* ===== verification/Trade_Handler.thy ===== *)
theory Trade_Handler imports Httpx Redelivery begin

text \<open>
  The trade endpoints of \<open>internal/trades/handler.go\<close>: \<open>create\<close>, \<open>get\<close> and the event a stored trade
  is announced by. The goroutine that publishes runs later, as \<open>publish_task\<close>.
\<close>

section \<open>The handlers\<close>

definition eventFor :: "platform \<Rightarrow> trade \<Rightarrow> event" where
  "eventFor P t =
     (case (if Status t = ''closed'' then ExitAt t else None) of
        Some x \<Rightarrow> \<lparr>ev_type = EventTradeClosed, ev_trade_id = show_uuid P (TradeID t), ev_user_id = show_uuid P (UserID t),
          ev_session_id = show_uuid P (SessionID t), ev_occurred_at = x\<rparr>
      | None \<Rightarrow> \<lparr>ev_type = EventTradeOpened, ev_trade_id = show_uuid P (TradeID t), ev_user_id = show_uuid P (UserID t),
          ev_session_id = show_uuid P (SessionID t), ev_occurred_at = EntryAt t\<rparr>)"

definition create :: "platform \<Rightarrow> bool \<Rightarrow> handler" where
  "create P has_producer r w =
     (case r_body r of
        Inl e \<Rightarrow> respond (WriteError r 400 ''BAD_REQUEST'' (''Malformed JSON body: '' @ e)) w
      | Inr inp \<Rightarrow>
          (case validate inp of
             Some e \<Rightarrow> respond (WriteError r 400 ''BAD_REQUEST'' (error_text e)) w
           | None \<Rightarrow>
               (case ctx_UserID (r_context r) of
                  None \<Rightarrow> respond (WriteError r 401 ''UNAUTHORIZED'' ''Missing authenticated user.'') w
                | Some tokenUID \<Rightarrow>
                    if tokenUID \<noteq> UserID inp
                    then respond (WriteError r 403 ''FORBIDDEN'' ''Cross-tenant write denied.'') w
                    else (case Insert P inp (web_db w) of
                            (Inl e, s) \<Rightarrow>
                              respond (WriteError r 500 ''INTERNAL_ERROR'' ''Could not persist trade.'')
                                (log_line Error (Logger_of (r_context r)) ''trade insert failed'' [(''err'', AErr e)]
                                  (w\<lparr>web_db := s\<rparr>))
                          | (Inr (t, inserted), s) \<Rightarrow>
                              respond (WriteJSON 200 (JTrade t))
                                (w\<lparr>web_db := s,
                                   web_tasks := web_tasks w @ (if has_producer \<and> inserted then [eventFor P t] else [])\<rparr>)))))"

definition get :: "platform \<Rightarrow> handler" where
  "get P r w =
     (case parse_uuid P (r_param r ''tradeId'') of
        None \<Rightarrow> respond (WriteError r 400 ''BAD_REQUEST'' ''tradeId path parameter must be a UUID.'') w
      | Some i \<Rightarrow>
          (let tokenUID = (case ctx_UserID (r_context r) of None \<Rightarrow> uuid_nil | Some u \<Rightarrow> u)
           in case Get P i (web_db w) of
                (Inl e, s) \<Rightarrow>
                  if unwraps_to e ErrNotFound
                  then respond (WriteError r 404 ''TRADE_NOT_FOUND'' ''Trade with the given tradeId does not exist.'')
                         (w\<lparr>web_db := s\<rparr>)
                  else respond (WriteError r 500 ''INTERNAL_ERROR'' ''Could not load trade.'')
                         (log_line Error (Logger_of (r_context r)) ''trade get failed''
                           [(''err'', AErr e), (''tradeId'', AUuid i)] (w\<lparr>web_db := s\<rparr>))
              | (Inr t, s) \<Rightarrow>
                  if UserID t \<noteq> tokenUID
                  then respond (WriteError r 403 ''FORBIDDEN'' ''Cross-tenant access denied.'') (w\<lparr>web_db := s\<rparr>)
                  else respond (WriteJSON 200 (JTrade t)) (w\<lparr>web_db := s\<rparr>)))"

text \<open>The goroutine: it publishes with a context of its own and logs what goes wrong.\<close>

definition publish_task ::
    "'q redis \<Rightarrow> 'q go_context \<Rightarrow> string \<Rightarrow> logger \<Rightarrow> event \<Rightarrow> web \<times> 'q \<Rightarrow> web \<times> 'q" where
  "publish_task R pubCtx stream lg ev wq = (case wq of (w, q) \<Rightarrow>
     (case Publish R pubCtx stream ev q of
        (Inl e, q1) \<Rightarrow> (log_line Warn lg ''publish event dropped''
            [(''type'', AStr (ev_type ev)), (''tradeId'', AStr (ev_trade_id ev)), (''err'', AErr e)] w, q1)
      | (Inr _, q1) \<Rightarrow> (w, q1)))"

section \<open>What the handlers do\<close>

lemma Insert_inserted:
  assumes "Insert P inp s = (Inr (t, True), s')"
  shows "insertable P inp \<and> tbl_lookup trade_id (TradeID inp) (trades s) = None \<and>
    t = scan P (built_row P inp (clock s)) \<and>
    same_tables (s\<lparr>trades := trades s @ [built_row P inp (clock s)]\<rparr>) s'"
proof -
  obtain p oc where d: "derive (arch P) inp = (p, oc)" by fastforce
  obtain f s1 where f: "next_fault s = (f, s1)" by fastforce
  then have same: "same_tables s s1" using same_tables_next [of s] by simp
  then have same': "trades s1 = trades s" "clock s1 = clock s" by (simp_all add: same_tables_iff)
  have "f = FOk" "\<exists>row. insert_stmt P inp p oc s1 = Inr (Some row, s') \<and> t = scan P row"
    using assms by (auto simp: Insert_def d db_query_row_def f split: fault.splits sum.splits prod.splits option.splits if_splits)
  then obtain row where r: "insert_stmt P inp p oc s1 = Inr (Some row, s')" "t = scan P row" by blast
  then have ntr: "new_trade_row P inp p oc (clock s) = Inr row" "trade_checks row = None"
    "tbl_lookup trade_id (trade_id row) (trades s) = None" "s' = s1\<lparr>trades := trades s1 @ [row]\<rparr>"
    by (auto simp: insert_stmt_def bind_ok_Inr_iff same' split: option.splits if_splits)
  have "insertable P inp" using ntr(1,2) by (simp add: insertable_def d new_trade_row_clock [of P inp p oc 0 "clock s"])
  moreover have "built_row P inp (clock s) = row" using ntr(1) by (simp add: built_row_def d)
  ultimately show ?thesis using r(2) ntr(3,4) same new_trade_row_fields(1) [OF ntr(1)] by (simp add: same_tables_iff)
qed

text \<open>
  C7: writes through \<open>POST /trades\<close> stay inside the caller's tenancy. Whatever the request and the
  connection, the handler returns normally, and either it leaves every table as it was and starts no
  publication, or the request is valid, the caller is its user, and exactly one row was added, under a free
  identifier and owned by the caller; a publication is started at most for that row, and only when the
  answer is the stored trade. The other tables never change.
\<close>
theorem create_isolated:
  assumes "create P hp r w = (res, w')"
  shows "res = Finished \<and>
    (same_tables (web_db w) (web_db w') \<and> web_tasks w' = web_tasks w \<or>
     (\<exists>inp row. r_body r = Inr inp \<and> validate inp = None \<and> ctx_UserID (r_context r) = Some (UserID inp) \<and>
        tbl_lookup trade_id (TradeID inp) (trades (web_db w)) = None \<and>
        trade_id row = TradeID inp \<and> user_id row = UserID inp \<and>
        same_tables ((web_db w)\<lparr>trades := trades (web_db w) @ [row]\<rparr>) (web_db w') \<and>
        (web_tasks w' = web_tasks w \<or>
         web_tasks w' = web_tasks w @ [eventFor P (scan P row)] \<and>
         web_resp w' = WriteJSON 200 (JTrade (scan P row)) (web_resp w))))"
proof (cases "\<exists>inp. r_body r = Inr inp \<and> validate inp = None \<and> ctx_UserID (r_context r) = Some (UserID inp)")
  case True
  then obtain inp where inp: "r_body r = Inr inp" "validate inp = None" "ctx_UserID (r_context r) = Some (UserID inp)" by blast
  obtain x s' where x: "Insert P inp (web_db w) = (x, s')" by fastforce
  have db: "web_db w' = s'" "res = Finished"
    using assms inp x by (auto simp: create_def respond_def split: sum.splits prod.splits)
  show ?thesis
  proof (cases "\<exists>t. x = Inr (t, True)")
    case True
    then obtain t where t: "x = Inr (t, True)" by blast
    from Insert_inserted [OF x [unfolded t]] have ins: "insertable P inp"
      "tbl_lookup trade_id (TradeID inp) (trades (web_db w)) = None" "t = scan P (built_row P inp (clock (web_db w)))"
      "same_tables ((web_db w)\<lparr>trades := trades (web_db w) @ [built_row P inp (clock (web_db w))]\<rparr>) s'" by blast+
    from assms inp x t have "web_tasks w' = web_tasks w \<or> web_tasks w' = web_tasks w @ [eventFor P t]"
      "web_resp w' = WriteJSON 200 (JTrade t) (web_resp w)" by (auto simp: create_def respond_def)
    then show ?thesis
      using ins inp db built_row_fields(2,3) [OF ins(1), of "clock (web_db w)"]
      by - (rule conjI, simp, rule disjI2, rule exI [of _ inp], rule exI [of _ "built_row P inp (clock (web_db w))"], auto)
  next
    case False
    then have tasks: "web_tasks w' = web_tasks w"
      using assms inp x by (auto simp: create_def respond_def split: sum.splits)
    show ?thesis
    proof (cases rule: Insert_effect [of "web_db w" P inp])
      case nothing
      with tasks db x show ?thesis by simp
    next
      case appended
      with tasks db x inp built_row_fields(2,3) [OF appended(1), of "clock (web_db w)"] show ?thesis
        by - (rule conjI, simp, rule disjI2, rule exI [of _ inp], rule exI [of _ "built_row P inp (clock (web_db w))"], auto)
    qed
  qed
next
  case False
  then have "res = Finished" "web_db w' = web_db w" "web_tasks w' = web_tasks w"
    using assms by (auto simp: create_def respond_def split: sum.splits option.splits if_splits)
  then show ?thesis by simp
qed

text \<open>
  C21: reads through \<open>GET /trades/{tradeId}\<close>: the tables never change; a trade in the answer is the stored row of
  the path's identifier and belongs to the caller; on a healthy connection the status is 400 for an identifier
  that does not parse, 404 exactly when no row has it, 403 exactly when its row belongs to someone else (so a
  stranger can tell an existing identifier from a free one), and 200 otherwise.
\<close>
theorem get_tenancy:
  assumes "get P r w = (res, w')" and "web_resp w = fresh_writer"
  shows "res = Finished \<and> same_tables (web_db w) (web_db w') \<and> web_tasks w' = web_tasks w \<and>
    (\<forall>t. JTrade t \<in> set (w_body (web_resp w')) \<longrightarrow>
       (\<exists>k row. parse_uuid P (r_param r ''tradeId'') = Some k \<and> tbl_lookup trade_id k (trades (web_db w)) = Some row \<and>
          t = scan P row \<and> user_id row = (case ctx_UserID (r_context r) of None \<Rightarrow> uuid_nil | Some u \<Rightarrow> u))) \<and>
    (faults (web_db w) = [] \<longrightarrow> status_of_resp (web_resp w') = Some
       (case parse_uuid P (r_param r ''tradeId'') of None \<Rightarrow> 400
        | Some k \<Rightarrow> (case tbl_lookup trade_id k (trades (web_db w)) of None \<Rightarrow> 404
            | Some row \<Rightarrow> if user_id row = (case ctx_UserID (r_context r) of None \<Rightarrow> uuid_nil | Some u \<Rightarrow> u) then 200 else 403)))"
proof (cases "parse_uuid P (r_param r ''tradeId'')")
  case None
  then show ?thesis using assms by (auto simp: get_def respond_def fresh_writer_def)
next
  case (Some k)
  have fw: "w_sent fresh_writer = None" "w_body fresh_writer = []" by (simp_all add: fresh_writer_def)
  obtain x s' where x: "Get P k (web_db w) = (x, s')" by fastforce
  have same: "same_tables (web_db w) s'" using same_tables_Get [of "web_db w" P k] x by simp
  let ?u = "case ctx_UserID (r_context r) of None \<Rightarrow> uuid_nil | Some u \<Rightarrow> u"
  have h: "faults (web_db w) = [] \<Longrightarrow>
     x = (case tbl_lookup trade_id k (trades (web_db w)) of None \<Rightarrow> Inl ErrNotFound | Some r \<Rightarrow> Inr (scan P r))"
    using Get_healthy [of "web_db w" P k] x by (auto split: option.splits)
  show ?thesis
  proof (cases x)
    case (Inl e)
    with h have "faults (web_db w) = [] \<Longrightarrow> tbl_lookup trade_id k (trades (web_db w)) = None \<and> e = ErrNotFound"
      by (auto split: option.splits)
    then show ?thesis using assms Some x Inl same fw by (auto simp: get_def respond_def Let_def split: if_splits)
  next
    case (Inr t)
    from Get_Inr [OF x [unfolded Inr]] obtain row where row: "tbl_lookup trade_id k (trades (web_db w)) = Some row" "t = scan P row"
      by blast
    then have "UserID t = user_id row" by (simp add: scan_def)
    then show ?thesis using assms Some x Inr same row fw
      by (auto simp: get_def respond_def Let_def split: if_splits)
  qed
qed

section \<open>Resubmission\<close>

text \<open>
  What may happen between two requests on a healthy connection: further submissions, by anyone; updates of a revenge
  flag by the worker; and whatever leaves the table \<open>trades\<close> alone (the other writes of the worker, time that passes). The
  clock stays in the years that JSON can express.
\<close>

inductive meanwhile :: "platform \<Rightarrow> bool \<Rightarrow> web \<Rightarrow> web \<Rightarrow> bool" for P hp where
  submission: "meanwhile P hp w (snd (create P hp r (w\<lparr>web_resp := fresh_writer\<rparr>)))"
| flagging: "meanwhile P hp w (w\<lparr>web_db := snd (SetRevengeFlag k b (web_db w))\<rparr>)"
| elsewhere: "trades s = trades (web_db w) \<Longrightarrow> faults s = [] \<Longrightarrow> encodable_time (clock s, 0) \<Longrightarrow>
    meanwhile P hp w (w\<lparr>web_db := s\<rparr>)"

lemma create_db:
  "web_db (snd (create P hp r w)) = web_db w \<or> (\<exists>inp. web_db (snd (create P hp r w)) = snd (Insert P inp (web_db w)))"
  by (auto simp: create_def respond_def split: sum.splits prod.splits option.splits if_splits) (metis snd_conv)+

text \<open>A row of this identifier with this record is stored, and can be encoded.\<close>

definition holds_record :: "platform \<Rightarrow> uuid \<Rightarrow> trade \<Rightarrow> db \<Rightarrow> bool" where
  "holds_record P k t s \<longleftrightarrow> faults s = [] \<and> encodable_time (clock s, 0) \<and>
     (\<exists>row. tbl_lookup trade_id k (trades s) = Some row \<and> core (scan P row) = core t \<and> encodable (JTrade (scan P row)))"

lemma holds_record_insert:
  assumes "holds_record P k t s"
  shows "holds_record P k t (snd (Insert P inp s))"
proof -
  from assms have "faults s = []" by (simp add: holds_record_def)
  then show ?thesis
    by (cases rule: Insert_cases [of s P inp]) (use assms in \<open>auto simp: holds_record_def tbl_lookup_append\<close>)
qed

lemma holds_record_flag:
  assumes "holds_record P k t s"
  shows "holds_record P k t (snd (SetRevengeFlag k' b s))"
proof -
  let ?f = "\<lambda>r. if trade_id r = k' then touch (clock s) (r\<lparr>revenge_flag := b\<rparr>) else r"
  from assms obtain row where h: "faults s = []" "encodable_time (clock s, 0)" "tbl_lookup trade_id k (trades s) = Some row"
    "core (scan P row) = core t" "encodable (JTrade (scan P row))" by (auto simp: holds_record_def)
  have "tbl_lookup trade_id k (map ?f (trades s)) = Some (?f row)"
    by (subst tbl_lookup_map) (simp_all add: touch_def h(3))
  moreover have "core (scan P (?f row)) = core t" using h(4) by (simp add: core_touch)
  moreover have "encodable (JTrade (scan P (?f row)))" using h(2,5) by (simp add: encodable_def scan_def touch_def)
  ultimately show ?thesis using h(1,2) by (simp add: holds_record_def SetRevengeFlag_healthy_stmt)
qed

lemma meanwhile_holds: "meanwhile P hp w w' \<Longrightarrow> holds_record P k t (web_db w) \<Longrightarrow> holds_record P k t (web_db w')"
proof (induction rule: meanwhile.induct)
  case (submission w r)
  then show ?case
    using create_db [of P hp r "w\<lparr>web_resp := fresh_writer\<rparr>"] holds_record_insert by auto
next
  case (flagging w k' b)
  then show ?case by (simp add: holds_record_flag)
next
  case (elsewhere s w)
  then show ?case by (simp add: holds_record_def)
qed

lemma meanwhile_steps_hold:
  "(meanwhile P hp)\<^sup>*\<^sup>* w w' \<Longrightarrow> holds_record P k t (web_db w) \<Longrightarrow> holds_record P k t (web_db w')"
  by (induction rule: rtranclp_induct) (simp_all add: meanwhile_holds)

lemma create_accepted:
  assumes "r_body r = Inr inp" and "validate inp = None" and "ctx_UserID (r_context r) = Some (UserID inp)"
    and "Insert P inp (web_db w) = (Inr (t, b), s')"
  shows "create P hp r w = (Finished, w\<lparr>web_db := s',
     web_tasks := web_tasks w @ (if hp \<and> b then [eventFor P t] else []), web_resp := WriteJSON 200 (JTrade t) (web_resp w)\<rparr>)"
  using assms by (simp add: create_def respond_def)

lemma get_found:
  assumes "parse_uuid P (r_param r ''tradeId'') = Some k" and "Get P k (web_db w) = (Inr t, web_db w)"
    and "ctx_UserID (r_context r) = Some (UserID t)"
  shows "get P r w = (Finished, w\<lparr>web_resp := WriteJSON 200 (JTrade t) (web_resp w)\<rparr>)"
  using assms by (simp add: get_def respond_def Let_def)

lemma encoded_once: "encodable v \<Longrightarrow> status_of_resp (WriteJSON 200 v fresh_writer) = Some 200 \<and> w_body (WriteJSON 200 v fresh_writer) = [v]"
  by (simp add: fresh_writer_def)

lemma built_row_encodable:
  assumes "insertable P inp" and "encodable_time (to_timestamptz (EntryAt inp), 0)"
    and "\<And>x. ExitAt inp = Some x \<Longrightarrow> encodable_time (to_timestamptz x, 0)" and "encodable_time (now, 0)"
  shows "encodable (JTrade (scan P (built_row P inp now)))"
  using assms(2-4) scan_built_row [OF assms(1), of now]
  by (auto simp: encodable_def split: option.split)

text \<open>
  C22: a trade that was accepted stays readable. On a healthy connection, with the clock and the instants of the request
  in the years 0 to 9999: a valid submission of the caller, with values the columns can store, under a new identifier is answered with status 200 and its record, and
  starts one publication if there is a producer. Whatever happens then (any number of further submissions by anyone,
  updates of revenge flags by the worker, changes that leave the trades alone), a read by the owner answers 200 with
  that record, but for the revenge flag and the time of the last update; and resubmitting it answers the same,
  starts no second publication and leaves the database as it is.
\<close>
theorem create_then_get:
  assumes "faults (web_db w) = []" and "r_body r = Inr inp" and "ctx_UserID (r_context r) = Some (UserID inp)"
    and "validate inp = None" and "insertable P inp" and "tbl_lookup trade_id (TradeID inp) (trades (web_db w)) = None"
    and "parse_uuid P (r_param r' ''tradeId'') = Some (TradeID inp)" and "ctx_UserID (r_context r') = Some (UserID inp)"
    and "encodable_time (to_timestamptz (EntryAt inp), 0)" and "encodable_time (clock (web_db w), 0)"
    and "\<forall>x. ExitAt inp = Some x \<longrightarrow> encodable_time (to_timestamptz x, 0)"
  shows "\<exists>t w1. create P hp r (w\<lparr>web_resp := fresh_writer\<rparr>) = (Finished, w1) \<and>
    status_of_resp (web_resp w1) = Some 200 \<and> w_body (web_resp w1) = [JTrade t] \<and> TradeID t = TradeID inp \<and>
    web_tasks w1 = web_tasks w @ (if hp then [eventFor P t] else []) \<and>
    (\<forall>w2. (meanwhile P hp)\<^sup>*\<^sup>* w1 w2 \<longrightarrow>
      (\<exists>t' resp. core t' = core t \<and> status_of_resp resp = Some 200 \<and> w_body resp = [JTrade t'] \<and>
        get P r' (w2\<lparr>web_resp := fresh_writer\<rparr>) = (Finished, w2\<lparr>web_resp := resp\<rparr>) \<and>
        create P hp r (w2\<lparr>web_resp := fresh_writer\<rparr>) = (Finished, w2\<lparr>web_resp := resp\<rparr>)))"
proof -
  let ?t = "scan P (built_row P inp (clock (web_db w)))"
  let ?s = "(web_db w)\<lparr>trades := trades (web_db w) @ [built_row P inp (clock (web_db w))]\<rparr>"
  have ins: "Insert P inp (web_db w) = (Inr (?t, True), ?s)" using assms(1,5,6) by (rule Insert_healthy(1))
  define w1 where "w1 = w\<lparr>web_db := ?s, web_tasks := web_tasks w @ (if hp then [eventFor P ?t] else []),
      web_resp := WriteJSON 200 (JTrade ?t) fresh_writer\<rparr>"
  have c1: "create P hp r (w\<lparr>web_resp := fresh_writer\<rparr>) = (Finished, w1)"
    using create_accepted [of r inp P "w\<lparr>web_resp := fresh_writer\<rparr>" ?t True ?s hp] assms(2-4) ins by (simp add: w1_def)
  have enc: "encodable (JTrade ?t)" using assms(5,9-11) by (intro built_row_encodable) simp_all
  have ids: "UserID ?t = UserID inp" "TradeID ?t = TradeID inp" using scan_built_row(1,2) [OF assms(5)] by simp_all
  have hold: "holds_record P (TradeID inp) ?t (web_db w1)"
    using assms(1,6,10) enc built_row_id [OF assms(5)] by (simp add: holds_record_def w1_def tbl_lookup_append)
  have later: "\<exists>t' resp. core t' = core ?t \<and> status_of_resp resp = Some 200 \<and> w_body resp = [JTrade t'] \<and>
        get P r' (w2\<lparr>web_resp := fresh_writer\<rparr>) = (Finished, w2\<lparr>web_resp := resp\<rparr>) \<and>
        create P hp r (w2\<lparr>web_resp := fresh_writer\<rparr>) = (Finished, w2\<lparr>web_resp := resp\<rparr>)"
    if "(meanwhile P hp)\<^sup>*\<^sup>* w1 w2" for w2
  proof -
    let ?w2 = "w2\<lparr>web_resp := fresh_writer\<rparr>"
    from meanwhile_steps_hold [OF that hold] obtain row where row: "faults (web_db w2) = []"
      "tbl_lookup trade_id (TradeID inp) (trades (web_db w2)) = Some row" "core (scan P row) = core ?t" "encodable (JTrade (scan P row))"
      by (auto simp: holds_record_def)
    have "UserID (scan P row) = UserID (core (scan P row))" by (simp add: core_def)
    also have "\<dots> = UserID inp" using row(3) ids(1) by (simp add: core_def)
    finally have u: "UserID (scan P row) = UserID inp" .
    have "Get P (TradeID inp) (web_db w2) = (Inr (scan P row), web_db w2)" using Get_healthy [OF row(1)] row(2) by simp
    then have "get P r' ?w2 = (Finished, ?w2\<lparr>web_resp := WriteJSON 200 (JTrade (scan P row)) (web_resp ?w2)\<rparr>)"
      using assms(7,8) u by (intro get_found) simp_all
    moreover have "create P hp r ?w2 = (Finished, ?w2\<lparr>web_resp := WriteJSON 200 (JTrade (scan P row)) (web_resp ?w2)\<rparr>)"
      using create_accepted [of r inp P ?w2 "scan P row" False "web_db w2" hp] assms(2-4) Insert_healthy(2) [OF row(1) assms(5) row(2)]
      by simp
    ultimately show ?thesis using row(3) encoded_once [OF row(4)]
      by (intro exI [of _ "scan P row"] exI [of _ "WriteJSON 200 (JTrade (scan P row)) fresh_writer"]) simp
  qed
  have "web_resp w1 = WriteJSON 200 (JTrade ?t) fresh_writer"
    "web_tasks w1 = web_tasks w @ (if hp then [eventFor P ?t] else [])" by (simp_all add: w1_def)
  then show ?thesis using c1 ids(2) encoded_once [OF enc] later by (intro exI [of _ ?t] exI [of _ w1]) simp
qed

text \<open>
  C35: the write check looks at the request's user only. A valid submission under an identifier that
  already belongs to another user answers 200 with the stored record of that user.
\<close>
theorem create_leaks:
  assumes "faults (web_db w) = []" and "web_resp w = fresh_writer"
    and "r_body r = Inr inp" and "ctx_UserID (r_context r) = Some (UserID inp)" and "validate inp = None"
    and "insertable P inp" and "tbl_lookup trade_id (TradeID inp) (trades (web_db w)) = Some row"
    and "user_id row \<noteq> UserID inp" and "encodable (JTrade (scan P row))"
  shows "\<exists>w'. create P hp r w = (Finished, w') \<and> status_of_resp (web_resp w') = Some 200 \<and>
    w_body (web_resp w') = [JTrade (scan P row)] \<and> ctx_UserID (r_context r) \<noteq> Some (UserID (scan P row)) \<and>
    web_db w' = web_db w"
proof -
  have "Insert P inp (web_db w) = (Inr (scan P row, False), web_db w)" using assms(1,6,7) by (rule Insert_healthy(2))
  from create_accepted [OF assms(3,5,4) this, of hp] show ?thesis
    using assms(2,4,8,9) by (auto simp: fresh_writer_def scan_def)
qed

definition far_year :: "instant \<Rightarrow> bool" where
  "far_year t \<longleftrightarrow> year_of t < 0 \<or> 10000 \<le> year_of t"

lemma far_not_encodable:
  "far_year (entry_at row) \<or> (\<exists>x. exit_at row = Some x \<and> far_year x) \<Longrightarrow> \<not> encodable (JTrade (scan P row))"
  by (auto simp: encodable_def encodable_time_def scan_def far_year_def)

lemma event_instant:
  "ev_occurred_at (eventFor P (scan P row)) = (case (if status row = Closed then exit_at row else None) of Some x \<Rightarrow> x | None \<Rightarrow> entry_at row)"
  by (cases "status row"; cases "exit_at row") (simp_all add: eventFor_def scan_def)

text \<open>
  C40: a stored trade, of whatever status, whose entry or exit lies outside the years 0 to 9999 in UTC cannot be served: its
  owner gets status 200 with an empty body. Its event carries the exit of a closed trade and the entry of any other; the
  worker decodes the event exactly when this instant lies in these years, and otherwise never.
\<close>
theorem far_year_empty:
  assumes "faults (web_db w) = []" and "web_resp w = fresh_writer"
    and "parse_uuid P (r_param r ''tradeId'') = Some (trade_id row)"
    and "tbl_lookup trade_id (trade_id row) (trades (web_db w)) = Some row"
    and "ctx_UserID (r_context r) = Some (user_id row)"
    and "far_year (entry_at row) \<or> (\<exists>x. exit_at row = Some x \<and> far_year x)"
    and "carried = (case (if status row = Closed then exit_at row else None) of Some x \<Rightarrow> x | None \<Rightarrow> entry_at row)"
  shows "\<exists>w'. get P r w = (Finished, w') \<and> status_of_resp (web_resp w') = Some 200 \<and> w_body (web_resp w') = [] \<and>
    web_db w' = web_db w \<and>
    (if far_year carried then \<exists>e. decodeValues (event_fields (eventFor P (scan P row))) = Inl e
     else \<exists>ev. decodeValues (event_fields (eventFor P (scan P row))) = Inr ev)"
proof -
  have "Get P (trade_id row) (web_db w) = (Inr (scan P row), web_db w)" using Get_healthy [OF assms(1), of P "trade_id row"] assms(4) by simp
  with assms(3,5) have "get P r w = (Finished, w\<lparr>web_resp := WriteJSON 200 (JTrade (scan P row)) (web_resp w)\<rparr>)"
    by (intro get_found) (simp_all add: scan_def)
  moreover have "\<not> encodable (JTrade (scan P row))" using assms(6) by (rule far_not_encodable)
  moreover have "if far_year carried then \<exists>e. decodeValues (event_fields (eventFor P (scan P row))) = Inl e
     else \<exists>ev. decodeValues (event_fields (eventFor P (scan P row))) = Inr ev"
    unfolding assms(7) event_instant [of P, symmetric] by (auto simp: decode_event_fields far_year_def)
  ultimately show ?thesis using assms(2) by (simp add: fresh_writer_def)
qed

section \<open>From the handler to the worker\<close>

text \<open>
  The event of a stored trade, once delivered, is dispatched to the calculators of its kind with the
  identifiers of the trade, and is never taken for malformed: an open or cancelled trade is handled as
  opened at its entry, a closed one as closed, each with its instant rounded down to the millisecond.
\<close>
theorem event_dispatch:
  assumes "uuid_codec (platform_of W)" and "decodeValues (event_fields (eventFor (platform_of W) t)) = Inr (msg_event m)"
    and "Status t = ''closed'' \<Longrightarrow> ExitAt t \<noteq> None"
  shows "process W m (s, q) =
    (case (if Status t = ''closed'' then process_closed W (TradeID t) (UserID t) (SessionID t) (s, q)
           else process_opened W (TradeID t) (UserID t) (EntryAt t - EntryAt t mod 10 ^ 6) (s, q)) of
       (n, sq) \<Rightarrow> ((n, False), sq))"
proof -
  let ?ev = "eventFor (platform_of W) t"
  have "msg_event m = ?ev\<lparr>ev_occurred_at := ms_floor (ev_occurred_at ?ev)\<rparr>"
    using assms(2) by (auto simp: decode_event_fields split: if_splits)
  then show ?thesis
    using assms(1,3)
    by (cases "Status t = ''closed''"; cases "ExitAt t")
       (simp_all add: process_def eventFor_def event_types uuid_codec_def ms_floor_def Let_def split: prod.split)
qed

lemma ms_floor_facts:
  "ms_floor t \<le> t" "t mod 10 ^ 6 \<noteq> 0 \<Longrightarrow> ms_floor t < t" "to_timestamptz (ms_floor t) = ms_floor t"
  "to_timestamptz (ms_floor t - minutes 30) = ms_floor t - minutes 30"
proof -
  have m: "0 \<le> t mod 10 ^ 6" by simp
  show "ms_floor t \<le> t" by (simp add: ms_floor_def)
  show "ms_floor t < t" if "t mod 10 ^ 6 \<noteq> 0" using m that by (simp add: ms_floor_def del: minus_mod_int_eq)
  have "ms_floor t = 1000 * (1000 * (t div 10 ^ 6))" by (simp add: ms_floor_def minus_mod_eq_mult_div)
  then show *: "to_timestamptz (ms_floor t) = ms_floor t" by (simp add: to_timestamptz_def)
  then show "to_timestamptz (ms_floor t - minutes 30) = ms_floor t - minutes 30"
    by (simp add: to_timestamptz_sub)
qed

lemma count_rows_less:
  assumes "\<And>x. x \<in> set rows \<Longrightarrow> p x \<Longrightarrow> q x" and "r \<in> set rows" and "q r" and "\<not> p r"
  shows "count_rows p rows < count_rows q rows"
  using assms
proof (induction rows)
  case (Cons x xs)
  have le: "count_rows p xs \<le> count_rows q xs" using Cons.prems(1) by (intro count_rows_mono) simp
  show ?case
  proof (cases "x = r")
    case True
    with Cons.prems le show ?thesis by simp
  next
    case False
    then have "count_rows p xs < count_rows q xs" using Cons by auto
    with Cons.prems(1) [of x] show ?thesis by auto
  qed
qed simp

text \<open>
  C39: the detector works on the event's instant, which has lost its microseconds. The eleventh trade of a user in half an
  hour is therefore not detected when it was entered between two milliseconds and no other trade of the user was
  entered in the fraction of a millisecond just before that half hour: its own row lies after the window that ends at
  its event, and nothing enters at the other end to make up for it. (With such a trade the detector may count eleven.)
\<close>
theorem overtrading_blind_spot:
  assumes "faults s = []" and "r \<in> set (trades s)" and "entry_at r mod 1000 = 0" and "entry_at r mod 10 ^ 6 \<noteq> 0"
    and "opens_in (user_id r) (entry_at r - minutes 30) (entry_at r) s = 11"
    and "\<And>x. x \<in> set (trades s) \<Longrightarrow> user_id x = user_id r \<Longrightarrow> ms_floor (entry_at r) - minutes 30 \<le> entry_at x \<Longrightarrow>
      entry_at r - minutes 30 \<le> entry_at x"
  shows "Overtrading_calc P pub (user_id r) (ms_floor (entry_at r)) s q = (Inr (), s, q)"
proof -
  let ?e = "entry_at r"
  have tz: "to_timestamptz ?e = ?e" "to_timestamptz (?e - minutes 30) = ?e - minutes 30"
    using mod_timestamptz [OF assms(3)] by (simp_all add: to_timestamptz_sub)
  have "opens_in (user_id r) (ms_floor ?e - minutes 30) (ms_floor ?e) s < opens_in (user_id r) (?e - minutes 30) ?e s"
    unfolding opens_in_def ms_floor_facts tz
    by (rule count_rows_less [of _ _ _ r]) (use assms(2,6) ms_floor_facts(1,2) [of ?e] assms(4) in \<open>auto simp: minutes_def\<close>)
  with assms(1,5) show ?thesis by (simp add: Overtrading_calc_def Let_def db_simps read_row_def)
qed

section \<open>Examples\<close>

text \<open>The row of the sample request, in a table of its own.\<close>

definition sample_stored :: trade_row where "sample_stored = built_row ref_platform sample_input 0"

definition sample_db :: db where "sample_db = empty_db\<lparr>trades := [sample_stored]\<rparr>"

lemma sample_stored_simps [simp]:
  "trade_id sample_stored = 1" "user_id sample_stored = 2" "entry_at sample_stored = 1000"
  "exit_at sample_stored = Some 2000" "status sample_stored = Closed" "created_at sample_stored = 0"
  "updated_at sample_stored = 0"
proof -
  have eq: "sample_stored = \<lparr>trade_id = 1, user_id = 2, trader_name = None,
         session_id = 3, asset = ''AAPL'', asset_class = Equity, direction = Long, entry_price = 100, exit_price = Some 110,
         quantity = 1, entry_at = 1000, exit_at = Some 2000, status = Closed,
         outcome = Some Win, pnl = Some 10, plan_adherence = Some 4,
         emotional_state = Some Calm, entry_rationale = None, revenge_flag = False,
         ground_truth_pathologies = None, created_at = 0, updated_at = 0\<rparr>"
    by (simp add: sample_stored_def built_row_def sample_derive sample_row)
  show "trade_id sample_stored = 1" "user_id sample_stored = 2" "entry_at sample_stored = 1000"
    "exit_at sample_stored = Some 2000" "status sample_stored = Closed" "created_at sample_stored = 0"
    "updated_at sample_stored = 0" unfolding eq by simp_all
qed

lemma sample_db_simps [simp]: "faults sample_db = []" "trades sample_db = [sample_stored]" "clock sample_db = 0"
  by (simp_all add: sample_db_def)

lemma sample_valid: "validate sample_input = None" "validate (sample_input\<lparr>UserID := 7\<rparr>) = None"
  by (simp_all add: validate_def sample_input_def zero_time_def)

lemma insertable_user: "insertable P (inp\<lparr>UserID := u\<rparr>) \<longleftrightarrow> insertable P inp"
proof -
  have "derive ar (inp\<lparr>UserID := u\<rparr>) = derive ar inp" for ar
    by (simp add: derive_def split: option.split)
  moreover have "new_trade_row P (inp\<lparr>UserID := u\<rparr>) p oc now =
      (case new_trade_row P inp p oc now of Inl e \<Rightarrow> Inl e | Inr r \<Rightarrow> Inr (r\<lparr>user_id := u\<rparr>))" for p oc now
    unfolding new_trade_row_def by (simp add: bind_ok_def split: sum.split)
  moreover have "trade_checks (r\<lparr>user_id := u\<rparr>) = trade_checks r" for r by (simp add: trade_checks_def)
  ultimately show ?thesis by (auto simp: insertable_def split: prod.splits sum.splits)
qed

text \<open>A stranger's write is refused, a stranger's read is forbidden.\<close>

theorem create_isolated_witness:
  "same_tables empty_db (web_db (snd (create ref_platform True (request_by 7 1 sample_input) (web_on empty_db))))"
proof -
  let ?x = "create ref_platform True (request_by 7 1 sample_input) (web_on empty_db)"
  show ?thesis using create_isolated [of ref_platform True "request_by 7 1 sample_input" "web_on empty_db" "fst ?x" "snd ?x"] by simp
qed

theorem get_tenancy_witness:
  "status_of_resp (web_resp (snd (get ref_platform (request_by 7 1 sample_input) (web_on sample_db)))) = Some 403"
  using get_tenancy [of ref_platform "request_by 7 1 sample_input" "web_on sample_db"
      "fst (get ref_platform (request_by 7 1 sample_input) (web_on sample_db))"
      "snd (get ref_platform (request_by 7 1 sample_input) (web_on sample_db))"] by simp

lemma sample_encodable: "encodable (JTrade (scan ref_platform sample_stored))"
proof -
  have "year_of 1000 = 1970" "year_of 2000 = 1970" "year_of 0 = 1970" by code_simp+
  then show ?thesis by (simp add: encodable_def encodable_time_def scan_def)
qed

text \<open>After a stranger's submission and a flag raised by the worker the trade is still read.\<close>

theorem create_then_get_witness:
  "\<exists>t t' w1 w2 resp. create ref_platform True (request_by 2 1 sample_input) ((web_on empty_db)\<lparr>web_resp := fresh_writer\<rparr>) = (Finished, w1) \<and>
     w2 = (snd (create ref_platform True (request_by 7 4 sample_input) (w1\<lparr>web_resp := fresh_writer\<rparr>)))
       \<lparr>web_db := snd (SetRevengeFlag 1 True (web_db (snd (create ref_platform True (request_by 7 4 sample_input) (w1\<lparr>web_resp := fresh_writer\<rparr>)))))\<rparr> \<and>
     get ref_platform (request_by 2 1 sample_input) (w2\<lparr>web_resp := fresh_writer\<rparr>) = (Finished, w2\<lparr>web_resp := resp\<rparr>) \<and>
     w_body resp = [JTrade t'] \<and> core t' = core t \<and> w_body (web_resp w1) = [JTrade t]"
proof -
  have s: "UserID sample_input = 2" "TradeID sample_input = 1" "EntryAt sample_input = 1000" "ExitAt sample_input = Some 2000"
    by (simp_all add: sample_input_def)
  have "year_of 1000 = 1970" "year_of 2000 = 1970" "year_of 0 = 1970" by code_simp+
  then have e: "encodable_time (to_timestamptz (EntryAt sample_input), 0)" "encodable_time (clock (web_db (web_on empty_db)), 0)"
    "\<forall>x. ExitAt sample_input = Some x \<longrightarrow> encodable_time (to_timestamptz x, 0)"
    by (simp_all add: encodable_time_def s to_timestamptz_def)
  have hyps: "faults (web_db (web_on empty_db)) = []" "r_body (request_by 2 1 sample_input) = Inr sample_input"
    "ctx_UserID (r_context (request_by 2 1 sample_input)) = Some (UserID sample_input)"
    "tbl_lookup trade_id (TradeID sample_input) (trades (web_db (web_on empty_db))) = None"
    "parse_uuid ref_platform (r_param (request_by 2 1 sample_input) ''tradeId'') = Some (TradeID sample_input)"
    by (simp_all add: s)
  from create_then_get [where hp = True, OF hyps(1-3) sample_valid(1) sample_insertable hyps(4,5,3) e]
  obtain t w1 where w1: "create ref_platform True (request_by 2 1 sample_input) ((web_on empty_db)\<lparr>web_resp := fresh_writer\<rparr>) = (Finished, w1)"
    "w_body (web_resp w1) = [JTrade t]"
    "\<And>w2. (meanwhile ref_platform True)\<^sup>*\<^sup>* w1 w2 \<Longrightarrow> \<exists>t' resp. core t' = core t \<and> w_body resp = [JTrade t'] \<and>
       get ref_platform (request_by 2 1 sample_input) (w2\<lparr>web_resp := fresh_writer\<rparr>) = (Finished, w2\<lparr>web_resp := resp\<rparr>)"
    by blast
  define w where "w = snd (create ref_platform True (request_by 7 4 sample_input) (w1\<lparr>web_resp := fresh_writer\<rparr>))"
  have "meanwhile ref_platform True w1 w" unfolding w_def by (rule meanwhile.submission)
  moreover have "meanwhile ref_platform True w (w\<lparr>web_db := snd (SetRevengeFlag 1 True (web_db w))\<rparr>)" by (rule meanwhile.flagging)
  ultimately have "(meanwhile ref_platform True)\<^sup>*\<^sup>* w1 (w\<lparr>web_db := snd (SetRevengeFlag 1 True (web_db w))\<rparr>)"
    by (meson rtranclp.rtrancl_refl rtranclp.rtrancl_into_rtrancl)
  from w1(3) [OF this] obtain t' resp where "core t' = core t" "w_body resp = [JTrade t']"
    "get ref_platform (request_by 2 1 sample_input) (w\<lparr>web_db := snd (SetRevengeFlag 1 True (web_db w)), web_resp := fresh_writer\<rparr>) =
      (Finished, w\<lparr>web_db := snd (SetRevengeFlag 1 True (web_db w)), web_resp := resp\<rparr>)" by blast
  with w1(1,2) show ?thesis
    by (intro exI [of _ t] exI [of _ t'] exI [of _ w1] exI [of _ "w\<lparr>web_db := snd (SetRevengeFlag 1 True (web_db w))\<rparr>"]
        exI [of _ resp] conjI) (simp_all only: w_def)
qed

theorem create_leaks_witness:
  "w_body (web_resp (snd (create ref_platform True (request_by 7 1 (sample_input\<lparr>UserID := 7\<rparr>)) (web_on sample_db)))) =
     [JTrade (scan ref_platform sample_stored)] \<and> UserID (scan ref_platform sample_stored) = 2"
proof -
  have "TradeID sample_input = 1" by (simp add: sample_input_def)
  then have "\<exists>w'. create ref_platform True (request_by 7 1 (sample_input\<lparr>UserID := 7\<rparr>)) (web_on sample_db) = (Finished, w') \<and>
    w_body (web_resp w') = [JTrade (scan ref_platform sample_stored)]"
    using create_leaks [of "web_on sample_db" "request_by 7 1 (sample_input\<lparr>UserID := 7\<rparr>)" "sample_input\<lparr>UserID := 7\<rparr>"
        ref_platform sample_stored True] sample_valid(2) sample_insertable sample_encodable
    by (auto simp: insertable_user)
  then show ?thesis by (auto simp: scan_def)
qed

text \<open>The first second of the year 10000, as the entry of an open trade and of a closed one that left in 1970.\<close>

definition far_row :: trade_row where
  "far_row = sample_stored\<lparr>status := Open, exit_at := None, entry_at := 253402300800 * 10 ^ 9\<rparr>"

definition far_entry :: trade_row where
  "far_entry = sample_stored\<lparr>entry_at := 253402300800 * 10 ^ 9\<rparr>"

theorem far_year_empty_witness:
  "(\<exists>w' e. get ref_platform (request_by 2 1 sample_input) (web_on (empty_db\<lparr>trades := [far_row]\<rparr>)) = (Finished, w') \<and>
     w_body (web_resp w') = [] \<and> decodeValues (event_fields (eventFor ref_platform (scan ref_platform far_row))) = Inl e) \<and>
   (\<exists>w' ev. get ref_platform (request_by 2 1 sample_input) (web_on (empty_db\<lparr>trades := [far_entry]\<rparr>)) = (Finished, w') \<and>
     w_body (web_resp w') = [] \<and> decodeValues (event_fields (eventFor ref_platform (scan ref_platform far_entry))) = Inr ev)"
proof
  have y: "year_of (253402300800 * 10 ^ 9) = 10000" "year_of 2000 = 1970" by code_simp+
  have f: "far_year (entry_at far_row)" "far_year (entry_at far_entry)" "\<not> far_year 2000"
    using y by (simp_all add: far_year_def far_row_def far_entry_def)
  have "\<exists>w'. get ref_platform (request_by 2 1 sample_input) (web_on (empty_db\<lparr>trades := [far_row]\<rparr>)) = (Finished, w') \<and>
     status_of_resp (web_resp w') = Some 200 \<and> w_body (web_resp w') = [] \<and> web_db w' = web_db (web_on (empty_db\<lparr>trades := [far_row]\<rparr>)) \<and>
     (if far_year (entry_at far_row) then \<exists>e. decodeValues (event_fields (eventFor ref_platform (scan ref_platform far_row))) = Inl e
      else \<exists>ev. decodeValues (event_fields (eventFor ref_platform (scan ref_platform far_row))) = Inr ev)"
    by (rule far_year_empty) (use f in \<open>simp_all add: far_row_def\<close>)
  with f(1) show "\<exists>w' e. get ref_platform (request_by 2 1 sample_input) (web_on (empty_db\<lparr>trades := [far_row]\<rparr>)) = (Finished, w') \<and>
     w_body (web_resp w') = [] \<and> decodeValues (event_fields (eventFor ref_platform (scan ref_platform far_row))) = Inl e"
    by (simp only: if_True) blast
  have "\<exists>w'. get ref_platform (request_by 2 1 sample_input) (web_on (empty_db\<lparr>trades := [far_entry]\<rparr>)) = (Finished, w') \<and>
     status_of_resp (web_resp w') = Some 200 \<and> w_body (web_resp w') = [] \<and> web_db w' = web_db (web_on (empty_db\<lparr>trades := [far_entry]\<rparr>)) \<and>
     (if far_year 2000 then \<exists>e. decodeValues (event_fields (eventFor ref_platform (scan ref_platform far_entry))) = Inl e
      else \<exists>ev. decodeValues (event_fields (eventFor ref_platform (scan ref_platform far_entry))) = Inr ev)"
    by (rule far_year_empty) (use f in \<open>simp_all add: far_entry_def\<close>)
  with f(3) show "\<exists>w' ev. get ref_platform (request_by 2 1 sample_input) (web_on (empty_db\<lparr>trades := [far_entry]\<rparr>)) = (Finished, w') \<and>
     w_body (web_resp w') = [] \<and> decodeValues (event_fields (eventFor ref_platform (scan ref_platform far_entry))) = Inr ev"
    by (simp only: if_False) blast
qed

theorem event_dispatch_witness:
  "\<exists>n sq. process ref_worker (sample_message\<lparr>msg_event := eventFor ref_platform (scan ref_platform sample_stored)\<lparr>ev_occurred_at := 0\<rparr>\<rparr>)
     (empty_db, one_entry Map.empty Fresh) = ((n, False), sq)"
proof -
  let ?ev = "eventFor ref_platform (scan ref_platform sample_stored)"
  have o: "ev_occurred_at ?ev = 2000" by (simp add: eventFor_def scan_def)
  have "year_of 2000 = 1970" by code_simp
  then have "decodeValues (event_fields ?ev) = Inr (?ev\<lparr>ev_occurred_at := 0\<rparr>)"
    by (simp add: decode_event_fields o ms_floor_def)
  then show ?thesis
    using event_dispatch [of ref_worker "scan ref_platform sample_stored" "sample_message\<lparr>msg_event := ?ev\<lparr>ev_occurred_at := 0\<rparr>\<rparr>"
        empty_db "one_entry Map.empty Fresh"] ref_uuid_codec
    by (auto simp: scan_def split: prod.splits)
qed

text \<open>Ten trades on the millisecond and one half a millisecond later.\<close>

definition half_ms_db :: db where
  "half_ms_db = empty_db\<lparr>trades := map (\<lambda>n. sample_stored\<lparr>trade_id := of_nat n, entry_at := 10 ^ 6 * int n\<rparr>) [0..<10] @
     [sample_stored\<lparr>trade_id := 10, entry_at := 9500000\<rparr>]\<rparr>"

theorem overtrading_blind_spot_witness:
  "Overtrading_calc ref_platform None 2 9000000 half_ms_db () = (Inr (), half_ms_db, ())"
proof -
  let ?r = "sample_stored\<lparr>trade_id := 10, entry_at := 9500000\<rparr>"
  have "opens_in 2 (9500000 - minutes 30) 9500000 half_ms_db = 11"
    by (simp add: half_ms_db_def opens_in_def to_timestamptz_def minutes_def upt_rec)
  moreover have "\<And>x. x \<in> set (trades half_ms_db) \<Longrightarrow> 9500000 - minutes 30 \<le> entry_at x"
    by (auto simp: half_ms_db_def minutes_def)
  ultimately show ?thesis
    using overtrading_blind_spot [of half_ms_db ?r ref_platform None "()"]
    by (simp add: half_ms_db_def ms_floor_def)
qed

end
