(* ===== verification/Metrics_Handler.thy ===== *)
theory Metrics_Handler imports Httpx Metric_Facts begin

text \<open>
  The metrics endpoint of \<open>internal/metrics/handler.go\<close>: its parameters, the snapshot and the time series.
\<close>

text \<open>
  \<open>%q\<close>: the string in double quotes, with the escapes of Go for quotes, backslashes and ASCII control characters. Bytes
  from 0x80 on are kept, as Go keeps printable characters; that it escapes some others there is not modelled.
\<close>

definition hex_digit :: "nat \<Rightarrow> char" where
  "hex_digit n = ''0123456789abcdef'' ! n"

definition go_escape :: "char \<Rightarrow> string" where
  "go_escape c =
     (let n = of_char c :: nat
      in if n = 0x22 \<or> n = 0x5C then [CHR 0x5C, c]
         else if n = 7 then [CHR 0x5C, CHR ''a''] else if n = 8 then [CHR 0x5C, CHR ''b'']
         else if n = 9 then [CHR 0x5C, CHR ''t''] else if n = 10 then [CHR 0x5C, CHR ''n'']
         else if n = 11 then [CHR 0x5C, CHR ''v''] else if n = 12 then [CHR 0x5C, CHR ''f'']
         else if n = 13 then [CHR 0x5C, CHR ''r'']
         else if n < 32 \<or> n = 127 then [CHR 0x5C, CHR ''x'', hex_digit (n div 16), hex_digit (n mod 16)]
         else [c])"

definition go_quote :: "string \<Rightarrow> string" where
  "go_quote s = [CHR 0x22] @ concat (map go_escape s) @ [CHR 0x22]"

definition parseGranularity :: "string \<Rightarrow> go_error + string" where
  "parseGranularity s =
     (if s \<in> {''hourly'', ''daily'', ''rolling30d''} then Inr s
      else if s = '''' then Inl (Plain ''granularity is required (hourly|daily|rolling30d)'')
      else Inl (Plain (''granularity '' @ go_quote s @ '' invalid; want hourly|daily|rolling30d'')))"

definition parseRFC3339 :: "string \<Rightarrow> go_error + (instant \<times> int)" where
  "parseRFC3339 s =
     (if s = '''' then Inl (Plain ''empty timestamp'')
      else (case parse_rfc3339nano s of None \<Rightarrow> Inl (Plain s) | Some t \<Rightarrow> Inr t))"

definition getMetrics :: "platform \<Rightarrow> handler" where
  "getMetrics P r w =
     (case parse_uuid P (r_param r ''userId'') of
        None \<Rightarrow> respond (WriteError r 400 ''BAD_REQUEST'' ''userId path parameter must be a UUID.'') w
      | Some userID \<Rightarrow>
          (case (parseRFC3339 (r_query r ''from''), parseRFC3339 (r_query r ''to'')) of
             (Inr from, Inr to) \<Rightarrow>
               if \<not> fst from < fst to
               then respond (WriteError r 400 ''BAD_REQUEST'' ''from must be earlier than to.'') w
               else (case parseGranularity (r_query r ''granularity'') of
                       Inl e \<Rightarrow> respond (WriteError r 400 ''BAD_REQUEST'' (error_text e)) w
                     | Inr gran \<Rightarrow>
                         (case LoadSnapshot P userID (web_db w) of
                            (Inl e, s1) \<Rightarrow>
                              respond (WriteError r 500 ''INTERNAL_ERROR'' ''Could not load metrics.'')
                                (log_line Error (Logger_of (r_context r)) ''load snapshot'' [(''err'', AErr e)] (w\<lparr>web_db := s1\<rparr>))
                          | (Inr snap, s1) \<Rightarrow>
                              (case LoadBuckets P userID (fst from) (fst to) gran s1 of
                                 (Inl e, s2) \<Rightarrow>
                                   respond (WriteError r 500 ''INTERNAL_ERROR'' ''Could not load timeseries.'')
                                     (log_line Error (Logger_of (r_context r)) ''load buckets'' [(''err'', AErr e)]
                                       (w\<lparr>web_db := s2\<rparr>))
                               | (Inr buckets, s2) \<Rightarrow>
                                   respond (WriteJSON 200 (JMetrics (MetricsResponse userID gran from to snap buckets)))
                                     (w\<lparr>web_db := s2\<rparr>))))
           | _ \<Rightarrow> respond (WriteError r 400 ''BAD_REQUEST'' ''from/to must be ISO-8601 / RFC3339.'') w))"

section \<open>The time series\<close>

fun bucket_width :: "trunc_unit \<Rightarrow> int" where
  "bucket_width TruncHour = 3600 * 10 ^ 9"
| "bucket_width TruncDay = 86400 * 10 ^ 9"

lemma date_trunc_width: "date_trunc un t = t div bucket_width un * bucket_width un" "0 < bucket_width un"
  by (cases un; simp)+

lemma same_bucket:
  "date_trunc un t = date_trunc un t0 \<longleftrightarrow> date_trunc un t0 \<le> t \<and> t < date_trunc un t0 + bucket_width un"
proof -
  let ?w = "bucket_width un"
  have w: "0 < ?w" by (rule date_trunc_width)
  have t: "t div ?w * ?w \<le> t" "t < t div ?w * ?w + ?w"
    using pos_mod_sign [OF w, of t] pos_mod_bound [OF w, of t] div_mult_mod_eq [of t ?w] by linarith+
  have "t0 div ?w * ?w \<le> t \<Longrightarrow> t < t0 div ?w * ?w + ?w \<Longrightarrow> t div ?w = t0 div ?w"
    by (rule int_div_pos_eq [where r = "t - t0 div ?w * ?w"]) (simp_all add: mult.commute)
  with t show ?thesis unfolding date_trunc_width(1) by auto
qed

lemma sum_groups:
  assumes "finite A" and "key ` set rows \<subseteq> A"
  shows "(\<Sum>b \<in> A. int (length (filter (\<lambda>r. key r = b) rows))) = int (length rows)"
  using assms(2)
proof (induction rows)
  case (Cons r rows)
  have "(\<Sum>b \<in> A. int (length (filter (\<lambda>r. key r = b) (r # rows)))) =
      (\<Sum>b \<in> A. (if key r = b then 1 else 0) + int (length (filter (\<lambda>r. key r = b) rows)))"
    by (intro sum.cong) auto
  also have "\<dots> = 1 + int (length rows)"
    using Cons assms(1) by (simp add: sum.distrib)
  finally show ?case by simp
qed simp

lemma sorted_distinct_strict: "sorted xs \<Longrightarrow> distinct xs \<Longrightarrow> sorted_wrt (<) xs"
  by (simp add: strict_sorted_iff)

text \<open>
  C19: the time series partitions the user's trades. On a healthy connection the buckets of an accepted
  granularity are in strictly ascending order, each begins on a whole hour or day, each counts exactly the
  user's trades entered in it and in the half-open range from \<open>from\<close> to \<open>to\<close>, none is empty, and together
  they count every such trade once; reading changes nothing.
\<close>
theorem buckets_partition:
  assumes "faults s = []" and "bucketExpression g = Inr un"
  shows "\<exists>bs. LoadBuckets P u from to g s = (Inr bs, s) \<and>
    sorted_wrt (<) (map BucketAt bs) \<and>
    (\<forall>b \<in> set bs. date_trunc un (BucketAt b) = BucketAt b \<and> 1 \<le> TradeCount b \<and>
       TradeCount b = count_rows (\<lambda>r. user_id r = u \<and> to_timestamptz from \<le> entry_at r \<and> entry_at r < to_timestamptz to \<and>
         BucketAt b \<le> entry_at r \<and> entry_at r < BucketAt b + (if un = TruncHour then 3600 else 86400) * 10 ^ 9) (trades s)) \<and>
    sum_list (map TradeCount bs) =
      count_rows (\<lambda>r. user_id r = u \<and> to_timestamptz from \<le> entry_at r \<and> entry_at r < to_timestamptz to) (trades s)"
proof -
  let ?rows = "filter (in_span u from to) (trades s)" let ?k = "\<lambda>r. date_trunc un (entry_at r)"
  let ?bs = "bucket_rows P u from to un s" let ?ks = "sort (remdups (map ?k ?rows))"
  have bs: "?bs = map (\<lambda>b. bucket_row P b (filter (\<lambda>r. ?k r = b) ?rows)) ?ks"
    by (simp add: bucket_rows_def Let_def)
  have row: "BucketAt (bucket_row P b grp) = b" "TradeCount (bucket_row P b grp) = int (length grp)" for b grp
    by (simp_all add: bucket_row_def Let_def)
  have w: "bucket_width un = (if un = TruncHour then 3600 else 86400) * 10 ^ 9" by (cases un) simp_all
  have run: "LoadBuckets P u from to g s = (Inr ?bs, s)" using assms by (simp add: LoadBuckets_def db_simps)
  have "map BucketAt ?bs = ?ks" by (simp add: bs row comp_def)
  then have ord: "sorted_wrt (<) (map BucketAt ?bs)" by (simp add: sorted_distinct_strict)
  have "sum_list (map TradeCount ?bs) = (\<Sum>b \<leftarrow> ?ks. int (length (filter (\<lambda>r. ?k r = b) ?rows)))"
    by (simp add: bs row comp_def)
  also have "\<dots> = (\<Sum>b \<in> set ?ks. int (length (filter (\<lambda>r. ?k r = b) ?rows)))"
    by (rule sum_list_distinct_conv_sum_set) simp
  also have "\<dots> = int (length ?rows)" by (rule sum_groups) auto
  finally have sum: "sum_list (map TradeCount ?bs) = count_rows (in_span u from to) (trades s)"
    by (simp add: count_rows_def)
  have each: "date_trunc un (BucketAt b) = BucketAt b \<and> 1 \<le> TradeCount b \<and>
       TradeCount b = count_rows (\<lambda>r. in_span u from to r \<and> BucketAt b \<le> entry_at r \<and> entry_at r < BucketAt b + bucket_width un) (trades s)"
    if b: "b \<in> set ?bs" for b
  proof -
    from b obtain r0 where r0: "r0 \<in> set ?rows" "b = bucket_row P (?k r0) (filter (\<lambda>r. ?k r = ?k r0) ?rows)"
      by (auto simp: bs)
    have "0 < length (filter (\<lambda>r. ?k r = ?k r0) ?rows)" using r0(1) by (auto simp: length_greater_0_conv [symmetric] filter_empty_conv simp del: length_greater_0_conv)
    moreover have "date_trunc un (date_trunc un (entry_at r0)) = date_trunc un (entry_at r0)"
      using date_trunc_width(2) [of un] by (simp add: same_bucket)
    moreover have "filter (\<lambda>r. ?k r = ?k r0) ?rows = filter (\<lambda>r. in_span u from to r \<and> ?k r0 \<le> entry_at r \<and> entry_at r < ?k r0 + bucket_width un) (trades s)"
      by (simp only: filter_filter same_bucket)
    ultimately show ?thesis by (simp add: r0(2) row count_rows_def Suc_le_eq)
  qed
  have span: "in_span u from to = (\<lambda>r. user_id r = u \<and> to_timestamptz from \<le> entry_at r \<and> entry_at r < to_timestamptz to)"
    by (rule ext) (simp add: in_span_def)
  show ?thesis
    using run ord sum each unfolding span w conj_assoc by blast
qed

section \<open>The snapshot\<close>

lemma emotion_map_lookup:
  assumes "distinct (map ue_key rows)" and "\<And>r. r \<in> set rows \<Longrightarrow> ue_user_id r = u"
  shows "emotion_map rows (emotion_text em) = map_option emotion_entry (tbl_lookup ue_key (u, em) rows)"
  using assms
proof (induction rows)
  case (Cons r rows)
  have IH: "emotion_map rows (emotion_text em) = map_option emotion_entry (tbl_lookup ue_key (u, em) rows)"
    using Cons by simp
  have inj: "emotion_text em = emotion_text em' \<longleftrightarrow> em = em'" for em' by (metis enum_of_text(5) sum.inject(2))
  have "ue_key r \<notin> ue_key ` set rows" using Cons.prems(1) by (simp add: image_image)
  then have "tbl_lookup ue_key (ue_key r) rows = None" by (simp only: tbl_lookup_None_iff not_False_eq_True)
  moreover have "ue_user_id r = u" using Cons.prems(2) by simp
  ultimately show ?case using IH inj by (auto split: option.splits)
qed simp

lemma tbl_lookup_filter:
  "(\<And>r. r \<in> set rows \<Longrightarrow> key r = k \<Longrightarrow> p r) \<Longrightarrow> tbl_lookup key k (filter p rows) = tbl_lookup key k rows"
  by (induction rows) auto

lemma LoadSnapshot_healthy:
  assumes "faults s = []" and "distinct (map ue_key (user_emotion_metrics s))"
  shows "\<exists>snap. LoadSnapshot P u s = (Inr snap, s) \<and> UM_UserID snap = u \<and>
    RevengeTrades snap = revenge_of u s \<and> OvertradingEvents snap = overtrading_of u s \<and>
    PlanAdherenceScore snap = map_option (text_float P) (fst (score_of u s)) \<and>
    SessionTiltIndex snap = map_option (text_float P) (avg_tilt u s) \<and>
    (\<forall>em. WinRateByEmotion snap (emotion_text em) =
       map_option emotion_entry (tbl_lookup ue_key (u, em) (user_emotion_metrics s)))"
proof -
  let ?rows = "filter (\<lambda>r. ue_user_id r = u) (user_emotion_metrics s)"
  have "distinct (map ue_key ?rows)" using assms(2) by (rule distinct_map_filter)
  then have em: "emotion_map ?rows (emotion_text em) =
      map_option emotion_entry (tbl_lookup ue_key (u, em) (user_emotion_metrics s))" for em
  proof -
    have "tbl_lookup ue_key (u, em) ?rows = tbl_lookup ue_key (u, em) (user_emotion_metrics s)"
      by (rule tbl_lookup_filter) simp
    then show ?thesis using emotion_map_lookup [OF \<open>distinct (map ue_key ?rows)\<close>, of u em] by simp
  qed
  show ?thesis
    using assms(1) em
    by (cases "tbl_lookup um_user_id u (user_metrics s)")
      (simp_all add: LoadSnapshot_def Let_def db_simps read_row_def revenge_of_def overtrading_of_def score_of_def)
qed

text \<open>
  C29: the metrics endpoint on a healthy connection. The request is answered 400 exactly when the path, a
  timestamp or the granularity does not parse or the range is empty; otherwise 200 with the user's stored
  counters, score and win rates and the time series of the range. Nothing is written, and the handler always
  returns.
\<close>
theorem getMetrics_reports:
  assumes "faults (web_db w) = []" and "distinct (map ue_key (user_emotion_metrics (web_db w)))"
    and "web_resp w = fresh_writer" and "getMetrics P r w = (res, w')"
  shows "res = Finished \<and> web_db w' = web_db w \<and> web_tasks w' = web_tasks w \<and>
    (case (parse_uuid P (r_param r ''userId''), parse_rfc3339nano (r_query r ''from''),
           parse_rfc3339nano (r_query r ''to''), bucketExpression (r_query r ''granularity'')) of
       (Some u, Some from, Some to, Inr un) \<Rightarrow>
         if r_query r ''from'' = '''' \<or> r_query r ''to'' = '''' \<or> fst to \<le> fst from
         then status_of_resp (web_resp w') = Some 400
         else status_of_resp (web_resp w') = Some 200 \<and>
           (\<exists>snap bs. web_resp w' = WriteJSON 200 (JMetrics (MetricsResponse u (r_query r ''granularity'') from to snap bs)) fresh_writer \<and>
              fst (LoadBuckets P u (fst from) (fst to) (r_query r ''granularity'') (web_db w)) = Inr bs \<and>
              RevengeTrades snap = revenge_of u (web_db w) \<and> OvertradingEvents snap = overtrading_of u (web_db w) \<and>
              PlanAdherenceScore snap = map_option (text_float P) (fst (score_of u (web_db w))) \<and>
              (\<forall>em. WinRateByEmotion snap (emotion_text em) =
                 map_option emotion_entry (tbl_lookup ue_key (u, em) (user_emotion_metrics (web_db w)))))
     | _ \<Rightarrow> status_of_resp (web_resp w') = Some 400)"
proof -
  let ?g = "r_query r ''granularity''"
  have fw: "w_sent fresh_writer = None" by (simp add: fresh_writer_def)
  have gran: "parseGranularity ?g = (case bucketExpression ?g of Inl e \<Rightarrow> parseGranularity ?g | Inr un \<Rightarrow> Inr ?g)"
    "(\<exists>e. parseGranularity ?g = Inl e) \<longleftrightarrow> (\<exists>e. bucketExpression ?g = Inl e)"
    by (auto simp: parseGranularity_def bucketExpression_def)
  have time: "x \<noteq> '''' \<Longrightarrow> parse_rfc3339nano x = Some t \<Longrightarrow> parseRFC3339 x = Inr t" for x t
    by (simp add: parseRFC3339_def)
  show ?thesis
  proof (cases "\<exists>u from to un. parse_uuid P (r_param r ''userId'') = Some u \<and> parse_rfc3339nano (r_query r ''from'') = Some from \<and>
      parse_rfc3339nano (r_query r ''to'') = Some to \<and> bucketExpression ?g = Inr un \<and>
      r_query r ''from'' \<noteq> '''' \<and> r_query r ''to'' \<noteq> '''' \<and> fst from < fst to")
    case True
    then obtain u fr t' un where p: "parse_uuid P (r_param r ''userId'') = Some u" "parse_rfc3339nano (r_query r ''from'') = Some fr"
      "parse_rfc3339nano (r_query r ''to'') = Some t'" "bucketExpression ?g = Inr un"
      "r_query r ''from'' \<noteq> ''''" "r_query r ''to'' \<noteq> ''''" "fst fr < fst t'" by blast
    have q: "parseRFC3339 (r_query r ''from'') = Inr fr" "parseRFC3339 (r_query r ''to'') = Inr t'"
      "parseGranularity ?g = Inr ?g" using time gran(1) p by simp_all
    obtain snap where snap: "LoadSnapshot P u (web_db w) = (Inr snap, web_db w)" "RevengeTrades snap = revenge_of u (web_db w)"
      "OvertradingEvents snap = overtrading_of u (web_db w)"
      "PlanAdherenceScore snap = map_option (text_float P) (fst (score_of u (web_db w)))"
      "\<forall>em. WinRateByEmotion snap (emotion_text em) =
                 map_option emotion_entry (tbl_lookup ue_key (u, em) (user_emotion_metrics (web_db w)))"
      using LoadSnapshot_healthy [OF assms(1,2), of P u] by blast
    have bs: "LoadBuckets P u (fst fr) (fst t') ?g (web_db w) =
        (Inr (bucket_rows P u (fst fr) (fst t') un (web_db w)), web_db w)"
      using p(4) assms(1) by (simp add: LoadBuckets_def db_simps)
    show ?thesis
      using assms(3,4) p q snap bs fw by (auto simp: getMetrics_def respond_def)
  next
    case False
    show ?thesis
      using assms(3,4) False fw gran(2)
      by (auto simp: getMetrics_def respond_def parseRFC3339_def split: option.splits sum.splits if_splits prod.splits)
  qed
qed

section \<open>Examples\<close>

theorem buckets_partition_witness:
  "\<exists>bs. LoadBuckets ref_platform 2 0 (10 ^ 12) ''daily'' (empty_db\<lparr>trades := [built_row ref_platform sample_input 0]\<rparr>) =
     (Inr bs, empty_db\<lparr>trades := [built_row ref_platform sample_input 0]\<rparr>) \<and> sum_list (map TradeCount bs) = 1"
  using buckets_partition [of "empty_db\<lparr>trades := [built_row ref_platform sample_input 0]\<rparr>" "''daily''" TruncDay
      ref_platform 2 0 "10 ^ 12"] built_row_fields(3,6) [OF sample_insertable, of 0]
  by (auto simp: bucketExpression_def to_timestamptz_def)

definition sample_query :: request where
  "sample_query = (request_by 2 2 sample_input)\<lparr>r_query := (\<lambda>k.
     if k = ''from'' then ''2025-01-01T00:00:00Z''
     else if k = ''to'' then ''2025-02-01T01:30:00.5+01:30'' else ''hourly'')\<rparr>"

theorem getMetrics_reports_witness:
  "status_of_resp (web_resp (snd (getMetrics ref_platform sample_query (web_on empty_db)))) = Some 200"
proof -
  have f: "parse_rfc3339nano ''2025-01-01T00:00:00Z'' = Some (1735689600 * 10 ^ 9, 0)"
    "parse_rfc3339nano ''2025-02-01T01:30:00.5+01:30'' = Some (1738368000500000000, 5400)" by code_simp+
  have q: "r_query sample_query ''from'' = ''2025-01-01T00:00:00Z''"
    "r_query sample_query ''to'' = ''2025-02-01T01:30:00.5+01:30''" "r_query sample_query ''granularity'' = ''hourly''"
    "r_param sample_query ''userId'' = show_uuid ref_platform 2" by (simp_all add: sample_query_def)
  have b: "bucketExpression ''hourly'' = Inr TruncHour" by (simp add: bucketExpression_def)
  let ?x = "getMetrics ref_platform sample_query (web_on empty_db)"
  show ?thesis
    using getMetrics_reports [of "web_on empty_db" ref_platform sample_query "fst ?x" "snd ?x"] b
    by (simp add: q f)
qed

end
