(* ===== verification/Auth.thy ===== *)
theory Auth imports Schema begin

text \<open>
  \<open>internal/auth\<close>: the verifier of bearer tokens (\<open>jwt.go\<close>) and the issuer the tests use (\<open>token.go\<close>).
  The JWT library is a parameter: parsing with a key function, the accepted algorithms and the demand for
  an expiry, at a moment; and signing.
\<close>

section \<open>The library\<close>

datatype claim = CStr string | CNum int | COther

text \<open>A parsed token; \<open>tok_claims\<close> is \<open>None\<close> when the claims are not \<open>MapClaims\<close>.\<close>

record token =
  tok_hmac :: bool
  tok_alg :: string
  tok_valid :: bool
  tok_claims :: "(string \<rightharpoonup> claim) option"

record jwt_lib =
  jwt_parse :: "instant \<Rightarrow> string \<Rightarrow> (token \<Rightarrow> go_error + string) \<Rightarrow> string list \<Rightarrow> bool \<Rightarrow> go_error + token"
  jwt_sign :: "string \<Rightarrow> (string \<rightharpoonup> claim) \<Rightarrow> string \<Rightarrow> go_error + string"

section \<open>Verifying\<close>

record claims =
  cl_user_id :: uuid
  cl_role :: string
  cl_name :: string

text \<open>\<open>NewVerifier\<close> panics on an empty secret.\<close>

definition NewVerifier :: "string \<Rightarrow> string + string" where
  "NewVerifier secret =
     (if length secret = 0 then Inl ''auth: empty JWT secret - refusing to start'' else Inr secret)"

definition keyfunc :: "string \<Rightarrow> token \<Rightarrow> go_error + string" where
  "keyfunc secret t = (if tok_hmac t then Inr secret else Inl (Plain ''unexpected alg''))"

definition claim_str :: "(string \<rightharpoonup> claim) \<Rightarrow> string \<Rightarrow> string" where
  "claim_str mc k = (case mc k of Some (CStr s) \<Rightarrow> s | _ \<Rightarrow> '''')"

definition Parse :: "jwt_lib \<Rightarrow> platform \<Rightarrow> instant \<Rightarrow> string \<Rightarrow> string \<Rightarrow> go_error + claims" where
  "Parse L P now secret tokenStr =
     (case jwt_parse L now tokenStr (keyfunc secret) [''HS256''] True of
        Inl _ \<Rightarrow> Inl ErrInvalidToken
      | Inr tok \<Rightarrow>
          if \<not> tok_valid tok then Inl ErrInvalidToken
          else (case tok_claims tok of
                  None \<Rightarrow> Inl ErrInvalidToken
                | Some mc \<Rightarrow>
                    (case parse_uuid P (claim_str mc ''sub'') of
                       None \<Rightarrow> Inl ErrInvalidToken
                     | Some uid \<Rightarrow>
                         (let role = claim_str mc ''role''
                          in if role = '''' then Inl ErrInvalidToken
                             else Inr \<lparr>cl_user_id = uid, cl_role = role, cl_name = claim_str mc ''name''\<rparr>))))"

section \<open>Issuing\<close>

definition day_ns :: int where "day_ns = 24 * 3600 * 10 ^ 9"

definition issued_claims :: "instant \<Rightarrow> string \<Rightarrow> string \<Rightarrow> string \<rightharpoonup> claim" where
  "issued_claims now sub name =
     [''sub'' \<mapsto> CStr sub, ''iat'' \<mapsto> CNum (now div 10 ^ 9), ''exp'' \<mapsto> CNum ((now + day_ns) div 10 ^ 9),
      ''role'' \<mapsto> CStr ''trader'', ''name'' \<mapsto> CStr name]"

definition IssueToken :: "jwt_lib \<Rightarrow> instant \<Rightarrow> string \<Rightarrow> string \<Rightarrow> string \<Rightarrow> go_error + string" where
  "IssueToken L now secret sub name = jwt_sign L ''HS256'' (issued_claims now sub name) secret"

section \<open>What the library promises\<close>

text \<open>
  A token comes back only if its algorithm is among those accepted, the key function gave the key its
  signature is genuine for, and its expiry lies in the future.
\<close>

definition jwt_sound :: "jwt_lib \<Rightarrow> (string \<Rightarrow> string \<Rightarrow> string \<Rightarrow> bool) \<Rightarrow> bool" where
  "jwt_sound L genuine \<longleftrightarrow> (\<forall>now s kf ms tok. jwt_parse L now s kf ms True = Inr tok \<longrightarrow>
     tok_alg tok \<in> set ms \<and> (\<exists>k. kf tok = Inr k \<and> genuine (tok_alg tok) k s) \<and>
     (\<forall>mc. tok_claims tok = Some mc \<longrightarrow> (\<exists>e. mc ''exp'' = Some (CNum e) \<and> now < e * 10 ^ 9)))"

text \<open>What was signed is read back with its claims while the expiry lies in the future, and is an error later.\<close>

definition signed_token :: "(string \<rightharpoonup> claim) \<Rightarrow> token" where
  "signed_token m = \<lparr>tok_hmac = True, tok_alg = ''HS256'', tok_valid = True, tok_claims = Some m\<rparr>"

definition jwt_complete :: "jwt_lib \<Rightarrow> bool" where
  "jwt_complete L \<longleftrightarrow> (\<forall>m k s now kf e. jwt_sign L ''HS256'' m k = Inr s \<longrightarrow> m ''exp'' = Some (CNum e) \<longrightarrow>
     kf (signed_token m) = Inr k \<longrightarrow>
     (if now < e * 10 ^ 9 then jwt_parse L now s kf [''HS256''] True = Inr (signed_token m)
      else \<exists>x. jwt_parse L now s kf [''HS256''] True = Inl x))"

text \<open>
  C25: \<open>Parse\<close> accepts what the library returned for this string under the server's secret, HS256 alone and a mandatory
  expiry, and nothing else: that very token is valid, HMAC signed with HS256, genuine under the secret, and has not
  expired; the user it is accepted for is the one its claim \<open>sub\<close> names, the role its non-empty claim \<open>role\<close>, the name
  its claim \<open>name\<close>. Every other outcome is the one error \<open>ErrInvalidToken\<close>, which is never given when all of this holds.
\<close>
theorem Parse_sound:
  assumes "jwt_sound L genuine"
  shows "case Parse L P now secret s of
      Inl e \<Rightarrow> e = ErrInvalidToken \<and>
        \<not> (\<exists>tok mc. jwt_parse L now s (keyfunc secret) [''HS256''] True = Inr tok \<and> tok_valid tok \<and> tok_claims tok = Some mc \<and>
             parse_uuid P (claim_str mc ''sub'') \<noteq> None \<and> claim_str mc ''role'' \<noteq> '''')
    | Inr c \<Rightarrow> genuine ''HS256'' secret s \<and>
        (\<exists>tok mc e. jwt_parse L now s (keyfunc secret) [''HS256''] True = Inr tok \<and> tok_valid tok \<and> tok_hmac tok \<and>
           tok_alg tok = ''HS256'' \<and> tok_claims tok = Some mc \<and> mc ''exp'' = Some (CNum e) \<and> now < e * 10 ^ 9 \<and>
           parse_uuid P (claim_str mc ''sub'') = Some (cl_user_id c) \<and>
           claim_str mc ''role'' = cl_role c \<and> cl_role c \<noteq> '''' \<and> claim_str mc ''name'' = cl_name c)"
proof (cases "Parse L P now secret s")
  case (Inl e)
  then show ?thesis by (auto simp: Parse_def Let_def split: sum.splits if_splits option.splits)
next
  case (Inr c)
  then obtain tok mc where t: "jwt_parse L now s (keyfunc secret) [''HS256''] True = Inr tok" "tok_claims tok = Some mc" "tok_valid tok"
      "parse_uuid P (claim_str mc ''sub'') = Some (cl_user_id c)" "claim_str mc ''role'' = cl_role c" "cl_role c \<noteq> ''''"
      "claim_str mc ''name'' = cl_name c"
    by (auto simp: Parse_def Let_def split: sum.splits if_splits option.splits)
  from assms t(1) obtain e k where e: "mc ''exp'' = Some (CNum e)" "now < e * 10 ^ 9"
    and k: "tok_alg tok = ''HS256''" "keyfunc secret tok = Inr k" "genuine (tok_alg tok) k s"
    unfolding jwt_sound_def using t(2) by fastforce
  have "tok_hmac tok" "genuine ''HS256'' secret s" using k by (auto simp: keyfunc_def split: if_splits)
  then show ?thesis unfolding Inr sum.case using t e k(1) by blast
qed

text \<open>
  A token issued for an identifier that parses is accepted by a verifier with the same secret for
  the second-aligned twenty-four hours after it was issued, as a trader of that name, and refused from then on.
\<close>
theorem issue_verify:
  assumes "jwt_complete L" and "IssueToken L now secret sub name = Inr s" and "parse_uuid P sub = Some u"
  shows "Parse L P now' secret s =
    (if now' < (now + 24 * 3600 * 10 ^ 9) div 10 ^ 9 * 10 ^ 9
     then Inr \<lparr>cl_user_id = u, cl_role = ''trader'', cl_name = name\<rparr> else Inl ErrInvalidToken)"
proof -
  let ?m = "issued_claims now sub name" let ?e = "(now + day_ns) div 10 ^ 9"
  have "jwt_sign L ''HS256'' ?m secret = Inr s" "?m ''exp'' = Some (CNum ?e)"
      "keyfunc secret (signed_token ?m) = Inr secret"
    using assms(2) by (simp_all add: IssueToken_def issued_claims_def keyfunc_def signed_token_def)
  then have "if now' < ?e * 10 ^ 9 then jwt_parse L now' s (keyfunc secret) [''HS256''] True = Inr (signed_token ?m)
      else \<exists>x. jwt_parse L now' s (keyfunc secret) [''HS256''] True = Inl x"
    using assms(1) unfolding jwt_complete_def by blast
  then show ?thesis
    using assms(3)
    by (auto simp: Parse_def signed_token_def claim_str_def issued_claims_def day_ns_def split: if_splits)
qed

section \<open>Examples\<close>

text \<open>A library that signs one set of claims with one secret.\<close>

definition sample_claims :: "string \<rightharpoonup> claim" where
  "sample_claims = issued_claims 0 (show_uuid ref_platform 2) ''Alex''"

definition ref_jwt :: jwt_lib where
  "ref_jwt = \<lparr>
     jwt_parse = (\<lambda>now s kf ms req.
       if s = ''tok'' \<and> ''HS256'' \<in> set ms \<and> kf (signed_token sample_claims) = Inr ''secret'' \<and> now < 86400 * 10 ^ 9
       then Inr (signed_token sample_claims) else Inl (Plain ''token is invalid'')),
     jwt_sign = (\<lambda>alg m k. if alg = ''HS256'' \<and> m = sample_claims \<and> k = ''secret'' then Inr ''tok'' else Inl (Plain ''''))\<rparr>"

lemma sample_exp: "sample_claims ''exp'' = Some (CNum 86400)"
  by (simp add: sample_claims_def issued_claims_def day_ns_def)

lemma ref_jwt_laws:
  "jwt_sound ref_jwt (\<lambda>alg k s. alg = ''HS256'' \<and> k = ''secret'' \<and> s = ''tok'')" "jwt_complete ref_jwt"
proof -
  show "jwt_sound ref_jwt (\<lambda>alg k s. alg = ''HS256'' \<and> k = ''secret'' \<and> s = ''tok'')"
    unfolding jwt_sound_def by (auto simp: ref_jwt_def signed_token_def sample_exp split: if_splits)
  show "jwt_complete ref_jwt"
    unfolding jwt_complete_def by (auto simp: ref_jwt_def signed_token_def sample_exp split: if_splits)
qed

lemma ref_issue: "IssueToken ref_jwt 0 ''secret'' (show_uuid ref_platform 2) ''Alex'' = Inr ''tok''"
  by (simp add: IssueToken_def ref_jwt_def sample_claims_def)

theorem issue_verify_witness:
  "Parse ref_jwt ref_platform 1 ''secret'' ''tok'' = Inr \<lparr>cl_user_id = 2, cl_role = ''trader'', cl_name = ''Alex''\<rparr> \<and>
   Parse ref_jwt ref_platform (86400 * 10 ^ 9) ''secret'' ''tok'' = Inl ErrInvalidToken"
  using issue_verify [OF ref_jwt_laws(2) ref_issue, where P = ref_platform and u = 2] by simp

text \<open>A second after it was issued the token is accepted for the user its claims name; under another secret it is not.\<close>

theorem Parse_sound_witness:
  "Parse ref_jwt ref_platform 1 ''secret'' ''tok'' = Inr \<lparr>cl_user_id = 2, cl_role = ''trader'', cl_name = ''Alex''\<rparr> \<and>
   Parse ref_jwt ref_platform 1 ''other'' ''tok'' = Inl ErrInvalidToken"
proof
  have p: "jwt_parse ref_jwt 1 ''tok'' (keyfunc ''secret'') [''HS256''] True = Inr (signed_token sample_claims)"
    by (simp add: ref_jwt_def keyfunc_def signed_token_def)
  have c: "tok_valid (signed_token sample_claims)" "tok_claims (signed_token sample_claims) = Some sample_claims"
    "parse_uuid ref_platform (claim_str sample_claims ''sub'') = Some 2" "claim_str sample_claims ''role'' = ''trader''"
    "claim_str sample_claims ''name'' = ''Alex''"
    by (simp_all add: signed_token_def sample_claims_def issued_claims_def claim_str_def)
  note sound = Parse_sound [OF ref_jwt_laws(1), where P = ref_platform and now = 1 and s = "''tok''"]
  show "Parse ref_jwt ref_platform 1 ''secret'' ''tok'' = Inr \<lparr>cl_user_id = 2, cl_role = ''trader'', cl_name = ''Alex''\<rparr>"
  proof (cases "Parse ref_jwt ref_platform 1 ''secret'' ''tok''")
    case (Inl e)
    then show ?thesis using sound [of "''secret''"] p c by auto
  next
    case (Inr r)
    then show ?thesis using sound [of "''secret''"] p c by (cases r) auto
  qed
  show "Parse ref_jwt ref_platform 1 ''other'' ''tok'' = Inl ErrInvalidToken"
    using sound [of "''other''"] by (auto split: sum.splits)
qed

end
