(* ===== verification/Middleware.thy ===== *)
theory Middleware imports Httpx Auth begin

text \<open>
  The middleware of \<open>internal/middleware\<close>: trace identifiers, the request log with its status
  recorder, the panic recoverer, bearer authentication and the path tenancy guard. A middleware maps a
  handler to a handler. The process clock is the clock of the database state; a request's own work takes no
  time in the model.
\<close>

section \<open>Trace\<close>

definition HeaderTraceID :: string where "HeaderTraceID = ''X-Trace-Id''"

definition Trace :: "platform \<Rightarrow> handler \<Rightarrow> handler" where
  "Trace P next r w =
     (let given = r_header r HeaderTraceID;
          (i, w1) = (if given = '''' then (show_uuid P (new_uuid P (draws (web_db w))),
                       w\<lparr>web_db := (web_db w)\<lparr>draws := Suc (draws (web_db w))\<rparr>\<rparr>) else (given, w));
          w2 = w1\<lparr>web_resp := SetHeader HeaderTraceID i (web_resp w1)\<rparr>
      in next (WithContext r (WithTraceID (r_context r) i)) w2)"

section \<open>Request log\<close>

definition level_for :: "int \<Rightarrow> level" where
  "level_for st = (if 500 \<le> st then Error else if 400 \<le> st then Warn else Info)"

definition record_on :: "web \<Rightarrow> web" where
  "record_on w = w\<lparr>web_resp := (web_resp w)\<lparr>w_recorder := Some (0, [])\<rparr>\<rparr>"

definition record_off :: "web \<Rightarrow> web" where
  "record_off w = w\<lparr>web_resp := (web_resp w)\<lparr>w_recorder := None\<rparr>\<rparr>"

definition recorded :: "web \<Rightarrow> int \<times> json list" where
  "recorded w = (case w_recorder (web_resp w) of None \<Rightarrow> (0, []) | Some x \<Rightarrow> x)"

text \<open>A panic passes through: the line after the handler's return is not reached.\<close>

definition Logger_mw :: "logger \<Rightarrow> handler \<Rightarrow> handler" where
  "Logger_mw base next r w =
     (let start = clock (web_db w);
          reqLog = base @ [(''traceId'', AStr (TraceID (r_context r)))];
          ctx = WithLogger (r_context r) reqLog
      in case next (WithContext r ctx) (record_on w) of
           (Panicked p, w1) \<Rightarrow> (Panicked p, record_off w1)
         | (Finished, w1) \<Rightarrow>
             (case recorded w1 of (st, out) \<Rightarrow>
                (let latency = (clock (web_db w1) - start) div 10 ^ 6;
                     fields = [(''traceId'', AStr (TraceID (r_context r))), (''method'', AStr (r_method r)),
                               (''path'', AStr (r_path r)), (''statusCode'', AInt st), (''latency'', AInt latency),
                               (''bytes'', ASize out)] @
                       (case ctx_UserID (r_context r) of None \<Rightarrow> [] | Some u \<Rightarrow> [(''userId'', AUuid u)])
                 in (Finished, log_line (level_for st) base ''request'' fields (record_off w1)))))"

section \<open>Recoverer\<close>

definition Recoverer :: "logger \<Rightarrow> handler \<Rightarrow> handler" where
  "Recoverer lg next r w =
     (case next r w of
        (Finished, w1) \<Rightarrow> (Finished, w1)
      | (Panicked p, w1) \<Rightarrow>
          respond (WriteError r 500 ''INTERNAL_ERROR'' ''Unexpected error.'')
            (log_line Error lg ''panic recovered''
              [(''traceId'', AStr (TraceID (r_context r))), (''panic'', AStr p), (''stack'', AStack), (''path'', AStr (r_path r)),
               (''method'', AStr (r_method r))] w1))"

section \<open>Authentication\<close>

text \<open>\<open>strings.TrimSpace\<close> on ASCII text.\<close>

definition is_space :: "char \<Rightarrow> bool" where
  "is_space c \<longleftrightarrow> c \<in> {CHR 0x09, CHR 0x0A, CHR 0x0B, CHR 0x0C, CHR 0x0D, CHR '' ''}"

definition TrimSpace :: "string \<Rightarrow> string" where
  "TrimSpace s = rev (dropWhile is_space (rev (dropWhile is_space s)))"

definition bearer :: string where "bearer = ''Bearer ''"

definition Authenticator :: "jwt_lib \<Rightarrow> platform \<Rightarrow> string \<Rightarrow> handler \<Rightarrow> handler" where
  "Authenticator L P secret next r w =
     (let h = r_header r ''Authorization''
      in if h = '''' then respond (WriteError r 401 ''UNAUTHORIZED'' ''Missing Authorization header.'') w
         else if \<not> prefix bearer h
         then respond (WriteError r 401 ''UNAUTHORIZED'' ''Authorization header must use Bearer scheme.'') w
         else (case Parse L P (clock (web_db w)) secret (TrimSpace (drop (length bearer) h)) of
                 Inl e \<Rightarrow> respond (WriteError r 401 ''UNAUTHORIZED'' ''Invalid or expired token.'') w
               | Inr c \<Rightarrow>
                   (let ctx = WithUserID (r_context r) (cl_user_id c);
                        reqLog = Logger_of ctx @ [(''userId'', AStr (show_uuid P (cl_user_id c)))]
                    in next (WithContext r (WithLogger ctx reqLog)) w)))"

definition RequireUserMatch :: "platform \<Rightarrow> (request \<Rightarrow> string) \<Rightarrow> handler \<Rightarrow> handler" where
  "RequireUserMatch P pathUserID next r w =
     (case ctx_UserID (r_context r) of
        None \<Rightarrow> respond (WriteError r 401 ''UNAUTHORIZED'' ''Missing authenticated user.'') w
      | Some tokenUID \<Rightarrow>
          (case parse_uuid P (pathUserID r) of
             None \<Rightarrow> respond (WriteError r 400 ''BAD_REQUEST'' ''userId path parameter must be a UUID.'') w
           | Some pathUID \<Rightarrow>
               if tokenUID \<noteq> pathUID
               then respond (WriteError r 403 ''FORBIDDEN'' ''Cross-tenant access denied.'') w
               else next r w))"

end
