(* ===== verification/Health.thy ===== *)
theory Health imports Httpx Stream_Laws begin

text \<open>
  \<open>GET /health\<close> of \<open>internal/health/handler.go\<close>: a bounded ping of the database and the lag of the consumer
  group. The ping's outcome comes from the script of the connection, like a statement's.
\<close>

definition ping :: "db \<Rightarrow> sql_error option \<times> db" where
  "ping s = (case next_fault s of (f, s1) \<Rightarrow> ((case f of FOk \<Rightarrow> None | _ \<Rightarrow> Some ConnFail), s1))"

definition check :: "('q redis \<times> consumer) option \<Rightarrow> request \<Rightarrow> web \<times> 'q \<Rightarrow> outcome_of \<times> web \<times> 'q" where
  "check cons r wq = (case wq of (w, q) \<Rightarrow>
     (let now = clock (web_db w)
      in case ping (web_db w) of (p, s1) \<Rightarrow>
         (let (st, dbc, code) = (case p of None \<Rightarrow> (''ok'', ''connected'', 200) | Some _ \<Rightarrow> (''degraded'', ''disconnected'', 503));
              (lag, q1) = (case cons of
                  None \<Rightarrow> (0, q)
                | Some (R, c) \<Rightarrow> (case QueueLag R c q of (Inr n, q1) \<Rightarrow> (n, q1) | (Inl e, q1) \<Rightarrow> (0, q1)))
          in case respond (WriteJSON code (JHealth (HealthResponse st dbc lag now))) (w\<lparr>web_db := s1\<rparr>) of
               (res, w1) \<Rightarrow> (res, w1, q1))))"

text \<open>
  The health answer reports the database alone: status 200 and "ok" exactly when the ping succeeded,
  503 and "degraded" otherwise; a failing queue leaves the status and shows as lag 0, and a consumer group
  that does not exist counts as no lag.
\<close>
theorem check_reports:
  assumes "w_sent (web_resp w) = None" and "check cons r (w, q) = (res, w', q')" and "encodable_time (clock (web_db w), 0)"
  shows "\<exists>lag. res = Finished \<and>
    w_body (web_resp w') = w_body (web_resp w) @
      [JHealth (if fst (ping (web_db w)) = None then HealthResponse ''ok'' ''connected'' lag (clock (web_db w))
                else HealthResponse ''degraded'' ''disconnected'' lag (clock (web_db w)))] \<and>
    status_of_resp (web_resp w') = Some (if fst (ping (web_db w)) = None then 200 else 503) \<and>
    (case cons of None \<Rightarrow> lag = 0
     | Some (R, c) \<Rightarrow> lag = (case fst (xpending R (c_stream c) (c_group c) q) of Inr n \<Rightarrow> n | Inl e \<Rightarrow> 0)) \<and>
    same_tables (web_db w) (web_db w')"
proof -
  obtain p s1 where p: "ping (web_db w) = (p, s1)" by fastforce
  have same: "same_tables (web_db w) s1"
    using same_tables_next [of "web_db w"] p by (auto simp: ping_def split: prod.splits)
  obtain lag q1 where l: "(case cons of None \<Rightarrow> (0, q)
      | Some (R, c) \<Rightarrow> (case QueueLag R c q of (Inr n, q1) \<Rightarrow> (n, q1) | (Inl e, q1) \<Rightarrow> (0, q1))) = (lag, q1)" by fastforce
  have lag: "case cons of None \<Rightarrow> lag = 0
     | Some (R, c) \<Rightarrow> lag = (case fst (xpending R (c_stream c) (c_group c) q) of Inr n \<Rightarrow> n | Inl e \<Rightarrow> 0)"
    using l by (auto simp: QueueLag_def split: option.splits prod.splits sum.splits if_splits)
  show ?thesis
    using assms p l lag same
    by (intro exI [of _ lag]) (cases p; auto simp: check_def Let_def respond_def encodable_def)
qed

definition cut_off :: web where
  "cut_off = web_on (empty_db\<lparr>faults := [FFail]\<rparr>)"

theorem check_reports_witness:
  "status_of_resp (web_resp (fst (snd (check (Some (ref_redis, ref_consumer)) (request_by 1 1 sample_input)
     (cut_off, one_entry Map.empty (Owed 1)))))) = Some 503"
proof -
  have "year_of 0 = 1970" by code_simp
  then have e: "encodable_time (clock (web_db cut_off), 0)" by (simp add: encodable_time_def cut_off_def)
  have "w_sent (web_resp cut_off) = None" by (simp add: cut_off_def fresh_writer_def)
  moreover obtain res w' q' where c: "check (Some (ref_redis, ref_consumer)) (request_by 1 1 sample_input)
     (cut_off, one_entry Map.empty (Owed 1)) = (res, w', q')" by (metis prod_cases3)
  ultimately show ?thesis using check_reports [OF _ c e] by (auto simp: cut_off_def ping_def next_fault_def)
qed

end
