(* ===== verification/Api.thy ===== *)
theory Api imports Trade_Handler Metrics_Handler Middleware Health begin

text \<open>
  The router of \<open>cmd/api/main.go\<close>: the routes in the order they are registered, the middleware chain, the
  landing page and the static files. The matching of a method and a path against the registered patterns is
  chi's and a parameter, as is how the file server sends a file. The \<open>Allow\<close> header of chi's answer 405 is left
  out.
\<close>

section \<open>Static content\<close>

definition writeText :: "string \<Rightarrow> writer \<Rightarrow> writer" where
  "writeText body w = Write (JText body) w"

definition landing :: "string \<Rightarrow> writer \<Rightarrow> writer" where
  "landing landingHTML w = writeText landingHTML (SetHeader ''Content-Type'' ''text/html; charset=utf-8'' w)"

text \<open>\<open>http.Error\<close>.\<close>

definition http_Error :: "string \<Rightarrow> int \<Rightarrow> writer \<Rightarrow> writer" where
  "http_Error msg code w =
     writeText (msg @ [CHR 0x0A]) (WriteHeader code (SetHeader ''X-Content-Type-Options'' ''nosniff''
       (SetHeader ''Content-Type'' ''text/plain; charset=utf-8'' w)))"

record file_info = fi_is_dir :: bool

record files =
  stat :: "string \<Rightarrow> file_info option"
  serve_file :: "request \<Rightarrow> string \<Rightarrow> writer \<Rightarrow> writer"

fun first_file :: "files \<Rightarrow> string list \<Rightarrow> string option" where
  "first_file F [] = None"
| "first_file F (p # ps) =
     (case stat F p of
        Some fi \<Rightarrow> if \<not> fi_is_dir fi then Some p else first_file F ps
      | None \<Rightarrow> first_file F ps)"

definition serveStatic :: "files \<Rightarrow> request \<Rightarrow> string \<Rightarrow> string \<Rightarrow> writer \<Rightarrow> writer" where
  "serveStatic F r rel contentType w =
     (let candidates = [rel, ''/app/'' @ rel, ''./'' @ rel]
      in case first_file F candidates of
           Some p \<Rightarrow> serve_file F r p (SetHeader ''Content-Type'' contentType w)
         | None \<Rightarrow> http_Error ''report not bundled in this build'' 404 w)"

section \<open>The router\<close>

datatype route = Health_route | Landing_route | Report_route | Summary_route | Create_route | Get_route | Metrics_route

text \<open>What each \<open>Mount\<close> registers.\<close>

definition health_Mount :: "(string \<times> string \<times> route) list" where
  "health_Mount = [(''GET'', ''/health'', Health_route)]"

definition trades_Mount :: "(string \<times> string \<times> route) list" where
  "trades_Mount = [(''POST'', ''/trades'', Create_route), (''GET'', ''/trades/{tradeId}'', Get_route)]"

definition metrics_Mount :: "(string \<times> string \<times> route) list" where
  "metrics_Mount = [(''GET'', ''/users/{userId}/metrics'', Metrics_route)]"

definition routes :: "(string \<times> string \<times> route) list" where
  "routes = health_Mount @
     [(''GET'', ''/'', Landing_route), (''GET'', ''/loadtest/report.html'', Report_route),
      (''GET'', ''/loadtest/summary.json'', Summary_route)] @
     trades_Mount @ metrics_Mount"

text \<open>chi's answer: no pattern fits the path, one fits with another method, or a route with its parameters.\<close>

datatype match = NotFound | NotAllowed | Matched route "string \<Rightarrow> string"

type_synonym chi = "(string \<times> string \<times> route) list \<Rightarrow> string \<Rightarrow> string \<Rightarrow> match"

text \<open>What the handlers are built from.\<close>

record 'q deps =
  d_platform :: platform
  d_jwt :: jwt_lib
  d_secret :: string
  d_logger :: logger
  d_chi :: chi
  d_files :: files
  d_landing :: string
  d_redis :: "'q redis"
  d_health_consumer :: consumer

definition authed :: "'q deps \<Rightarrow> handler \<Rightarrow> handler" where
  "authed D = Authenticator (d_jwt D) (d_platform D) (d_secret D)"

text \<open>The health probe reads the stream server as it is when the request arrives.\<close>

definition dispatch :: "'q deps \<Rightarrow> 'q \<Rightarrow> route \<Rightarrow> handler" where
  "dispatch D q rt = (case rt of
     Health_route \<Rightarrow> (\<lambda>r w. case check (Some (d_redis D, d_health_consumer D)) r (w, q) of (res, w1, q1) \<Rightarrow> (res, w1))
   | Landing_route \<Rightarrow> (\<lambda>r. respond (landing (d_landing D)))
   | Report_route \<Rightarrow> (\<lambda>r. respond (serveStatic (d_files D) r ''loadtest/results/report.html'' ''text/html; charset=utf-8''))
   | Summary_route \<Rightarrow> (\<lambda>r. respond (serveStatic (d_files D) r ''loadtest/results/summary.json'' ''application/json''))
   | Create_route \<Rightarrow> authed D (create (d_platform D) True)
   | Get_route \<Rightarrow> authed D (get (d_platform D))
   | Metrics_route \<Rightarrow> authed D (RequireUserMatch (d_platform D) (\<lambda>r. r_param r ''userId'') (getMetrics (d_platform D))))"

definition mux :: "'q deps \<Rightarrow> 'q \<Rightarrow> handler" where
  "mux D q r w =
     (case d_chi D routes (r_method r) (r_path r) of
        NotFound \<Rightarrow> respond (http_Error ''404 page not found'' 404) w
      | NotAllowed \<Rightarrow> respond (WriteHeader 405) w
      | Matched rt params \<Rightarrow> dispatch D q rt (r\<lparr>r_param := params\<rparr>) w)"

definition serve :: "'q deps \<Rightarrow> 'q \<Rightarrow> handler" where
  "serve D q = Trace (d_platform D) (Logger_mw (d_logger D) (Recoverer (d_logger D) (mux D q)))"

section \<open>What holds of every route\<close>

text \<open>
  The contract between the router and what it mounts: a law of handlers that every endpoint meets, that the guards and
  the recoverer pass on, and that does not look at path parameters, holds of the whole mux, whichever route matches.
\<close>

locale handler_law =
  fixes law :: "handler \<Rightarrow> bool" and D :: "'q deps"
  assumes routed: "(\<And>r. law (h r)) \<Longrightarrow> law (\<lambda>r w. h r (r\<lparr>r_param := p r\<rparr>) w)"
    and probe: "law (\<lambda>r w. case check (Some (d_redis D, d_health_consumer D)) r (w, q) of (res, w1, q1) \<Rightarrow> (res, w1))"
    and page: "law (\<lambda>r. respond (landing html))"
    and static: "law (\<lambda>r. respond (serveStatic (d_files D) r path ct))"
    and unmatched: "law (\<lambda>r. respond (http_Error ''404 page not found'' 404))" "law (\<lambda>r. respond (WriteHeader 405))"
    and endpoints: "law (create P True)" "law (get P)" "law (getMetrics P)"
    and guarded: "law h' \<Longrightarrow> law (Authenticator L P secret h')" "law h' \<Longrightarrow> law (RequireUserMatch P f h')"
    and recovered: "law h' \<Longrightarrow> law (Recoverer lg h')"
begin

lemma dispatch_law: "law (dispatch D q rt)"
  by (cases rt) (simp_all add: dispatch_def authed_def probe page static endpoints guarded)

lemma mux_law: "law (mux D q)"
proof -
  let ?m = "\<lambda>r. d_chi D routes (r_method r) (r_path r)"
  let ?h = "\<lambda>r. case ?m r of NotFound \<Rightarrow> (\<lambda>r. respond (http_Error ''404 page not found'' 404))
     | NotAllowed \<Rightarrow> (\<lambda>r. respond (WriteHeader 405)) | Matched rt params \<Rightarrow> dispatch D q rt"
  let ?p = "\<lambda>r. case ?m r of Matched rt params \<Rightarrow> params | _ \<Rightarrow> r_param r"
  have "law (?h r)" for r by (simp add: unmatched dispatch_law split: match.split)
  then have "law (\<lambda>r w. ?h r (r\<lparr>r_param := ?p r\<rparr>) w)" by (rule routed)
  moreover have "mux D q = (\<lambda>r w. ?h r (r\<lparr>r_param := ?p r\<rparr>) w)"
    by (intro ext) (simp add: mux_def split: match.split)
  ultimately show ?thesis by simp
qed

lemma recovered_mux_law: "law (Recoverer lg (mux D q))"
  by (intro recovered mux_law)

end

section \<open>Trace identifiers\<close>

text \<open>The header is set and was sent, and every error body carries the identifier.\<close>

definition traced :: "string \<Rightarrow> writer \<Rightarrow> bool" where
  "traced i w \<longleftrightarrow> w_header w HeaderTraceID = Some i \<and>
     (\<forall>st hd. w_sent w = Some (st, hd) \<longrightarrow> hd HeaderTraceID = Some i) \<and>
     (\<forall>e. JError e \<in> set (w_body w) \<longrightarrow> er_trace_id e = i)"

definition keeps_trace :: "handler \<Rightarrow> bool" where
  "keeps_trace h \<longleftrightarrow> (\<forall>r w i. key_trace_id (r_context r) = Some i \<longrightarrow> traced i (web_resp w) \<longrightarrow>
     traced i (web_resp (snd (h r w))))"

lemma traced_steps:
  "k \<noteq> HeaderTraceID \<Longrightarrow> traced i w \<Longrightarrow> traced i (SetHeader k v w)"
  "traced i w \<Longrightarrow> traced i (WriteHeader st w)"
  "traced i w \<Longrightarrow> (\<And>e. j = JError e \<Longrightarrow> er_trace_id e = i) \<Longrightarrow> traced i (Write j w)"
  by (auto simp: traced_def SetHeader_def WriteHeader_def Write_def http_write_header_def http_write_def Let_def
      split: option.splits)

lemma traced_WriteError:
  "key_trace_id (r_context r) = Some i \<Longrightarrow> traced i w \<Longrightarrow> traced i (WriteError r st code msg w)"
  unfolding WriteError_def Encode_def
  by (auto intro!: traced_steps simp: HeaderTraceID_def TraceID_def)

lemma traced_WriteJSON: "(\<And>e. v \<noteq> JError e) \<Longrightarrow> traced i w \<Longrightarrow> traced i (WriteJSON st v w)"
  unfolding WriteJSON_def Encode_def
  by (auto intro!: traced_steps simp: HeaderTraceID_def)

lemma web_resp_upd [simp]: "web_resp (w\<lparr>web_db := s, web_tasks := t\<rparr>) = web_resp w" "web_resp (w\<lparr>web_db := s\<rparr>) = web_resp w"
  by simp_all

lemma create_traced: "keeps_trace (create P hp)"
  unfolding keeps_trace_def
  by (auto simp: create_def intro!: traced_WriteError traced_WriteJSON split: sum.splits option.splits prod.splits)

lemma get_traced: "keeps_trace (get P)"
  unfolding keeps_trace_def
  by (auto simp: get_def Let_def intro!: traced_WriteError traced_WriteJSON split: sum.splits option.splits prod.splits)

lemma getMetrics_traced: "keeps_trace (getMetrics P)"
  unfolding keeps_trace_def
  by (auto simp: getMetrics_def intro!: traced_WriteError traced_WriteJSON split: sum.splits option.splits prod.splits)

lemma Authenticator_traced: "keeps_trace next \<Longrightarrow> keeps_trace (Authenticator L P secret next)"
  unfolding keeps_trace_def
  by (auto simp: Authenticator_def Let_def WithContext_def WithLogger_def WithUserID_def intro!: traced_WriteError
      split: sum.splits)

lemma RequireUserMatch_traced: "keeps_trace next \<Longrightarrow> keeps_trace (RequireUserMatch P f next)"
  unfolding keeps_trace_def
  by (auto simp: RequireUserMatch_def intro!: traced_WriteError split: option.splits)

text \<open>What is asked of the file server: it keeps the trace header, writes no error body of this API, and answers.\<close>

definition answered :: "writer \<Rightarrow> bool" where
  "answered w \<longleftrightarrow> (\<exists>c h out. w_sent w = Some (c, h) \<and> w_recorder w = Some (c, out))"

definition unanswered :: "writer \<Rightarrow> bool" where
  "unanswered w \<longleftrightarrow> w_sent w = None \<and> w_recorder w = Some (0, [])"

definition file_server_ok :: "files \<Rightarrow> bool" where
  "file_server_ok F \<longleftrightarrow> (\<forall>r p w.
     (\<forall>i. traced i w \<longrightarrow> traced i (serve_file F r p w)) \<and>
     (unanswered w \<longrightarrow> answered (serve_file F r p w)))"

lemma http_Error_traced: "traced i w \<Longrightarrow> traced i (http_Error msg code w)"
  unfolding http_Error_def writeText_def by (intro traced_steps) (simp_all add: HeaderTraceID_def)

lemma serveStatic_traced:
  assumes "file_server_ok F" and "traced i w"
  shows "traced i (serveStatic F r rel ct w)"
proof -
  have "traced i (SetHeader ''Content-Type'' ct w)" using assms(2) by (intro traced_steps(1)) (simp_all add: HeaderTraceID_def)
  with assms show ?thesis
    by (simp add: serveStatic_def Let_def file_server_ok_def http_Error_traced del: first_file.simps split: option.split)
qed

lemma check_traced: "traced i (web_resp w) \<Longrightarrow> check cons r (w, q) = (res, w', q') \<Longrightarrow> traced i (web_resp w')"
  by (auto simp: check_def Let_def respond_def intro!: traced_WriteJSON split: prod.splits option.splits)

lemma Recoverer_traced: "keeps_trace next \<Longrightarrow> keeps_trace (Recoverer lg next)"
  unfolding keeps_trace_def
  by (auto simp: Recoverer_def intro!: traced_WriteError split: prod.splits outcome_of.splits) (metis snd_conv)+

interpretation tracing: handler_law "\<lambda>h. file_server_ok (d_files D) \<longrightarrow> keeps_trace h" D for D :: "'q deps"
proof
  fix q :: 'q and r html path ct
  show "file_server_ok (d_files D) \<longrightarrow>
      keeps_trace (\<lambda>r w. case check (Some (d_redis D, d_health_consumer D)) r (w, q) of (res, w1, q1) \<Rightarrow> (res, w1))"
    by (auto simp: keeps_trace_def split: prod.splits dest: check_traced [rotated])
  show "file_server_ok (d_files D) \<longrightarrow> keeps_trace (\<lambda>r. respond (landing html))"
    by (auto simp: keeps_trace_def landing_def writeText_def HeaderTraceID_def intro!: traced_steps)
  show "file_server_ok (d_files D) \<longrightarrow> keeps_trace (\<lambda>r. respond (serveStatic (d_files D) r path ct))"
    by (auto simp: keeps_trace_def intro!: serveStatic_traced)
qed (auto simp: create_traced get_traced getMetrics_traced Authenticator_traced RequireUserMatch_traced Recoverer_traced,
     auto simp: keeps_trace_def http_Error_traced traced_steps(2))

lemma traced_recorder [simp]: "traced i (w\<lparr>w_recorder := x\<rparr>) = traced i w"
  by (simp add: traced_def)

lemma Logger_traced:
  assumes "keeps_trace next"
  shows "keeps_trace (Logger_mw lg next)"
  unfolding keeps_trace_def
proof (intro allI impI)
  fix r :: request and w :: web and i
  assume i: "key_trace_id (r_context r) = Some i" "traced i (web_resp w)"
  let ?r = "WithContext r (WithLogger (r_context r) (lg @ [(''traceId'', AStr (TraceID (r_context r)))]))"
  have "traced i (web_resp (snd (next ?r (record_on w))))"
    using assms i unfolding keeps_trace_def by (auto simp: WithContext_def WithLogger_def record_on_def)
  then show "traced i (web_resp (snd (Logger_mw lg next r w)))"
    by (cases "next ?r (record_on w)")
       (auto simp: Logger_mw_def Let_def record_off_def split: prod.split outcome_of.split)
qed

text \<open>What the first middleware hands on.\<close>

definition trace_id_of :: "platform \<Rightarrow> request \<Rightarrow> web \<Rightarrow> string" where
  "trace_id_of P r w = (if r_header r HeaderTraceID = '''' then show_uuid P (new_uuid P (draws (web_db w)))
     else r_header r HeaderTraceID)"

lemma Trace_hands:
  "\<exists>w1. Trace P next r w = next (r\<lparr>r_context := WithTraceID (r_context r) (trace_id_of P r w)\<rparr>) w1 \<and>
     web_resp w1 = SetHeader HeaderTraceID (trace_id_of P r w) (web_resp w) \<and> web_logs w1 = web_logs w \<and>
     web_tasks w1 = web_tasks w \<and> web_db w1 = (web_db w)\<lparr>draws := draws (web_db w1)\<rparr>"
  by (auto simp: Trace_def Let_def WithContext_def trace_id_of_def)

text \<open>
  C30: every response carries the request's trace identifier, the client's own or a fresh UUID: it is in the
  headers that were sent, and every error body names it, whichever route, middleware or panic produced it.
\<close>
theorem serve_traced:
  assumes "file_server_ok (d_files D)" and "web_resp w = fresh_writer" and "serve D q r w = (res, w')"
    and "i = trace_id_of (d_platform D) r w"
  shows "(\<forall>st hd. w_sent (web_resp w') = Some (st, hd) \<longrightarrow> hd ''X-Trace-Id'' = Some i) \<and>
    (\<forall>e. JError e \<in> set (w_body (web_resp w')) \<longrightarrow> er_trace_id e = i)"
proof -
  have k: "keeps_trace (Logger_mw (d_logger D) (Recoverer (d_logger D) (mux D q)))"
    by (intro Logger_traced mp [OF tracing.recovered_mux_law assms(1)])
  have t: "traced i (SetHeader HeaderTraceID i fresh_writer)"
    by (simp add: traced_def SetHeader_def fresh_writer_def)
  obtain w1 where "serve D q r w = Logger_mw (d_logger D) (Recoverer (d_logger D) (mux D q))
      (r\<lparr>r_context := WithTraceID (r_context r) i\<rparr>) w1" and "web_resp w1 = SetHeader HeaderTraceID i fresh_writer"
    using Trace_hands [of "d_platform D" _ r w] assms(2,4) unfolding serve_def by metis
  then have "traced i (web_resp (snd (serve D q r w)))" using k t by (auto simp: keeps_trace_def WithTraceID_def)
  then show ?thesis using assms(3) by (simp add: traced_def HeaderTraceID_def)
qed

section \<open>The request log\<close>

text \<open>A handler that answers once, returns, and leaves the request line to the middleware.\<close>

definition quiet_logs :: "web \<Rightarrow> web \<Rightarrow> bool" where
  "quiet_logs w w' \<longleftrightarrow> (\<exists>ls. web_logs w' = web_logs w @ ls \<and> (\<forall>x \<in> set ls. fst (snd x) \<noteq> ''request''))"

definition answers :: "handler \<Rightarrow> bool" where
  "answers h \<longleftrightarrow> (\<forall>r w. unanswered (web_resp w) \<longrightarrow>
     fst (h r w) = Finished \<and> answered (web_resp (snd (h r w))) \<and> quiet_logs w (snd (h r w)))"

lemma answered_steps:
  "unanswered w \<Longrightarrow> unanswered (SetHeader k v w)"
  "unanswered w \<Longrightarrow> answered (WriteHeader st w)"
  "unanswered w \<Longrightarrow> answered (Write j w)"
  by (auto simp: answered_def unanswered_def SetHeader_def WriteHeader_def Write_def http_write_header_def
      http_write_def Let_def)

lemma answered_Write: "unanswered w \<Longrightarrow> st \<noteq> 0 \<Longrightarrow> answered (Write j (WriteHeader st w))"
  by (auto simp: answered_def unanswered_def WriteHeader_def Write_def http_write_header_def http_write_def Let_def)

lemma answered_responses:
  "unanswered w \<Longrightarrow> st \<noteq> 0 \<Longrightarrow> answered (WriteError r st code msg w)"
  "unanswered w \<Longrightarrow> st \<noteq> 0 \<Longrightarrow> answered (WriteJSON st v w)"
  "unanswered w \<Longrightarrow> st \<noteq> 0 \<Longrightarrow> answered (http_Error msg st w)"
  unfolding WriteError_def WriteJSON_def http_Error_def writeText_def Encode_def
  by (auto intro!: answered_Write answered_steps(1,2))

lemma quiet_logs_intros:
  "quiet_logs w w" "msg \<noteq> ''request'' \<Longrightarrow> quiet_logs w (log_line lv lg msg ats (w\<lparr>web_db := s\<rparr>))"
  "quiet_logs w (w\<lparr>web_db := s\<rparr>)" "quiet_logs w (w\<lparr>web_db := s, web_tasks := t\<rparr>)"
  by (auto simp: quiet_logs_def log_line_def respond_def)

lemma quiet_logs_respond: "quiet_logs w w1 \<Longrightarrow> quiet_logs w (snd (respond f w1))"
  by (simp add: quiet_logs_def)

lemma respond_answers:
  assumes "unanswered (web_resp w1)" and "\<And>u. unanswered u \<Longrightarrow> answered (f u)" and "quiet_logs w w1"
  shows "fst (respond f w1) = Finished \<and> answered (web_resp (snd (respond f w1))) \<and> quiet_logs w (snd (respond f w1))"
  using assms by (simp add: quiet_logs_def)

lemma create_answers: "answers (create P hp)"
  unfolding answers_def create_def
  by (auto intro!: respond_answers answered_responses quiet_logs_respond quiet_logs_intros split: sum.splits option.splits prod.splits)

lemma get_answers: "answers (get P)"
  unfolding answers_def get_def Let_def
  by (auto intro!: respond_answers answered_responses quiet_logs_respond quiet_logs_intros split: sum.splits option.splits prod.splits)

lemma getMetrics_answers: "answers (getMetrics P)"
  unfolding answers_def getMetrics_def
  by (auto intro!: respond_answers answered_responses quiet_logs_respond quiet_logs_intros split: sum.splits option.splits prod.splits)

lemma check_answers:
  "unanswered (web_resp w) \<Longrightarrow> check cons r (w, q) = (res, w', q') \<Longrightarrow>
     res = Finished \<and> answered (web_resp w') \<and> web_logs w' = web_logs w"
  by (auto simp: check_def Let_def respond_def intro!: answered_responses split: prod.splits option.splits)

lemma Authenticator_answers: "answers next \<Longrightarrow> answers (Authenticator L P secret next)"
  unfolding answers_def
  by (auto simp: Authenticator_def Let_def intro!: answered_responses quiet_logs_respond quiet_logs_intros split: sum.splits)

lemma RequireUserMatch_answers: "answers next \<Longrightarrow> answers (RequireUserMatch P f next)"
  unfolding answers_def
  by (auto simp: RequireUserMatch_def intro!: answered_responses quiet_logs_respond quiet_logs_intros split: option.splits)

lemma respond_answer: "(\<And>u. unanswered u \<Longrightarrow> answered (f u)) \<Longrightarrow> unanswered (web_resp w) \<Longrightarrow>
    fst (respond f w) = Finished \<and> answered (web_resp (snd (respond f w))) \<and> quiet_logs w (snd (respond f w))"
  by (rule respond_answers) (simp_all add: quiet_logs_intros)

lemma serveStatic_answered: "file_server_ok F \<Longrightarrow> unanswered w \<Longrightarrow> answered (serveStatic F r rel ct w)"
  by (simp add: serveStatic_def Let_def file_server_ok_def answered_responses answered_steps del: first_file.simps
      split: option.split)

lemma Recoverer_answers: "answers next \<Longrightarrow> answers (Recoverer lg next)"
  unfolding answers_def by (auto simp: Recoverer_def split: prod.split outcome_of.split) (metis fst_conv snd_conv outcome_of.distinct(1))+

interpretation answering: handler_law "\<lambda>h. file_server_ok (d_files D) \<longrightarrow> answers h" D for D :: "'q deps"
proof
  fix q :: 'q and html path ct
  show "file_server_ok (d_files D) \<longrightarrow>
      answers (\<lambda>r w. case check (Some (d_redis D, d_health_consumer D)) r (w, q) of (res, w1, q1) \<Rightarrow> (res, w1))"
    by (auto simp: answers_def quiet_logs_def split: prod.splits dest: check_answers)
  show "file_server_ok (d_files D) \<longrightarrow> answers (\<lambda>r. respond (landing html))"
    unfolding answers_def landing_def writeText_def by (auto intro!: answered_steps quiet_logs_respond quiet_logs_intros)
  show "file_server_ok (d_files D) \<longrightarrow> answers (\<lambda>r. respond (serveStatic (d_files D) r path ct))"
    unfolding answers_def by (auto intro!: serveStatic_answered quiet_logs_respond quiet_logs_intros)
qed (auto simp: create_answers get_answers getMetrics_answers Authenticator_answers RequireUserMatch_answers Recoverer_answers,
     auto simp: answers_def intro!: answered_responses answered_steps quiet_logs_respond quiet_logs_intros)

lemma Logger_line:
  assumes "answers next" and "w_sent (web_resp w) = None" and "ctx_UserID (r_context r) = None"
  shows "\<exists>w' ls st lat out. Logger_mw lg next r w = (Finished, w') \<and> status_of_resp (web_resp w') = Some st \<and>
    (\<forall>x \<in> set ls. fst (snd x) \<noteq> ''request'') \<and>
    web_logs w' = web_logs w @ ls @ [(level_for st, ''request'', lg @
      [(''traceId'', AStr (TraceID (r_context r))), (''method'', AStr (r_method r)), (''path'', AStr (r_path r)),
       (''statusCode'', AInt st), (''latency'', AInt lat), (''bytes'', ASize out)])]"
proof -
  let ?r = "WithContext r (WithLogger (r_context r) (lg @ [(''traceId'', AStr (TraceID (r_context r)))]))"
  have "unanswered (web_resp (record_on w))" using assms(2) by (simp add: record_on_def unanswered_def)
  with assms(1) have n: "fst (next ?r (record_on w)) = Finished" "answered (web_resp (snd (next ?r (record_on w))))"
    "quiet_logs (record_on w) (snd (next ?r (record_on w)))" by (simp_all add: answers_def)
  obtain w1 where w1: "next ?r (record_on w) = (Finished, w1)" using n(1) by (metis prod.collapse)
  with n obtain c h out ls where "w_sent (web_resp w1) = Some (c, h)" "w_recorder (web_resp w1) = Some (c, out)"
    "web_logs w1 = web_logs w @ ls" "\<forall>x \<in> set ls. fst (snd x) \<noteq> ''request''"
    by (auto simp: answered_def quiet_logs_def record_on_def)
  with w1 assms(3) show ?thesis
    by (auto simp: Logger_mw_def Let_def recorded_def record_off_def log_line_def status_of_resp_def)
qed

text \<open>
  C24: every request is answered and logged once. The chain returns without a panic, a status was sent, and the
  log grows by the handlers' own lines and a final "request" line at the level of that status (Error from 500,
  Warn from 400), with the trace identifier, the method, the path and the status. The line never names the
  user: the identity is set in the context below the logging middleware.
\<close>
theorem request_logged:
  assumes "file_server_ok (d_files D)" and "w_sent (web_resp w) = None" and "ctx_UserID (r_context r) = None"
  shows "\<exists>w' ls st lat out. serve D q r w = (Finished, w') \<and> status_of_resp (web_resp w') = Some st \<and>
    (\<forall>x \<in> set ls. fst (snd x) \<noteq> ''request'') \<and>
    web_logs w' = web_logs w @ ls @ [(if 500 \<le> st then Error else if 400 \<le> st then Warn else Info, ''request'', d_logger D @
      [(''traceId'', AStr (trace_id_of (d_platform D) r w)), (''method'', AStr (r_method r)), (''path'', AStr (r_path r)),
       (''statusCode'', AInt st), (''latency'', AInt lat), (''bytes'', ASize out)])]"
proof -
  let ?r = "r\<lparr>r_context := WithTraceID (r_context r) (trace_id_of (d_platform D) r w)\<rparr>"
  obtain w1 where w1: "serve D q r w = Logger_mw (d_logger D) (Recoverer (d_logger D) (mux D q)) ?r w1"
      "web_resp w1 = SetHeader HeaderTraceID (trace_id_of (d_platform D) r w) (web_resp w)" "web_logs w1 = web_logs w"
    using Trace_hands [of "d_platform D" _ r w] unfolding serve_def by metis
  have "answers (Recoverer (d_logger D) (mux D q))" by (rule mp [OF answering.recovered_mux_law assms(1)])
  moreover have "w_sent (web_resp w1) = None" using w1(2) assms(2) by (simp add: SetHeader_def)
  moreover have "ctx_UserID (r_context ?r) = None" using assms(3) by (simp add: ctx_UserID_def WithTraceID_def)
  ultimately show ?thesis
    using Logger_line [of _ w1 ?r "d_logger D"] unfolding w1(1) w1(3) level_for_def [symmetric] by (fastforce simp: TraceID_def WithTraceID_def)
qed

section \<open>Access\<close>

text \<open>The caller that a request's Authorization header proves.\<close>

definition bearer_claims :: "'q deps \<Rightarrow> request \<Rightarrow> web \<Rightarrow> claims option" where
  "bearer_claims D r w =
     (let h = r_header r ''Authorization''
      in if prefix bearer h
         then (case Parse (d_jwt D) (d_platform D) (clock (web_db w)) (d_secret D) (TrimSpace (drop (length bearer) h)) of
                 Inl e \<Rightarrow> None | Inr c \<Rightarrow> Some c)
         else None)"

fun belongs_to :: "uuid \<Rightarrow> json \<Rightarrow> bool" where
  "belongs_to u (JTrade t) = (UserID t = u)"
| "belongs_to u (JMetrics m) = (mr_user_id m = u)"
| "belongs_to u _ = True"

lemma Authenticator_cases:
  "Authenticator (d_jwt D) (d_platform D) (d_secret D) next r w =
     (case bearer_claims D r w of
        None \<Rightarrow> respond (WriteError r 401 ''UNAUTHORIZED''
          (if r_header r ''Authorization'' = '''' then ''Missing Authorization header.''
           else if \<not> prefix bearer (r_header r ''Authorization'') then ''Authorization header must use Bearer scheme.''
           else ''Invalid or expired token.'')) w
      | Some c \<Rightarrow> next (WithContext r (WithLogger (WithUserID (r_context r) (cl_user_id c))
          (Logger_of (r_context r) @ [(''userId'', AStr (show_uuid (d_platform D) (cl_user_id c)))]))) w)"
  by (auto simp: Authenticator_def bearer_claims_def Let_def bearer_def Logger_of_def WithUserID_def split: sum.split)

lemma belongs_to_errors:
  "w_body w = [] \<Longrightarrow> j \<in> set (w_body (WriteError r st code msg w)) \<Longrightarrow> belongs_to u j"
  by (auto)

lemma get_belongs:
  assumes "w_body (web_resp w) = []" and "ctx_UserID (r_context r) = Some u"
    and "j \<in> set (w_body (web_resp (snd (get P r w))))"
  shows "belongs_to u j"
  using assms by (auto simp: get_def Let_def split: option.splits prod.splits sum.splits if_splits)

lemma getMetrics_belongs:
  assumes "w_body (web_resp w) = []" and "ctx_UserID (r_context r) = Some u"
    and "j \<in> set (w_body (web_resp (snd (RequireUserMatch P (\<lambda>r. r_param r ''userId'') (getMetrics P) r w))))"
  shows "belongs_to u j"
  using assms
  by (auto simp: RequireUserMatch_def getMetrics_def split: option.splits prod.splits sum.splits if_splits)

lemma Logger_passes:
  assumes "next (WithContext r (WithLogger (r_context r) (lg @ [(''traceId'', AStr (TraceID (r_context r)))]))) (record_on w) =
      (Finished, w2)"
  shows "\<exists>w'. Logger_mw lg next r w = (Finished, w') \<and> w_body (web_resp w') = w_body (web_resp w2) \<and>
    w_sent (web_resp w') = w_sent (web_resp w2) \<and> web_db w' = web_db w2 \<and> web_tasks w' = web_tasks w2"
  using assms by (simp add: Logger_mw_def Let_def record_off_def log_line_def split: prod.split)

text \<open>The request as the router sees it, and what the chain above it leaves of its answer.\<close>

lemma serve_reaches:
  assumes "file_server_ok (d_files D)" and "w_sent (web_resp w) = None"
  shows "\<exists>r1 w1 w2 w'. serve D q r w = (Finished, w') \<and> mux D q r1 w1 = (Finished, w2) \<and>
    r_method r1 = r_method r \<and> r_path r1 = r_path r \<and> r_header r1 = r_header r \<and>
    TraceID (r_context r1) = trace_id_of (d_platform D) r w \<and>
    w_sent (web_resp w1) = None \<and> w_body (web_resp w1) = w_body (web_resp w) \<and> web_tasks w1 = web_tasks w \<and>
    web_db w1 = (web_db w)\<lparr>draws := draws (web_db w1)\<rparr> \<and>
    w_body (web_resp w') = w_body (web_resp w2) \<and> w_sent (web_resp w') = w_sent (web_resp w2) \<and>
    web_db w' = web_db w2 \<and> web_tasks w' = web_tasks w2"
proof -
  let ?r = "r\<lparr>r_context := WithTraceID (r_context r) (trace_id_of (d_platform D) r w)\<rparr>"
  let ?r1 = "WithContext ?r (WithLogger (r_context ?r) (d_logger D @ [(''traceId'', AStr (TraceID (r_context ?r)))]))"
  obtain w0 where w0: "serve D q r w = Logger_mw (d_logger D) (Recoverer (d_logger D) (mux D q)) ?r w0"
      "web_resp w0 = SetHeader HeaderTraceID (trace_id_of (d_platform D) r w) (web_resp w)" "web_tasks w0 = web_tasks w"
      "web_db w0 = (web_db w)\<lparr>draws := draws (web_db w0)\<rparr>"
    using Trace_hands [of "d_platform D" _ r w] unfolding serve_def by metis
  have "unanswered (web_resp (record_on w0))" using w0(2) assms(2) by (simp add: record_on_def unanswered_def SetHeader_def)
  with mp [OF answering.mux_law assms(1), of q] have "fst (mux D q ?r1 (record_on w0)) = Finished" by (simp add: answers_def)
  then obtain w2 where w2: "mux D q ?r1 (record_on w0) = (Finished, w2)" by (metis prod.collapse)
  from w2 have w3: "Recoverer (d_logger D) (mux D q) ?r1 (record_on w0) = (Finished, w2)" by (simp add: Recoverer_def)
  obtain w' where w': "serve D q r w = (Finished, w')" "w_body (web_resp w') = w_body (web_resp w2)"
      "w_sent (web_resp w') = w_sent (web_resp w2)" "web_db w' = web_db w2" "web_tasks w' = web_tasks w2"
    using Logger_passes [of "Recoverer (d_logger D) (mux D q)" ?r "d_logger D" w0 w2, OF w3] unfolding w0(1) by blast
  have "r_method ?r1 = r_method r" "r_path ?r1 = r_path r" "r_header ?r1 = r_header r"
      "TraceID (r_context ?r1) = trace_id_of (d_platform D) r w"
      "w_sent (web_resp (record_on w0)) = None" "w_body (web_resp (record_on w0)) = w_body (web_resp w)"
      "web_tasks (record_on w0) = web_tasks w" "web_db (record_on w0) = web_db w0"
    using w0(2,3) assms(2) by (simp_all add: WithContext_def WithLogger_def WithTraceID_def TraceID_def record_on_def SetHeader_def)
  with w' w2 w0(4) show ?thesis by metis
qed

lemma bearer_claims_cong:
  "r_header r1 = r_header r \<Longrightarrow> clock (web_db w1) = clock (web_db w) \<Longrightarrow> bearer_claims D r1 w1 = bearer_claims D r w"
  unfolding bearer_claims_def by (simp only:)

text \<open>
  C6: the three protected routes. Without a bearer token that the verifier accepts the answer is 401 with one
  UNAUTHORIZED error, whatever the request; no table changes and no event is published. With one, a trade or
  metrics body of the two reading routes belongs to the subject of the token, however the request was made.
\<close>
theorem bearer_required:
  assumes "file_server_ok (d_files D)" and "web_resp w = fresh_writer" and "serve D q r w = (res, w')"
    and "d_chi D routes (r_method r) (r_path r) = Matched rt params" and "rt \<in> {Create_route, Get_route, Metrics_route}"
  shows "case bearer_claims D r w of
      None \<Rightarrow> status_of_resp (web_resp w') = Some 401 \<and>
        (\<exists>msg. w_body (web_resp w') = [JError (ErrorResponse ''UNAUTHORIZED'' msg (trace_id_of (d_platform D) r w))]) \<and>
        web_tasks w' = web_tasks w \<and> web_db w' = (web_db w)\<lparr>draws := draws (web_db w')\<rparr>
    | Some c \<Rightarrow> rt \<noteq> Create_route \<longrightarrow> (\<forall>j \<in> set (w_body (web_resp w')). belongs_to (cl_user_id c) j)"
proof -
  have fw: "w_sent (web_resp w) = None" "w_body (web_resp w) = []" using assms(2) by (simp_all add: fresh_writer_def)
  obtain r1 w1 w2 where x: "mux D q r1 w1 = (Finished, w2)" "r_method r1 = r_method r" "r_path r1 = r_path r"
      "r_header r1 = r_header r" "TraceID (r_context r1) = trace_id_of (d_platform D) r w" "w_sent (web_resp w1) = None"
      "w_body (web_resp w1) = []" "web_tasks w1 = web_tasks w" "web_db w1 = (web_db w)\<lparr>draws := draws (web_db w1)\<rparr>"
      "w_body (web_resp w') = w_body (web_resp w2)" "w_sent (web_resp w') = w_sent (web_resp w2)"
      "web_db w' = web_db w2" "web_tasks w' = web_tasks w2"
    using serve_reaches [OF assms(1) fw(1), of q r] assms(3) fw(2) by auto
  let ?r = "r1\<lparr>r_param := params\<rparr>"
  have "clock (web_db w1) = clock (web_db w)" by (subst x(9)) simp
  then have b: "bearer_claims D ?r w1 = bearer_claims D r w" using x(4) by (intro bearer_claims_cong) simp_all
  have d: "dispatch D q rt ?r w1 = (Finished, w2)" using x(1) assms(4) by (simp add: mux_def x(2,3))
  show ?thesis
  proof (cases "bearer_claims D r w")
    case None
    then obtain msg where "dispatch D q rt ?r w1 = respond (WriteError ?r 401 ''UNAUTHORIZED'' msg) w1"
      using assms(5) b by (auto simp: dispatch_def authed_def Authenticator_cases)
    then show ?thesis using d x None by (auto simp: respond_def status_of_resp_def [of "web_resp w'"] status_of_resp_def [symmetric])
  next
    case (Some c)
    let ?a = "WithContext ?r (WithLogger (WithUserID (r_context ?r) (cl_user_id c))
          (Logger_of (r_context ?r) @ [(''userId'', AStr (show_uuid (d_platform D) (cl_user_id c)))]))"
    have u: "ctx_UserID (r_context ?a) = Some (cl_user_id c)"
      by (simp add: WithContext_def WithLogger_def WithUserID_def ctx_UserID_def)
    have "rt = Get_route \<Longrightarrow> w2 = snd (get (d_platform D) ?a w1)"
      "rt = Metrics_route \<Longrightarrow> w2 = snd (RequireUserMatch (d_platform D) (\<lambda>r. r_param r ''userId'') (getMetrics (d_platform D)) ?a w1)"
      using d Some b by (auto simp: dispatch_def authed_def Authenticator_cases)
    then show ?thesis
      using Some assms(5) get_belongs [OF x(7) u] getMetrics_belongs [OF x(7) u] by (auto simp: x(10))
  qed
qed

section \<open>Examples\<close>

text \<open>A router that matches the pattern itself, and a file server with nothing bundled.\<close>

definition ref_chi :: chi where
  "ref_chi rs m p = (case filter (\<lambda>(m', p', rt). m' = m \<and> p' = p) rs of
     [] \<Rightarrow> NotFound | (m', p', rt) # _ \<Rightarrow> Matched rt (\<lambda>_. show_uuid ref_platform 2))"

definition ref_files :: files where
  "ref_files = \<lparr>stat = (\<lambda>_. None), serve_file = (\<lambda>r p w. Write (JText p) w)\<rparr>"

definition ref_deps :: "server deps" where
  "ref_deps = \<lparr>d_platform = ref_platform, d_jwt = ref_jwt, d_secret = ''secret'', d_logger = [], d_chi = ref_chi,
     d_files = ref_files, d_landing = ''<html>'', d_redis = ref_redis, d_health_consumer = ref_consumer\<rparr>"

definition anonymous :: request where
  "anonymous = \<lparr>r_method = ''GET'', r_path = ''/trades/{tradeId}'',
     r_header = (\<lambda>k. if k = ''X-Trace-Id'' then ''abc'' else ''''), r_query = (\<lambda>_. ''''), r_param = (\<lambda>_. ''''),
     r_body = Inl ''EOF'', r_context = \<lparr>key_trace_id = None, key_user_id = None, key_logger = None\<rparr>\<rparr>"

lemma ref_files_ok: "file_server_ok (d_files ref_deps)"
  by (auto simp: file_server_ok_def ref_deps_def ref_files_def intro: traced_steps answered_steps)

lemma anonymous_trace: "trace_id_of (d_platform ref_deps) anonymous w = ''abc''"
  by (simp add: trace_id_of_def anonymous_def HeaderTraceID_def)

theorem serve_traced_witness:
  "case w_sent (web_resp (snd (serve ref_deps (one_entry Map.empty Fresh) anonymous (web_on empty_db)))) of
     None \<Rightarrow> True | Some (st, h) \<Rightarrow> h ''X-Trace-Id'' = Some ''abc''"
proof -
  let ?x = "serve ref_deps (one_entry Map.empty Fresh) anonymous (web_on empty_db)"
  show ?thesis
    using serve_traced [OF ref_files_ok, of "web_on empty_db" "one_entry Map.empty Fresh" anonymous "fst ?x" "snd ?x" "''abc''"]
    by (simp add: anonymous_trace split: option.split)
qed

theorem request_logged_witness:
  "\<exists>w' ls st. serve ref_deps (one_entry Map.empty Fresh) anonymous (web_on empty_db) = (Finished, w') \<and>
     map (fst \<circ> snd) (web_logs w') = ls @ [''request''] \<and> ''request'' \<notin> set ls \<and> status_of_resp (web_resp w') = Some st"
proof -
  have "w_sent (web_resp (web_on empty_db)) = None" "ctx_UserID (r_context anonymous) = None" "web_logs (web_on empty_db) = []"
    by (simp_all add: fresh_writer_def anonymous_def ctx_UserID_def web_on_def)
  then show ?thesis
    using request_logged [OF ref_files_ok, of "web_on empty_db" anonymous "one_entry Map.empty Fresh"] by fastforce
qed

theorem bearer_required_witness:
  "status_of_resp (web_resp (snd (serve ref_deps (one_entry Map.empty Fresh) anonymous (web_on empty_db)))) = Some 401"
proof -
  have "d_chi ref_deps routes (r_method anonymous) (r_path anonymous) = Matched Get_route (\<lambda>_. show_uuid ref_platform 2)"
    by (simp add: ref_deps_def ref_chi_def routes_def health_Mount_def trades_Mount_def metrics_Mount_def anonymous_def)
  moreover have "bearer_claims ref_deps anonymous (web_on empty_db) = None"
    by (simp add: bearer_claims_def anonymous_def bearer_def)
  ultimately show ?thesis
    using bearer_required [OF ref_files_ok, of "web_on empty_db" "one_entry Map.empty Fresh" anonymous
        "fst (serve ref_deps (one_entry Map.empty Fresh) anonymous (web_on empty_db))"
        "snd (serve ref_deps (one_entry Map.empty Fresh) anonymous (web_on empty_db))" Get_route] by simp
qed

end
