(* ===== verification/Config.thy ===== *)
theory Config imports Middleware begin

text \<open>
  The configuration of \<open>internal/config/config.go\<close>, read from the environment, and the logger of
  \<open>internal/logger/logger.go\<close>: the level of a name and which lines are printed. The environment is a
  function: \<open>os.Getenv\<close> yields the empty string for a variable that is not set.
\<close>

type_synonym environment = "string \<Rightarrow> string"

section \<open>Parsing integers\<close>

text \<open>\<open>strconv.Atoi\<close>: an optional sign and decimal digits, within the 64-bit \<open>int\<close>.\<close>

definition Atoi :: "string \<Rightarrow> int option" where
  "Atoi s = (case s of
     [] \<Rightarrow> None
   | c # cs \<Rightarrow>
       (let ds = (if c = CHR ''-'' \<or> c = CHR ''+'' then cs else s);
            n = (if c = CHR ''-'' then - number ds else number ds)
        in if ds = [] \<or> \<not> list_all is_digit ds then None
           else if - (2 ^ 63) \<le> n \<and> n < 2 ^ 63 then Some n else None))"

definition getenv :: "environment \<Rightarrow> string \<Rightarrow> string \<Rightarrow> string" where
  "getenv env key fallback = (let v = env key in if v \<noteq> '''' then v else fallback)"

definition atoiDefault :: "environment \<Rightarrow> string \<Rightarrow> int \<Rightarrow> go_error + int" where
  "atoiDefault env key fallback =
     (let v = env key
      in if v = '''' then Inr fallback
         else (case Atoi v of
                 None \<Rightarrow> Inl (Plain (key @ '' must be an integer, got '' @ v))
               | Some n \<Rightarrow> Inr n))"

section \<open>The configuration\<close>

record config =
  Port :: int
  DatabaseURL :: string
  RedisURL :: string
  JWTSecret :: string
  LogLevel :: string
  SeedOnStart :: bool
  SeedFilePath :: string
  MigrationsDir :: string
  StreamName :: string
  ConsumerGroup :: string
  ConsumerName :: string

fun Join :: "string list \<Rightarrow> string \<Rightarrow> string" where
  "Join [] sep = ''''"
| "Join [x] sep = x"
| "Join (x # y # ys) sep = x @ sep @ Join (y # ys) sep"

definition Load :: "environment \<Rightarrow> go_error + config" where
  "Load env =
     (let (port, errs) = (case atoiDefault env ''PORT'' 8080 of Inl e \<Rightarrow> (0, [error_text e]) | Inr n \<Rightarrow> (n, []));
          dbURL = env ''DATABASE_URL'';
          errs = (if dbURL = '''' then errs @ [''DATABASE_URL is required''] else errs);
          redisURL = env ''REDIS_URL'';
          errs = (if redisURL = '''' then errs @ [''REDIS_URL is required''] else errs);
          jwtSecret = env ''JWT_SECRET'';
          errs = (if jwtSecret = '''' then errs @ [''JWT_SECRET is required''] else errs);
          cfg = \<lparr>Port = port, DatabaseURL = dbURL, RedisURL = redisURL, JWTSecret = jwtSecret,
            LogLevel = getenv env ''LOG_LEVEL'' ''info'',
            SeedOnStart = (getenv env ''SEED_ON_START'' ''true'' = ''true''),
            SeedFilePath = getenv env ''SEED_FILE_PATH'' ''./nevup_seed_dataset.csv'',
            MigrationsDir = getenv env ''MIGRATIONS_DIR'' ''./migrations'',
            StreamName = getenv env ''STREAM_NAME'' ''trade-events'',
            ConsumerGroup = getenv env ''CONSUMER_GROUP'' ''metrics-workers'',
            ConsumerName = getenv env ''CONSUMER_NAME'' ''worker-1''\<rparr>
      in if 0 < length errs then Inl (Plain (''config: '' @ Join errs ''; '')) else Inr cfg)"

text \<open>\<open>strings.ToLower\<close> on ASCII text.\<close>

definition lower :: "char \<Rightarrow> char" where
  "lower c = (if 65 \<le> (of_char c :: nat) \<and> (of_char c :: nat) \<le> 90 then char_of ((of_char c :: nat) + 32) else c)"

definition parseLevel :: "string \<Rightarrow> level" where
  "parseLevel s =
     (let x = map lower (TrimSpace s)
      in if x = ''debug'' then Debug
         else if x = ''warn'' \<or> x = ''warning'' then Warn
         else if x = ''error'' then Error
         else Info)"

section \<open>The logger\<close>

text \<open>\<open>slog.Level\<close> is an integer; a handler drops what lies below its level.\<close>

fun level_num :: "level \<Rightarrow> int" where
  "level_num Debug = - 4"
| "level_num Info = 0"
| "level_num Warn = 4"
| "level_num Error = 8"

instantiation level :: linorder
begin

definition less_eq_level :: "level \<Rightarrow> level \<Rightarrow> bool" where
  "less_eq_level a b \<longleftrightarrow> level_num a \<le> level_num b"

definition less_level :: "level \<Rightarrow> level \<Rightarrow> bool" where
  "less_level a b \<longleftrightarrow> level_num a < level_num b"

instance
proof
  fix a b :: level
  show "a \<le> b \<Longrightarrow> b \<le> a \<Longrightarrow> a = b" by (cases a; cases b) (simp_all add: less_eq_level_def)
qed (auto simp: less_eq_level_def less_level_def)

end

record handler_options =
  opt_Level :: level
  opt_AddSource :: bool

definition New :: "string \<Rightarrow> handler_options" where
  "New name = \<lparr>opt_Level = parseLevel name, opt_AddSource = False\<rparr>"

definition printed :: "handler_options \<Rightarrow> (level \<times> string \<times> logger) list \<Rightarrow> (level \<times> string \<times> logger) list" where
  "printed opts = filter (\<lambda>(lv, msg, ats). opt_Level opts \<le> lv)"

text \<open>
  Whatever the level is called, lines about server errors are printed; a name that is none of the four prints what
  \<open>info\<close> prints.
\<close>

lemma printed_always:
  assumes "500 \<le> st"
  shows "printed (New name) [(level_for st, msg, ats)] = [(level_for st, msg, ats)]"
proof -
  have "lv \<le> Error" for lv by (cases lv) (simp_all add: less_eq_level_def)
  with assms show ?thesis by (simp add: printed_def New_def level_for_def)
qed

lemma printed_unknown:
  assumes "map lower (TrimSpace name) \<notin> {''debug'', ''warn'', ''warning'', ''error''}"
  shows "printed (New name) [(level_for st, msg, ats)] = [(level_for st, msg, ats)]"
  using assms by (simp add: printed_def New_def parseLevel_def Let_def level_for_def less_eq_level_def)

section \<open>What is accepted\<close>

lemma number_dec: "number (dec n) = int n" "list_all is_digit (dec n)" "dec n \<noteq> []"
proof -
  obtain k where k: "dec n = fixed_digits (Suc k) n" "n < 10 ^ Suc k" using dec_fixed [of n] by blast
  show "number (dec n) = int n" unfolding k(1) by (rule number_fixed_digits) (rule k(2))
  show "list_all is_digit (dec n)" unfolding k(1) by (rule fixed_digits_digits)
  show "dec n \<noteq> []" using length_fixed_digits [of "Suc k" n] unfolding k(1) by force
qed

lemma Atoi_decimal:
  assumes "- (2 ^ 63) \<le> n" and "n < 2 ^ 63"
  shows "Atoi (append_int n 0) = Some n"
proof (cases "n < 0")
  case True
  with assms show ?thesis by (simp add: Atoi_def append_int_def Let_def number_dec)
next
  case False
  obtain c cs where c: "dec (nat n) = c # cs" using number_dec(3) [of "nat n"] by (cases "dec (nat n)") auto
  have "is_digit c" using number_dec(2) [of "nat n"] by (simp add: c)
  then have "c \<noteq> CHR ''-''" "c \<noteq> CHR ''+''" by (auto simp: is_digit_def)
  moreover have "number (c # cs) = n" "list_all is_digit (c # cs)"
    using number_dec(1,2) [of "nat n"] False unfolding c by simp_all
  ultimately show ?thesis using False assms c by (simp add: Atoi_def append_int_def)
qed

lemma Join_infix: "x \<in> set xs \<Longrightarrow> \<exists>a b. Join xs sep = a @ x @ b"
proof (induction xs sep rule: Join.induct)
  case (3 x' y ys sep)
  show ?case
  proof (cases "x = x'")
    case True
    then show ?thesis by (intro exI [of _ "[]"] exI [of _ "sep @ Join (y # ys) sep"]) simp
  next
    case False
    with 3 obtain a b where "Join (y # ys) sep = a @ x @ b" by auto
    then show ?thesis by (intro exI [of _ "x' @ sep @ a"] exI [of _ b]) simp
  qed
next
  case (2 x' sep)
  then show ?case by (intro exI [of _ "[]"]) simp
qed simp

text \<open>The complaints about an environment.\<close>

definition required :: "string list" where "required = [''DATABASE_URL'', ''REDIS_URL'', ''JWT_SECRET'']"

definition complaints :: "environment \<Rightarrow> string list" where
  "complaints env =
     (if env ''PORT'' \<noteq> '''' \<and> Atoi (env ''PORT'') = None then [''PORT must be an integer, got '' @ env ''PORT''] else []) @
     map (\<lambda>k. k @ '' is required'') (filter (\<lambda>k. env k = '''') required)"

lemma Load_fails: "complaints env \<noteq> [] \<Longrightarrow> Load env = Inl (Plain (''config: '' @ Join (complaints env) ''; ''))"
  by (auto simp: Load_def Let_def required_def complaints_def atoiDefault_def split: option.splits if_splits)

lemma Load_accepts:
  assumes "complaints env = []"
  shows "\<exists>cfg. Load env = Inr cfg \<and> DatabaseURL cfg = env ''DATABASE_URL'' \<and> RedisURL cfg = env ''REDIS_URL'' \<and>
    JWTSecret cfg = env ''JWT_SECRET'' \<and> Port cfg = (if env ''PORT'' = '''' then 8080 else the (Atoi (env ''PORT''))) \<and>
    StreamName cfg = getenv env ''STREAM_NAME'' ''trade-events'' \<and>
    ConsumerGroup cfg = getenv env ''CONSUMER_GROUP'' ''metrics-workers''"
  using assms by (auto simp: Load_def Let_def required_def complaints_def atoiDefault_def split: option.splits if_splits)

text \<open>
  C32: the configuration is refused exactly when there is a complaint, and then the error names every one of
  them at once. An accepted configuration has its database, its stream server, a secret, a stream and a group;
  the port is the decimal given, of any size up to 64 bits and of either sign, or 8080.
\<close>
theorem Load_reports:
  "case Load env of
     Inl e \<Rightarrow> complaints env \<noteq> [] \<and> (\<forall>m \<in> set (complaints env). sublist m (error_text e))
   | Inr cfg \<Rightarrow> complaints env = [] \<and> '''' \<notin> {DatabaseURL cfg, RedisURL cfg, JWTSecret cfg, StreamName cfg, ConsumerGroup cfg} \<and>
       (env ''PORT'' = '''' \<longrightarrow> Port cfg = 8080) \<and>
       (\<forall>n. - (2 ^ 63) \<le> n \<and> n < 2 ^ 63 \<and> env ''PORT'' = append_int n 0 \<longrightarrow> Port cfg = n)"
proof (cases "complaints env = []")
  case False
  have "sublist m (''config: '' @ Join (complaints env) ''; '')" if "m \<in> set (complaints env)" for m
    using Join_infix [OF that, of "''; ''"] by (metis append_assoc sublist_appendI)
  with Load_fails [OF False] False show ?thesis by simp
next
  case True
  then obtain cfg where c: "Load env = Inr cfg" "DatabaseURL cfg = env ''DATABASE_URL''" "RedisURL cfg = env ''REDIS_URL''"
      "JWTSecret cfg = env ''JWT_SECRET''" "Port cfg = (if env ''PORT'' = '''' then 8080 else the (Atoi (env ''PORT'')))"
      "StreamName cfg = getenv env ''STREAM_NAME'' ''trade-events''"
      "ConsumerGroup cfg = getenv env ''CONSUMER_GROUP'' ''metrics-workers''"
    using Load_accepts by blast
  have "env ''DATABASE_URL'' \<noteq> ''''" "env ''REDIS_URL'' \<noteq> ''''" "env ''JWT_SECRET'' \<noteq> ''''"
    using True by (auto simp: complaints_def required_def split: if_splits)
  moreover have "append_int n 0 \<noteq> ''''" for n using number_dec(3) by (simp add: append_int_def Let_def)
  ultimately show ?thesis using True c by (auto simp: getenv_def Let_def Atoi_decimal)
qed

section \<open>Example\<close>

definition full_env :: environment where
  "full_env k = (if k = ''PORT'' then ''-1'' else ''x'')"

theorem Load_reports_witness:
  "case Load full_env of Inl e \<Rightarrow> False | Inr cfg \<Rightarrow> Port cfg = - 1"
proof -
  have a: "full_env ''PORT'' = append_int (- 1) 0" by code_simp
  have "Atoi ''-1'' = Some (- 1)" by code_simp
  then have "complaints full_env = []" by (simp add: complaints_def full_env_def required_def)
  then show ?thesis using Load_reports [of full_env] a by (auto split: sum.splits)
qed

end
