(* ===== verification/Migrations.thy ===== *)
theory Migrations imports Config Backfill "HOL-Library.Char_ord" "HOL-Library.List_Lexorder" begin

text \<open>
  The migration runner of \<open>internal/db/db.go\<close>. The file system is what the directory lists and what the files
  hold; what a migration's text does to the schema is PostgreSQL's and a parameter. The bookkeeping table is
  the list of its versions in the order they were inserted (empty while the table does not exist; the time
  of each is not kept). The script of faults plays the connection, as for the tables of the program.
\<close>

section \<open>Paths\<close>

fun split_path :: "string \<Rightarrow> string list" where
  "split_path [] = [[]]"
| "split_path (c # cs) = (if c = CHR ''/'' then [] # split_path cs
     else (case split_path cs of [] \<Rightarrow> [[c]] | p # ps \<Rightarrow> (c # p) # ps))"

text \<open>\<open>filepath.Clean\<close> on slash-separated elements; \<open>acc\<close> holds the elements kept, last first.\<close>

fun clean_elems :: "bool \<Rightarrow> string list \<Rightarrow> string list \<Rightarrow> string list" where
  "clean_elems rooted acc [] = rev acc"
| "clean_elems rooted acc (c # cs) =
     (if c = '''' \<or> c = ''.'' then clean_elems rooted acc cs
      else if c = ''..'' then
        (case acc of
           a # rest \<Rightarrow> if a \<noteq> ''..'' then clean_elems rooted rest cs else clean_elems rooted (c # acc) cs
         | [] \<Rightarrow> if rooted then clean_elems rooted [] cs else clean_elems rooted [c] cs)
      else clean_elems rooted (c # acc) cs)"

definition Clean :: "string \<Rightarrow> string" where
  "Clean p =
     (let rooted = prefix ''/'' p;
          out = (if rooted then ''/'' else '''') @ Join (clean_elems rooted [] (split_path p)) ''/''
      in if out = '''' then ''.'' else out)"

definition filepath_Join :: "string \<Rightarrow> string \<Rightarrow> string" where
  "filepath_Join dir name = (if dir = '''' then (if name = '''' then '''' else Clean name)
     else if name = '''' then Clean dir else Clean (dir @ ''/'' @ name))"

definition Base :: "string \<Rightarrow> string" where
  "Base p =
     (if p = '''' then ''.''
      else (let q = rev (dropWhile (\<lambda>c. c = CHR ''/'') (rev p))
            in if q = '''' then ''/'' else rev (takeWhile (\<lambda>c. c \<noteq> CHR ''/'') (rev q))))"

definition TrimSuffix :: "string \<Rightarrow> string \<Rightarrow> string" where
  "TrimSuffix s suf = (if suffix suf s then take (length s - length suf) s else s)"

record file_system =
  glob :: "string \<Rightarrow> go_error + string list"
  read_file :: "string \<Rightarrow> go_error + string"
  open_csv :: "string \<Rightarrow> go_error + (go_error + string list) list"

section \<open>The bookkeeping table\<close>

record 'd mig =
  applied :: "string list"
  schema :: 'd
  mg_faults :: "fault list"
  mg_logs :: "(level \<times> string \<times> logger) list"

type_synonym 'd run_sql = "string \<Rightarrow> 'd \<Rightarrow> sql_error + 'd"

definition mg_next :: "'d mig \<Rightarrow> fault \<times> 'd mig" where
  "mg_next s = (case mg_faults s of [] \<Rightarrow> (FOk, s) | f # fs \<Rightarrow> (f, s\<lparr>mg_faults := fs\<rparr>))"

definition mg_exec :: "('d mig \<Rightarrow> sql_error + 'd mig) \<Rightarrow> 'd mig \<Rightarrow> (go_error + unit) \<times> 'd mig" where
  "mg_exec stmt s = (case mg_next s of (f, s1) \<Rightarrow>
     (case f of
        FOk \<Rightarrow> (case stmt s1 of Inl e \<Rightarrow> (Inl (Sql e), s1) | Inr s2 \<Rightarrow> (Inr (), s2))
      | FLost \<Rightarrow> (Inl (Sql ConnFail), case stmt s1 of Inl e \<Rightarrow> s1 | Inr s2 \<Rightarrow> s2)
      | _ \<Rightarrow> (Inl (Sql ConnFail), s1)))"

text \<open>\<open>CREATE TABLE IF NOT EXISTS\<close>, the existence query, the insert.\<close>

definition create_stmt :: "'d mig \<Rightarrow> sql_error + 'd mig" where
  "create_stmt s = Inr s"

definition is_applied :: "string \<Rightarrow> 'd mig \<Rightarrow> (go_error + bool) \<times> 'd mig" where
  "is_applied v s = (case mg_next s of (f, s1) \<Rightarrow>
     (if f = FOk then Inr (v \<in> set (applied s1)) else Inl (Sql ConnFail), s1))"

definition record_stmt :: "string \<Rightarrow> 'd mig \<Rightarrow> sql_error + 'd mig" where
  "record_stmt v s = (if v \<in> set (applied s) then Inl UniqueViolation else Inr (s\<lparr>applied := applied s @ [v]\<rparr>))"

definition sql_stmt :: "'d run_sql \<Rightarrow> string \<Rightarrow> 'd mig \<Rightarrow> sql_error + 'd mig" where
  "sql_stmt run sqlText s = (case run sqlText (schema s) of Inl e \<Rightarrow> Inl e | Inr d \<Rightarrow> Inr (s\<lparr>schema := d\<rparr>))"

definition mg_log :: "level \<Rightarrow> string \<Rightarrow> logger \<Rightarrow> 'd mig \<Rightarrow> 'd mig" where
  "mg_log lv msg ats s = s\<lparr>mg_logs := mg_logs s @ [(lv, msg, ats)]\<rparr>"

section \<open>One migration\<close>

definition mg_rollback :: "'d mig \<Rightarrow> 'd mig \<Rightarrow> 'd mig" where
  "mg_rollback s0 s = s\<lparr>applied := applied s0, schema := schema s0\<rparr>"

definition applyOne :: "'d run_sql \<Rightarrow> string \<Rightarrow> string \<Rightarrow> 'd mig \<Rightarrow> (go_error + unit) \<times> 'd mig" where
  "applyOne run version sqlText s =
     (case mg_next s of (f, s0) \<Rightarrow>
        if f \<noteq> FOk then (Inl (Sql ConnFail), s0)
        else (case mg_exec (sql_stmt run sqlText) s0 of
                (Inl e, s1) \<Rightarrow> (Inl (Wrap ''exec sql'' e), mg_rollback s0 s1)
              | (Inr _, s1) \<Rightarrow>
                  (case mg_exec (record_stmt version) s1 of
                     (Inl e, s2) \<Rightarrow> (Inl (Wrap ''record version'' e), mg_rollback s0 s2)
                   | (Inr _, s2) \<Rightarrow>
                       (case mg_next s2 of (f', s3) \<Rightarrow>
                          (case f' of
                             FOk \<Rightarrow> (Inr (), s3)
                           | FLost \<Rightarrow> (Inl (Wrap ''commit'' (Sql ConnFail)), s3)
                           | _ \<Rightarrow> (Inl (Wrap ''commit'' (Sql ConnFail)), mg_rollback s0 s3))))))"

section \<open>All of them\<close>

definition version_of :: "string \<Rightarrow> string" where
  "version_of file = TrimSuffix (Base file) ''.up.sql''"

fun apply_files ::
    "file_system \<Rightarrow> 'd run_sql \<Rightarrow> logger \<Rightarrow> string list \<Rightarrow> 'd mig \<Rightarrow> (go_error + unit) \<times> 'd mig" where
  "apply_files fs run lg [] s = (Inr (), s)"
| "apply_files fs run lg (file # files) s =
     (let version = version_of file
      in case is_applied version s of
           (Inl e, s1) \<Rightarrow> (Inl (Wrap (''check '' @ version) e), s1)
         | (Inr alreadyApplied, s1) \<Rightarrow>
             if alreadyApplied
             then apply_files fs run lg files (mg_log Debug ''migration already applied'' (lg @ [(''version'', AStr version)]) s1)
             else (case read_file fs file of
                     Inl e \<Rightarrow> (Inl (Wrap (''read '' @ file) e), s1)
                   | Inr body \<Rightarrow>
                       (case applyOne run version body s1 of
                          (Inl e, s2) \<Rightarrow> (Inl (Wrap (''apply '' @ version) e), s2)
                        | (Inr _, s2) \<Rightarrow>
                            apply_files fs run lg files
                              (mg_log Info ''migration applied'' (lg @ [(''version'', AStr version)]) s2))))"

definition RunMigrations ::
    "file_system \<Rightarrow> 'd run_sql \<Rightarrow> string \<Rightarrow> logger \<Rightarrow> 'd mig \<Rightarrow> (go_error + unit) \<times> 'd mig" where
  "RunMigrations fs run dir lg s =
     (case mg_exec create_stmt s of
        (Inl e, s1) \<Rightarrow> (Inl (Wrap ''create schema_migrations'' e), s1)
      | (Inr _, s1) \<Rightarrow>
          (let pattern = filepath_Join dir ''*.up.sql''
           in case glob fs pattern of
                Inl e \<Rightarrow> (Inl (Wrap (''glob '' @ pattern) e), s1)
              | Inr files \<Rightarrow>
                  if length files = 0 then (Inl (Plain (''no migrations found at '' @ pattern)), s1)
                  else apply_files fs run lg (sort files) s1))"

fun IsUniqueViolation :: "go_error \<Rightarrow> bool" where
  "IsUniqueViolation (Sql e) = (e = UniqueViolation)"
| "IsUniqueViolation (Wrap m e) = IsUniqueViolation e"
| "IsUniqueViolation _ = False"

section \<open>What is recorded is what was run\<close>

text \<open>The schema that the texts of the recorded versions build, in the order they are recorded.\<close>

fun replay :: "'d run_sql \<Rightarrow> (string \<Rightarrow> string) \<Rightarrow> string list \<Rightarrow> 'd \<Rightarrow> 'd option" where
  "replay run B [] d = Some d"
| "replay run B (v # vs) d = (case run (B v) d of Inl e \<Rightarrow> None | Inr d' \<Rightarrow> replay run B vs d')"

definition recorded_exactly :: "'d run_sql \<Rightarrow> (string \<Rightarrow> string) \<Rightarrow> 'd \<Rightarrow> 'd mig \<Rightarrow> bool" where
  "recorded_exactly run B d0 s \<longleftrightarrow> distinct (applied s) \<and> replay run B (applied s) d0 = Some (schema s)"

lemma replay_snoc:
  "replay run B (vs @ [v]) d = (case replay run B vs d of None \<Rightarrow> None
     | Some d1 \<Rightarrow> (case run (B v) d1 of Inl e \<Rightarrow> None | Inr d2 \<Rightarrow> Some d2))"
  by (induction vs arbitrary: d) (auto split: sum.split)

lemma mg_next_same: "mg_next s = (f, s1) \<Longrightarrow> applied s1 = applied s \<and> schema s1 = schema s"
  by (auto simp: mg_next_def split: list.splits)

lemma mg_log_same [simp]:
  "applied (mg_log lv msg ats s) = applied s" "schema (mg_log lv msg ats s) = schema s"
  "mg_faults (mg_log lv msg ats s) = mg_faults s"
  by (simp_all add: mg_log_def)

lemma mg_exec_Inr: "mg_exec stmt s = (Inr u, s') \<Longrightarrow> \<exists>s1. mg_next s = (FOk, s1) \<and> stmt s1 = Inr s'"
  by (auto simp: mg_exec_def split: prod.splits fault.splits sum.splits)

lemma mg_rollback_same: "applied (mg_rollback s0 s) = applied s0 \<and> schema (mg_rollback s0 s) = schema s0"
  by (simp add: mg_rollback_def)

lemma applyOne_effect:
  assumes "applyOne run v b s = (res, s')"
  shows "applied s' = applied s \<and> schema s' = schema s \<and> res \<noteq> Inr () \<or>
    v \<notin> set (applied s) \<and> run b (schema s) = Inr (schema s') \<and> applied s' = applied s @ [v]"
proof -
  obtain f s0 where f: "mg_next s = (f, s0)" by fastforce
  obtain x s1 where x: "mg_exec (sql_stmt run b) s0 = (x, s1)" by fastforce
  obtain y s2 where y: "mg_exec (record_stmt v) s1 = (y, s2)" by fastforce
  obtain f' s3 where f': "mg_next s2 = (f', s3)" by fastforce
  note same = mg_next_same [OF f]
  have undone: "applied (mg_rollback s0 t) = applied s \<and> schema (mg_rollback s0 t) = schema s" for t
    using same mg_rollback_same by metis
  show ?thesis
  proof (cases "f = FOk \<and> x = Inr () \<and> y = Inr ()")
    case False
    then have "applied s' = applied s \<and> schema s' = schema s \<and> res \<noteq> Inr ()"
      using assms f x y same undone by (cases x; cases y) (auto simp: applyOne_def split: if_splits)
    then show ?thesis by blast
  next
    case True
    from mg_exec_Inr [of "sql_stmt run b" s0 "()" s1] x True
    obtain t0 where t0: "mg_next s0 = (FOk, t0)" "sql_stmt run b t0 = Inr s1" by blast
    from mg_exec_Inr [of "record_stmt v" s1 "()" s2] y True
    obtain t1 where t1: "mg_next s1 = (FOk, t1)" "record_stmt v t1 = Inr s2" by blast
    have "run b (schema s) = Inr (schema s1)" "applied s1 = applied s"
      using t0 mg_next_same [OF t0(1)] same by (auto simp: sql_stmt_def split: sum.splits)
    moreover have "v \<notin> set (applied s1)" "schema s2 = schema s1" "applied s2 = applied s1 @ [v]"
      using t1 mg_next_same [OF t1(1)] by (auto simp: record_stmt_def split: if_splits)
    moreover note mg_next_same [OF f']
    ultimately show ?thesis
      using assms f x y f' True undone by (cases f') (auto simp: applyOne_def)
  qed
qed

lemma is_applied_same: "is_applied v s = (x, s1) \<Longrightarrow> applied s1 = applied s \<and> schema s1 = schema s"
  by (auto simp: is_applied_def dest!: mg_next_same split: prod.splits)

lemma is_applied_Inr: "is_applied v s = (Inr b, s1) \<Longrightarrow> b \<longleftrightarrow> v \<in> set (applied s)"
  by (auto simp: is_applied_def dest!: mg_next_same split: prod.splits if_splits)

lemma recorded_step:
  "recorded_exactly run B d0 s \<Longrightarrow> v \<notin> set (applied s) \<Longrightarrow> run (B v) (schema s) = Inr (schema s') \<Longrightarrow>
     applied s' = applied s @ [v] \<Longrightarrow> recorded_exactly run B d0 s'"
  by (simp add: recorded_exactly_def replay_snoc)

lemma recorded_same:
  "recorded_exactly run B d0 s \<Longrightarrow> applied s' = applied s \<Longrightarrow> schema s' = schema s \<Longrightarrow> recorded_exactly run B d0 s'"
  by (simp add: recorded_exactly_def)

lemma apply_files_effect:
  assumes "apply_files fs run lg files s = (res, s')" and "recorded_exactly run B d0 s"
    and "\<And>f b. f \<in> set files \<Longrightarrow> read_file fs f = Inr b \<Longrightarrow> b = B (version_of f)"
  shows "recorded_exactly run B d0 s' \<and> (\<exists>vs. applied s' = applied s @ vs \<and> subseq vs (map version_of files)) \<and>
    (res = Inr () \<longrightarrow> version_of ` set files \<subseteq> set (applied s'))"
  using assms
proof (induction fs run lg files s rule: apply_files.induct)
  case (1 fs run lg s)
  then show ?case by simp
next
  case (2 fs run lg p files s)
  obtain x s1 where q: "is_applied (version_of p) s = (x, s1)" by fastforce
  note same = is_applied_same [OF q]
  have r1: "recorded_exactly run B d0 s1" using recorded_same [OF "2.prems"(2)] same by blast
  have bodies: "\<And>f b. f \<in> set files \<Longrightarrow> read_file fs f = Inr b \<Longrightarrow> b = B (version_of f)" using "2.prems"(3) by simp
  show ?case
  proof (cases x)
    case (Inl e)
    with "2.prems"(1) q have "s' = s1" "res \<noteq> Inr ()" by (auto simp: Let_def)
    with r1 same show ?thesis by simp
  next
    case (Inr b)
    show ?thesis
    proof (cases b)
      case True
      let ?s2 = "mg_log Debug ''migration already applied'' (lg @ [(''version'', AStr (version_of p))]) s1"
      have v: "version_of p \<in> set (applied s)" using is_applied_Inr q Inr True by blast
      have e: "apply_files fs run lg files ?s2 = (res, s')" using "2.prems"(1) q Inr True by (simp add: Let_def)
      have r2: "recorded_exactly run B d0 ?s2" using recorded_same [OF r1] by simp
      note ih = "2.IH"(1) [OF refl q [symmetric] Inr True e r2 bodies]
      then obtain vs where vs: "applied s' = applied s @ vs" "subseq vs (map version_of files)"
        using same by auto
      have "subseq vs (map version_of (p # files))" using vs(2) by (simp add: list_emb_Cons)
      moreover have "version_of p \<in> set (applied s')" using v vs(1) by simp
      ultimately show ?thesis using ih vs(1) by auto
    next
      case False
      have v: "version_of p \<notin> set (applied s)" using is_applied_Inr q Inr False by blast
      show ?thesis
      proof (cases "read_file fs p")
        case (Inl e)
        with "2.prems"(1) q \<open>x = Inr b\<close> False have "s' = s1" "res \<noteq> Inr ()" by (auto simp: Let_def)
        with r1 same show ?thesis by simp
      next
        case body: (Inr t)
        then have t: "t = B (version_of p)" using "2.prems"(3) by simp
        obtain y s2 where a: "applyOne run (version_of p) t s1 = (y, s2)" by fastforce
        note eff = applyOne_effect [OF a]
        show ?thesis
        proof (cases y)
          case fail: (Inl e)
          have r2: "recorded_exactly run B d0 s2"
            using eff recorded_same [OF r1] recorded_step [OF r1] t by auto
          have "subseq [version_of p] (map version_of (p # files))" by simp
          moreover have "s' = s2" "res \<noteq> Inr ()"
            using "2.prems"(1) q \<open>x = Inr b\<close> False body a fail by (auto simp: Let_def)
          ultimately show ?thesis using eff r2 same by (metis append_Nil2 list_emb_Nil)
        next
          case ok: (Inr u)
          let ?s3 = "mg_log Info ''migration applied'' (lg @ [(''version'', AStr (version_of p))]) s2"
          have s2: "run t (schema s1) = Inr (schema s2)" "applied s2 = applied s1 @ [version_of p]"
            using eff ok by auto
          have r2: "recorded_exactly run B d0 ?s3"
            using recorded_step [OF r1, of "version_of p" ?s3] s2 v same t by simp
          have e: "apply_files fs run lg files ?s3 = (res, s')"
            using "2.prems"(1) q \<open>x = Inr b\<close> False body a ok by (simp add: Let_def)
          note ih = "2.IH"(2) [OF refl q [symmetric] Inr False body a [symmetric] ok e r2 bodies]
          then obtain vs where vs: "applied s' = applied s @ version_of p # vs" "subseq vs (map version_of files)"
            using s2(2) same by (simp only: mg_log_same) auto
          have "subseq (version_of p # vs) (map version_of (p # files))" using vs(2) by simp
          with ih vs(1) show ?thesis by auto
        qed
      qed
    qed
  qed
qed

lemma sort_Nil_iff: "sort xs = [] \<longleftrightarrow> xs = []"
  by (metis set_empty set_sort)

lemma apply_files_done:
  "version_of ` set files \<subseteq> set (applied s) \<Longrightarrow> mg_faults s = [] \<Longrightarrow>
     \<exists>s'. apply_files fs run lg files s = (Inr (), s') \<and> applied s' = applied s \<and> schema s' = schema s \<and> mg_faults s' = []"
proof (induction files arbitrary: s)
  case (Cons f files)
  let ?s = "mg_log Debug ''migration already applied'' (lg @ [(''version'', AStr (version_of f))]) s"
  have "is_applied (version_of f) s = (Inr True, s)" using Cons.prems by (simp add: is_applied_def mg_next_def)
  with Cons.IH [of ?s] Cons.prems show ?case by (simp add: Let_def)
qed simp

lemma create_same:
  "mg_exec create_stmt s = (x, s1) \<Longrightarrow> applied s1 = applied s \<and> schema s1 = schema s"
  by (auto simp: mg_exec_def create_stmt_def dest!: mg_next_same split: prod.splits fault.splits)

text \<open>
  C9: a migration is recorded exactly when it was run. Whatever the connection and the files do, the schema
  after a run is the one that the recorded versions' texts build, each once and in the order recorded; the
  versions new in this run are some of the directory's in lexical order; a run that returns no error leaves
  none of the directory's versions unrecorded, and repeating it on a healthy connection then changes nothing.
\<close>
theorem migrations_exact:
  assumes "recorded_exactly run B d0 s" and "RunMigrations fs run dir lg s = (res, s')"
    and "\<And>files f b. glob fs (filepath_Join dir ''*.up.sql'') = Inr files \<Longrightarrow> f \<in> set files \<Longrightarrow>
      read_file fs f = Inr b \<Longrightarrow> b = B (version_of f)"
  shows "recorded_exactly run B d0 s' \<and>
    (\<exists>vs. applied s' = applied s @ vs \<and> (vs = [] \<or> (\<exists>files. glob fs (filepath_Join dir ''*.up.sql'') = Inr files \<and>
       subseq vs (map version_of (sort files))))) \<and>
    (res = Inr () \<longrightarrow> (\<exists>files. glob fs (filepath_Join dir ''*.up.sql'') = Inr files \<and> files \<noteq> [] \<and>
       version_of ` set files \<subseteq> set (applied s')) \<and>
       (mg_faults s' = [] \<longrightarrow> (\<exists>s2. RunMigrations fs run dir lg s' = (Inr (), s2) \<and> applied s2 = applied s' \<and>
          schema s2 = schema s')))"
proof -
  obtain x s1 where x: "mg_exec create_stmt s = (x, s1)" by fastforce
  note same = create_same [OF x]
  have r1: "recorded_exactly run B d0 s1" using recorded_same [OF assms(1)] same by blast
  show ?thesis
  proof (cases "x = Inr () \<and> (\<exists>files. glob fs (filepath_Join dir ''*.up.sql'') = Inr files \<and> files \<noteq> [])")
    case False
    then have "s' = s1" "res \<noteq> Inr ()"
      using assms(2) x by (cases x; auto simp: RunMigrations_def Let_def split: sum.splits if_splits)+
    with r1 same show ?thesis by simp
  next
    case True
    then obtain files where files: "glob fs (filepath_Join dir ''*.up.sql'') = Inr files" "files \<noteq> []" "x = Inr ()" by blast
    then have a: "apply_files fs run lg (sort files) s1 = (res, s')"
      using assms(2) x by (simp add: RunMigrations_def Let_def)
    have bodies: "\<And>f b. f \<in> set (sort files) \<Longrightarrow> read_file fs f = Inr b \<Longrightarrow> b = B (version_of f)"
      using assms(3) [OF files(1)] by simp
    note eff = apply_files_effect [OF a r1 bodies]
    have again: "\<exists>s2. RunMigrations fs run dir lg s' = (Inr (), s2) \<and> applied s2 = applied s' \<and> schema s2 = schema s'"
      if "res = Inr ()" "mg_faults s' = []"
    proof -
      have "mg_exec create_stmt s' = (Inr (), s')" using that(2) by (simp add: mg_exec_def create_stmt_def mg_next_def)
      moreover have "version_of ` set (sort files) \<subseteq> set (applied s')" using eff that(1) by simp
      ultimately show ?thesis
        using apply_files_done [of "sort files" s' fs run lg] files that(2) by (auto simp: RunMigrations_def Let_def)
    qed
    from eff obtain vs where "applied s' = applied s @ vs" "subseq vs (map version_of (sort files))"
      using same by auto
    with eff files again show ?thesis by auto
  qed
qed

section \<open>Example\<close>

text \<open>Two files listed out of order; running a text appends it.\<close>

definition sample_fs :: file_system where
  "sample_fs = \<lparr>glob = (\<lambda>_. Inr [''m/0002_b.up.sql'', ''m/0001_a.up.sql'']), read_file = (\<lambda>f. Inr (version_of f)),
     open_csv = (\<lambda>_. Inl (Plain ''no such file''))\<rparr>"

definition append_run :: "string list run_sql" where "append_run t d = Inr (d @ [t])"

definition empty_mig :: "string list mig" where
  "empty_mig = \<lparr>applied = [], schema = [], mg_faults = [], mg_logs = []\<rparr>"

theorem migrations_exact_witness:
  "applied (snd (RunMigrations sample_fs append_run ''m'' [] empty_mig)) = [''0001_a'', ''0002_b''] \<and>
   recorded_exactly append_run (\<lambda>v. v) [] (snd (RunMigrations sample_fs append_run ''m'' [] empty_mig))"
proof -
  let ?x = "RunMigrations sample_fs append_run ''m'' [] empty_mig"
  have "applied (snd ?x) = [''0001_a'', ''0002_b'']" by code_simp
  moreover have "recorded_exactly append_run (\<lambda>v. v) [] empty_mig" by (simp add: recorded_exactly_def empty_mig_def)
  ultimately show ?thesis
    using migrations_exact [of append_run "\<lambda>v. v" "[]" empty_mig sample_fs "''m''" "[]" "fst ?x" "snd ?x"]
    by (auto simp: sample_fs_def)
qed

end
