(* ===== verification/Seed.thy ===== *)
theory Seed imports Migrations Trade_Store begin

text \<open>
  The seed loader of \<open>internal/db/seed.go\<close>. The file is given as \<open>encoding/csv\<close> splits it: a list of records,
  each a list of fields or a syntax error. Hexadecimal floating-point notation, which \<open>strconv.ParseFloat\<close> also
  reads, is not modelled; a price that is not a number, which PostgreSQL would store, fails in the model's COPY.
  How pgx reads an identifier is a parameter, since its rules are not those of the uuid package. The loader's two
  log lines are left out.
\<close>

section \<open>Parsing a field\<close>

definition sign_of :: "string \<Rightarrow> int \<times> string" where
  "sign_of s = (case s of c # cs \<Rightarrow> if c = CHR ''-'' then (- 1, cs) else if c = CHR ''+'' then (1, cs) else (1, s) | [] \<Rightarrow> (1, []))"

definition special_float :: "string \<Rightarrow> float64 option" where
  "special_float s =
     (case sign_of s of (sg, r) \<Rightarrow>
        if map lower r \<in> {''inf'', ''infinity''} then Some (if sg < 0 then NInf else PInf)
        else if map lower s = ''nan'' then Some NaN else None)"

definition exponent :: "string \<Rightarrow> int option" where
  "exponent e = (case e of [] \<Rightarrow> Some 0
     | _ # x \<Rightarrow> (case sign_of x of (sg, ds) \<Rightarrow> if ds = [] \<or> \<not> list_all is_digit ds then None else Some (sg * number ds)))"

definition decimal_value :: "string \<Rightarrow> rat option" where
  "decimal_value s =
     (case sign_of s of (sg, r) \<Rightarrow>
       (let mant = takeWhile (\<lambda>c. lower c \<noteq> CHR ''e'') r;
            ip = takeWhile (\<lambda>c. c \<noteq> CHR ''.'') mant;
            fp = drop 1 (dropWhile (\<lambda>c. c \<noteq> CHR ''.'') mant)
        in if ip @ fp = [] \<or> \<not> list_all is_digit (ip @ fp) then None
           else (case exponent (dropWhile (\<lambda>c. lower c \<noteq> CHR ''e'') r) of
                   None \<Rightarrow> None
                 | Some x \<Rightarrow> Some (of_int (sg * number (ip @ fp)) * 10 powi (x - int (length fp))))))"

definition ParseFloat :: "string \<Rightarrow> go_error + float64" where
  "ParseFloat s =
     (case special_float s of
        Some f \<Rightarrow> Inr f
      | None \<Rightarrow>
          (case decimal_value s of
             None \<Rightarrow> Inl (Plain (''strconv.ParseFloat: parsing '' @ s @ '': invalid syntax''))
           | Some x \<Rightarrow>
               (case of_exact x of
                  Fin y \<Rightarrow> Inr (Fin y)
                | _ \<Rightarrow> Inl (Plain (''strconv.ParseFloat: parsing '' @ s @ '': value out of range'')))))"

definition ParseBool :: "string \<Rightarrow> go_error + bool" where
  "ParseBool s =
     (if s \<in> {''1'', ''t'', ''T'', ''TRUE'', ''true'', ''True''} then Inr True
      else if s \<in> {''0'', ''f'', ''F'', ''FALSE'', ''false'', ''False''} then Inr False
      else Inl (Plain (''strconv.ParseBool: parsing '' @ s @ '': invalid syntax'')))"

definition parseTime :: "string \<Rightarrow> go_error + instant" where
  "parseTime s = (case parse_rfc3339nano s of None \<Rightarrow> Inl (Plain (''parsing time '' @ s)) | Some (t, off) \<Rightarrow> Inr t)"

definition emptyToNil :: "string \<Rightarrow> string option" where
  "emptyToNil s = (if s = '''' then None else Some s)"

definition parseTimeNullable :: "string \<Rightarrow> go_error + instant option" where
  "parseTimeNullable s = (if s = '''' then Inr None else bind_ok (parseTime s) (\<lambda>t. Inr (Some t)))"

definition parseFloatNullable :: "string \<Rightarrow> go_error + float64 option" where
  "parseFloatNullable s = (if s = '''' then Inr None else bind_ok (ParseFloat s) (\<lambda>f. Inr (Some f)))"

definition parseIntNullable :: "string \<Rightarrow> go_error + int option" where
  "parseIntNullable s = (if s = '''' then Inr None
     else (case Atoi s of None \<Rightarrow> Inl (Plain (''strconv.Atoi: parsing '' @ s)) | Some n \<Rightarrow> Inr (Some n)))"

section \<open>One record\<close>

record seed_row =
  sr_trade_id :: string
  sr_user_id :: string
  sr_trader_name :: "string option"
  sr_session_id :: string
  sr_asset :: string
  sr_asset_class :: string
  sr_direction :: string
  sr_entry_price :: float64
  sr_exit_price :: "float64 option"
  sr_quantity :: float64
  sr_entry_at :: instant
  sr_exit_at :: "instant option"
  sr_status :: string
  sr_outcome :: "string option"
  sr_pnl :: "float64 option"
  sr_plan_adherence :: "int option"
  sr_emotional_state :: "string option"
  sr_entry_rationale :: "string option"
  sr_revenge_flag :: bool
  sr_pathologies :: "string option"

definition labelled :: "string \<Rightarrow> go_error + 'a \<Rightarrow> go_error + 'a" where
  "labelled m x = (case x of Inl e \<Rightarrow> Inl (Wrap m e) | Inr v \<Rightarrow> Inr v)"

definition parseSeedRow :: "string list \<Rightarrow> go_error + seed_row" where
  "parseSeedRow rec =
     (if length rec \<noteq> 20 then Inl (Plain (''expected 20 fields, got '' @ dec (length rec)))
      else
       bind_ok (labelled ''entryAt'' (parseTime (rec ! 10))) (\<lambda>entryAt.
       bind_ok (labelled ''exitAt'' (parseTimeNullable (rec ! 11))) (\<lambda>exitAt.
       bind_ok (labelled (''entryPrice '' @ rec ! 7) (ParseFloat (rec ! 7))) (\<lambda>entryPrice.
       bind_ok (labelled (''quantity '' @ rec ! 9) (ParseFloat (rec ! 9))) (\<lambda>qty.
       bind_ok (labelled ''exitPrice'' (parseFloatNullable (rec ! 8))) (\<lambda>exitPrice.
       bind_ok (labelled ''pnl'' (parseFloatNullable (rec ! 14))) (\<lambda>pl.
       bind_ok (labelled ''planAdherence'' (parseIntNullable (rec ! 15))) (\<lambda>planAdh.
       bind_ok (labelled (''revengeFlag '' @ rec ! 18) (ParseBool (rec ! 18))) (\<lambda>revenge.
         Inr \<lparr>sr_trade_id = rec ! 0, sr_user_id = rec ! 1, sr_trader_name = emptyToNil (rec ! 2),
           sr_session_id = rec ! 3, sr_asset = rec ! 4, sr_asset_class = rec ! 5, sr_direction = rec ! 6,
           sr_entry_price = entryPrice, sr_exit_price = exitPrice, sr_quantity = qty,
           sr_entry_at = entryAt, sr_exit_at = exitAt, sr_status = rec ! 12, sr_outcome = emptyToNil (rec ! 13),
           sr_pnl = pl, sr_plan_adherence = planAdh, sr_emotional_state = emptyToNil (rec ! 16),
           sr_entry_rationale = emptyToNil (rec ! 17), sr_revenge_flag = revenge,
           sr_pathologies = emptyToNil (rec ! 19)\<rparr>)))))))))"

section \<open>COPY\<close>

type_synonym pgx_uuid = "string \<Rightarrow> uuid option"

definition uuid_column :: "pgx_uuid \<Rightarrow> string \<Rightarrow> sql_error + uuid" where
  "uuid_column U s = (case U s of None \<Rightarrow> Inl InvalidText | Some u \<Rightarrow> Inr u)"

definition copy_row :: "platform \<Rightarrow> pgx_uuid \<Rightarrow> instant \<Rightarrow> seed_row \<Rightarrow> sql_error + trade_row" where
  "copy_row P U now sr =
     bind_ok (uuid_column U (sr_trade_id sr)) (\<lambda>trade_c.
     bind_ok (uuid_column U (sr_user_id sr)) (\<lambda>user_c.
     bind_ok (opt_ok to_text (sr_trader_name sr)) (\<lambda>name_c.
     bind_ok (uuid_column U (sr_session_id sr)) (\<lambda>session_c.
     bind_ok (to_text (sr_asset sr)) (\<lambda>asset_c.
     bind_ok (asset_class_of (sr_asset_class sr)) (\<lambda>class_c.
     bind_ok (direction_of (sr_direction sr)) (\<lambda>direction_c.
     bind_ok (float_column P (sr_entry_price sr)) (\<lambda>entry_price_c.
     bind_ok (opt_ok (float_column P) (sr_exit_price sr)) (\<lambda>exit_price_c.
     bind_ok (float_column P (sr_quantity sr)) (\<lambda>quantity_c.
     bind_ok (status_of (sr_status sr)) (\<lambda>status_c.
     bind_ok (opt_ok outcome_of (sr_outcome sr)) (\<lambda>outcome_c.
     bind_ok (opt_ok (float_column P) (sr_pnl sr)) (\<lambda>pnl_c.
     bind_ok (opt_ok to_int2 (sr_plan_adherence sr)) (\<lambda>plan_c.
     bind_ok (opt_ok emotion_of (sr_emotional_state sr)) (\<lambda>emotion_c.
     bind_ok (opt_ok to_text (sr_entry_rationale sr)) (\<lambda>rationale_c.
     bind_ok (opt_ok to_text (sr_pathologies sr)) (\<lambda>pathologies_c.
       Inr \<lparr>trade_id = trade_c, user_id = user_c, trader_name = name_c, session_id = session_c, asset = asset_c,
         asset_class = class_c, direction = direction_c, entry_price = entry_price_c, exit_price = exit_price_c,
         quantity = quantity_c, entry_at = to_timestamptz (sr_entry_at sr),
         exit_at = map_option to_timestamptz (sr_exit_at sr), status = status_c, outcome = outcome_c, pnl = pnl_c,
         plan_adherence = plan_c, emotional_state = emotion_c, entry_rationale = rationale_c,
         revenge_flag = sr_revenge_flag sr, ground_truth_pathologies = pathologies_c,
         created_at = now, updated_at = now\<rparr>)))))))))))))))))"

text \<open>The rows go in one after the other; one that breaks a constraint or repeats a key fails the statement.\<close>

fun copy_into :: "trade_row list \<Rightarrow> trade_row list \<Rightarrow> sql_error + trade_row list" where
  "copy_into tbl [] = Inr tbl"
| "copy_into tbl (r # rs) =
     (case trade_checks r of
        Some c \<Rightarrow> Inl (CheckViolation c)
      | None \<Rightarrow> if tbl_lookup trade_id (trade_id r) tbl \<noteq> None then Inl UniqueViolation
          else copy_into (tbl @ [r]) rs)"

definition copy_stmt :: "platform \<Rightarrow> pgx_uuid \<Rightarrow> seed_row list \<Rightarrow> db \<Rightarrow> sql_error + db" where
  "copy_stmt P U rows s =
     bind_ok (collect_ok (map (copy_row P U (clock s)) rows)) (\<lambda>news.
     bind_ok (copy_into (trades s) news) (\<lambda>tbl. Inr (s\<lparr>trades := tbl\<rparr>)))"

section \<open>The loader\<close>

text \<open>\<open>Reader.Read\<close> with \<open>FieldsPerRecord = 20\<close>.\<close>

definition read_record :: "go_error + string list \<Rightarrow> go_error + string list" where
  "read_record x = bind_ok x (\<lambda>rec. if length rec \<noteq> 20 then Inl (Plain ''wrong number of fields'') else Inr rec)"

fun read_rows :: "nat \<Rightarrow> (go_error + string list) list \<Rightarrow> go_error + seed_row list" where
  "read_rows lineNo [] = Inr []"
| "read_rows lineNo (x # xs) =
     bind_ok (labelled (''line '' @ dec lineNo) (read_record x)) (\<lambda>rec.
     bind_ok (labelled (''line '' @ dec lineNo) (parseSeedRow rec)) (\<lambda>row.
     bind_ok (read_rows (Suc lineNo) xs) (\<lambda>rows. Inr (row # rows))))"

definition read_csv :: "file_system \<Rightarrow> string \<Rightarrow> go_error + seed_row list" where
  "read_csv fs path =
     bind_ok (labelled (''open csv '' @ path) (open_csv fs path)) (\<lambda>recs.
       case recs of
         [] \<Rightarrow> Inl (Wrap ''read header'' (Plain ''EOF''))
       | header # body \<Rightarrow>
           bind_ok (labelled ''read header'' (read_record header)) (\<lambda>_. read_rows 2 body))"

definition SeedFromCSV :: "platform \<Rightarrow> pgx_uuid \<Rightarrow> file_system \<Rightarrow> string \<Rightarrow> db \<Rightarrow> (go_error + unit) \<times> db" where
  "SeedFromCSV P U fs path s =
     (case db_query_row (read_row (\<lambda>s. Some (length (trades s)))) s of
        (Inl e, s1) \<Rightarrow> (Inl (Wrap ''count trades'' (Sql e)), s1)
      | (Inr existing, s1) \<Rightarrow>
          if 0 < existing then (Inr (), s1)
          else (case read_csv fs path of
                  Inl e \<Rightarrow> (Inl e, s1)
                | Inr rows \<Rightarrow> wrap_err ''copy from'' (sql_result (db_exec (copy_stmt P U rows) s1))))"

section \<open>All of the file or none of it\<close>

lemma labelled_Inr [simp]: "labelled m x = Inr v \<longleftrightarrow> x = Inr v"
  by (cases x) (simp_all add: labelled_def)

lemma read_record_Inr: "read_record x = Inr rec \<longleftrightarrow> x = Inr rec \<and> length rec = 20"
  by (cases x) (auto simp: read_record_def)

lemma read_rows_Inr:
  "read_rows n xs = Inr rows \<Longrightarrow> \<exists>recs. xs = map Inr recs \<and> (\<forall>rec \<in> set recs. length rec = 20) \<and>
     list_all2 (\<lambda>rec sr. parseSeedRow rec = Inr sr) recs rows"
proof (induction n xs arbitrary: rows rule: read_rows.induct)
  case (2 n x xs)
  then obtain rec row rows' where r: "x = Inr rec" "length rec = 20" "parseSeedRow rec = Inr row"
      "read_rows (Suc n) xs = Inr rows'" "rows = row # rows'"
    by (auto simp: bind_ok_Inr_iff read_record_Inr)
  from "2.IH" [OF r(4)] obtain recs where "xs = map Inr recs" "\<forall>rec \<in> set recs. length rec = 20"
      "list_all2 (\<lambda>rec sr. parseSeedRow rec = Inr sr) recs rows'" by blast
  with r show ?case by (intro exI [of _ "rec # recs"]) simp
qed simp

lemma read_csv_Inr:
  assumes "read_csv fs path = Inr rows"
  shows "\<exists>header recs. open_csv fs path = Inr (map Inr (header # recs)) \<and> (\<forall>rec \<in> set (header # recs). length rec = 20) \<and>
    list_all2 (\<lambda>rec sr. parseSeedRow rec = Inr sr) recs rows"
proof -
  obtain all where all: "open_csv fs path = Inr all" using assms by (auto simp: read_csv_def bind_ok_Inr_iff)
  obtain x xs header where x: "all = x # xs" "read_record x = Inr header" "read_rows 2 xs = Inr rows"
    using assms all by (cases all) (auto simp: read_csv_def bind_ok_Inr_iff)
  from read_rows_Inr [OF x(3)] obtain recs where "xs = map Inr recs" "\<forall>rec \<in> set recs. length rec = 20"
      "list_all2 (\<lambda>rec sr. parseSeedRow rec = Inr sr) recs rows" by blast
  with x all show ?thesis by (intro exI [of _ header] exI [of _ recs]) (simp add: read_record_Inr)
qed

lemma collect_ok_all: "collect_ok (map f xs) = Inr ys \<Longrightarrow> list_all2 (\<lambda>x y. f x = Inr y) xs ys"
  by (induction xs arbitrary: ys) (auto simp: bind_ok_Inr_iff)

lemma copy_into_Inr:
  "copy_into tbl rs = Inr t \<Longrightarrow> t = tbl @ rs \<and> (\<forall>r \<in> set rs. trade_checks r = None) \<and>
     (distinct (map trade_id tbl) \<longrightarrow> distinct (map trade_id t))"
  by (induction tbl rs rule: copy_into.induct)
    (auto simp: tbl_lookup_None_iff split: option.splits if_splits, blast)

lemma copy_row_times:
  "copy_row P U now sr = Inr r \<Longrightarrow> entry_at r mod 1000 = 0 \<and> (\<forall>t. exit_at r = Some t \<longrightarrow> t mod 1000 = 0)"
  by (auto simp: copy_row_def bind_ok_Inr_iff)

definition loaded :: "platform \<Rightarrow> pgx_uuid \<Rightarrow> file_system \<Rightarrow> string \<Rightarrow> db \<Rightarrow> db \<Rightarrow> bool" where
  "loaded P U fs path s s' \<longleftrightarrow> (\<exists>header recs.
     open_csv fs path = Inr (map Inr (header # recs)) \<and>
     list_all2 (\<lambda>rec row. \<exists>sr. parseSeedRow rec = Inr sr \<and> copy_row P U (clock s) sr = Inr row) recs (trades s') \<and>
     same_tables (s\<lparr>trades := trades s'\<rparr>) s')"

lemma list_all2_compose:
  "list_all2 p xs ys \<Longrightarrow> list_all2 q ys zs \<Longrightarrow> list_all2 (\<lambda>x z. \<exists>y. p x y \<and> q y z) xs zs"
  by (rule list_all2_trans [of p q "\<lambda>x z. \<exists>y. p x y \<and> q y z"]) blast+

lemma copy_stmt_loads:
  assumes "copy_stmt P U rows s = Inr s'" and "trades s = []" and "read_csv fs path = Inr rows"
  shows "loaded P U fs path s s' \<and> trades_ok s'"
proof -
  from assms(1,2) obtain news tbl where n: "collect_ok (map (copy_row P U (clock s)) rows) = Inr news"
      "copy_into [] news = Inr tbl" "s' = s\<lparr>trades := tbl\<rparr>"
    by (auto simp: copy_stmt_def bind_ok_Inr_iff)
  note into = copy_into_Inr [OF n(2)] and conv = collect_ok_all [OF n(1)]
  have times: "\<forall>r \<in> set news. entry_at r mod 1000 = 0 \<and> (\<forall>t. exit_at r = Some t \<longrightarrow> t mod 1000 = 0)"
  proof
    fix r assume "r \<in> set news"
    then obtain i where "i < length news" "news ! i = r" by (auto simp: in_set_conv_nth)
    then have "copy_row P U (clock s) (rows ! i) = Inr r" using conv by (auto simp: list_all2_conv_all_nth)
    then show "entry_at r mod 1000 = 0 \<and> (\<forall>t. exit_at r = Some t \<longrightarrow> t mod 1000 = 0)" by (rule copy_row_times)
  qed
  from read_csv_Inr [OF assms(3)] obtain header recs where r: "open_csv fs path = Inr (map Inr (header # recs))"
      "list_all2 (\<lambda>rec sr. parseSeedRow rec = Inr sr) recs rows" by blast
  have t: "trades s' = news" using n(3) into by simp
  have st: "same_tables (s\<lparr>trades := trades s'\<rparr>) s'" using n(3) by simp
  have "loaded P U fs path s s'"
    unfolding loaded_def
  proof (intro exI conjI)
    show "open_csv fs path = Inr (map Inr (header # recs))" by (rule r(1))
    show "list_all2 (\<lambda>rec row. \<exists>sr. parseSeedRow rec = Inr sr \<and> copy_row P U (clock s) sr = Inr row) recs (trades s')"
      unfolding t by (rule list_all2_compose [OF r(2) conv])
    show "same_tables (s\<lparr>trades := trades s'\<rparr>) s'" by (rule st)
  qed
  moreover have "trades_ok s'" using into times n(3) by (auto simp: trades_ok_def)
  ultimately show ?thesis ..
qed

lemma SeedFromCSV_present:
  assumes "trades s \<noteq> []"
  shows "same_tables s (snd (SeedFromCSV P U fs path s))"
proof -
  obtain x s1 where x: "db_query_row (read_row (\<lambda>s. Some (length (trades s)))) s = (x, s1)" by fastforce
  from db_read_cases [OF x] have same: "same_tables s s1" and n: "\<And>v. x = Inr v \<Longrightarrow> v = length (trades s)"
    using same_tables_fields(1) by fastforce+
  show ?thesis
  proof (cases x)
    case (Inr v)
    with n assms x same show ?thesis by (simp add: SeedFromCSV_def)
  qed (use x same in \<open>simp add: SeedFromCSV_def\<close>)
qed

lemma loaded_same:
  assumes "loaded P U fs path s1 s'" and "same_tables s s1"
  shows "loaded P U fs path s s'"
proof -
  from assms(1) obtain header recs where l: "open_csv fs path = Inr (map Inr (header # recs))"
      "list_all2 (\<lambda>rec row. \<exists>sr. parseSeedRow rec = Inr sr \<and> copy_row P U (clock s1) sr = Inr row) recs (trades s')"
      "same_tables (s1\<lparr>trades := trades s'\<rparr>) s'" unfolding loaded_def by blast
  have "same_tables (s\<lparr>trades := trades s'\<rparr>) s'" using l(3) same_tables_fields [OF assms(2)] by (simp add: same_tables_iff)
  with l(1,2) show ?thesis
    unfolding loaded_def same_tables_fields(6) [OF assms(2)]
    by - (intro exI [of _ header] exI [of _ recs] conjI)
qed

lemma SeedFromCSV_cases:
  assumes "SeedFromCSV P U fs path s = (res, s')" and "trades s = []"
  shows "same_tables s s' \<and> res \<noteq> Inr () \<or> loaded P U fs path s s' \<and> trades_ok s'"
proof -
  obtain x s1 where x: "db_query_row (read_row (\<lambda>s. Some (length (trades s)))) s = (x, s1)" by fastforce
  from db_read_cases [OF x] have same: "same_tables s s1" and n: "\<And>v. x = Inr v \<Longrightarrow> v = 0"
    using same_tables_fields(1) assms(2) by fastforce+
  have empty: "trades s1 = []" using same_tables_fields(1) [OF same] assms(2) by simp
  show ?thesis
  proof (cases "\<exists>v rows. x = Inr v \<and> read_csv fs path = Inr rows")
    case False
    with assms(1) x same n show ?thesis by (cases x; cases "read_csv fs path") (auto simp: SeedFromCSV_def)
  next
    case True
    then obtain v rows where v: "x = Inr v" and rows: "read_csv fs path = Inr rows" by blast
    obtain y s2 where y: "db_exec (copy_stmt P U rows) s1 = (y, s2)" by fastforce
    have s': "s' = s2" and res: "res = Inr () \<longleftrightarrow> y = Inr ()"
      using assms(1) x v rows n [OF v] y by (cases y; auto simp: SeedFromCSV_def wrap_err_def sql_result_def)+
    from y show ?thesis
    proof (cases rule: db_exec_cases)
      case (skipped e)
      then show ?thesis using s' res same_tables_trans [OF same] by auto
    next
      case (applied s3)
      have "trades s3 = []" using same_tables_fields(1) [OF applied(1)] empty by simp
      from copy_stmt_loads [OF applied(2) this rows] loaded_same [OF _ same_tables_trans [OF same applied(1)]] s'
      show ?thesis by blast
    qed
  qed
qed

text \<open>
  C15: the seed is loaded whole or not at all. Started on an empty table, whatever the connection does, the table is
  afterwards still empty, and then an error was returned, or it holds one row for every record after the
  header, in the order of the file, each parsed and converted. A table with trades is left alone. The schema's
  key and CHECK constraints hold after every run, so a run after a successful one changes nothing.
\<close>
theorem seed_all_or_nothing:
  assumes "SeedFromCSV P U fs path s = (res, s')" and "trades_ok s"
  shows "trades_ok s' \<and>
    (if trades s = [] then (if res = Inr () then loaded P U fs path s s'
       else same_tables s s' \<or> loaded P U fs path s s')
     else same_tables s s') \<and>
    (trades s' \<noteq> [] \<longrightarrow> same_tables s' (snd (SeedFromCSV P U fs path s')))"
proof (cases "trades s = []")
  case True
  from SeedFromCSV_cases [OF assms(1) True] trades_ok_same assms(2) SeedFromCSV_present True show ?thesis by auto
next
  case False
  from SeedFromCSV_present [OF this, of P U fs path] assms(1) have "same_tables s s'" by simp
  with trades_ok_same assms(2) SeedFromCSV_present False show ?thesis by auto
qed

section \<open>Example\<close>

text \<open>A record of the shape of the seed file, with short identifiers.\<close>

definition sample_rec :: "string list" where
  "sample_rec = [''t'', ''u'', ''Alex Mercer'', ''s'', ''NVDA'', ''equity'', ''long'', ''470'', ''46'', ''46'',
     ''2025-01-06T09:30:00.000Z'', ''2025-01-06T10:47:00.000Z'', ''closed'', ''loss'', ''-64'', ''4'', ''calm'',
     ''Trend continuation'', ''false'', '''']"

definition csv_fs :: file_system where
  "csv_fs = sample_fs\<lparr>open_csv := (\<lambda>_. Inr [Inr (replicate 20 ''h''), Inr sample_rec])\<rparr>"

definition short_uuid :: pgx_uuid where
  "short_uuid s = (if s = ''t'' then Some 1 else if s = ''u'' then Some 2 else if s = ''s'' then Some 3 else None)"

lemma ParseFloat_decimal:
  "special_float s = None \<Longrightarrow> decimal_value s = Some x \<Longrightarrow> of_exact x = Fin y \<Longrightarrow> ParseFloat s = Inr (Fin y)"
  by (simp add: ParseFloat_def)

lemma sample_decimals:
  "decimal_value ''470'' = Some 470" "decimal_value ''46'' = Some 46" "decimal_value ''-64'' = Some (- 64)"
  by (simp_all add: decimal_value_def sign_of_def lower_def Let_def is_digit_def exponent_def number_def digit_val_def
      power_int_def power_divide)

lemma sample_specials:
  "special_float ''470'' = None" "special_float ''46'' = None" "special_float ''-64'' = None"
  by (simp_all add: special_float_def sign_of_def lower_def)

lemma sample_doubles:
  "of_exact 470 = Fin 470" "of_exact 46 = Fin 46" "of_exact (- 64) = Fin (- 64)"
  using fl_of_int [of 470] fl_of_int [of 46] fl_of_int [of "- 64"] by (simp_all add: of_exact_def)

lemmas sample_floats = ParseFloat_decimal [OF sample_specials(1) sample_decimals(1) sample_doubles(1)]
  ParseFloat_decimal [OF sample_specials(2) sample_decimals(2) sample_doubles(2)]
  ParseFloat_decimal [OF sample_specials(3) sample_decimals(3) sample_doubles(3)]

lemma sample_times:
  "parseTime ''2025-01-06T09:30:00.000Z'' = Inr (1736155800 * 10 ^ 9)"
  "parseTime ''2025-01-06T10:47:00.000Z'' = Inr (1736160420 * 10 ^ 9)"
proof -
  have p: "parse_rfc3339nano ''2025-01-06T09:30:00.000Z'' = Some (1736155800 * 10 ^ 9, 0)"
    "parse_rfc3339nano ''2025-01-06T10:47:00.000Z'' = Some (1736160420 * 10 ^ 9, 0)" by code_simp+
  show "parseTime ''2025-01-06T09:30:00.000Z'' = Inr (1736155800 * 10 ^ 9)"
    "parseTime ''2025-01-06T10:47:00.000Z'' = Inr (1736160420 * 10 ^ 9)" unfolding parseTime_def p by simp_all
qed

definition sample_seed :: seed_row where
  "sample_seed = \<lparr>sr_trade_id = ''t'', sr_user_id = ''u'', sr_trader_name = Some ''Alex Mercer'', sr_session_id = ''s'',
     sr_asset = ''NVDA'', sr_asset_class = ''equity'', sr_direction = ''long'', sr_entry_price = Fin 470,
     sr_exit_price = Some (Fin 46), sr_quantity = Fin 46, sr_entry_at = 1736155800 * 10 ^ 9,
     sr_exit_at = Some (1736160420 * 10 ^ 9), sr_status = ''closed'', sr_outcome = Some ''loss'',
     sr_pnl = Some (Fin (- 64)), sr_plan_adherence = Some 4, sr_emotional_state = Some ''calm'',
     sr_entry_rationale = Some ''Trend continuation'', sr_revenge_flag = False, sr_pathologies = None\<rparr>"

lemma sample_rec_parses: "parseSeedRow sample_rec = Inr sample_seed"
proof -
  have "Atoi ''4'' = Some 4" by code_simp
  then show ?thesis
    by (simp add: parseSeedRow_def sample_rec_def labelled_def sample_floats sample_times parseTimeNullable_def
        parseFloatNullable_def parseIntNullable_def ParseBool_def emptyToNil_def sample_seed_def nth_Cons_numeral)
qed

lemma sample_csv: "read_csv csv_fs ''f'' = Inr [sample_seed]"
proof -
  have "length (replicate 20 ''h'') = 20" "length sample_rec = 20" by (simp_all add: sample_rec_def)
  then show ?thesis
    by (simp add: read_csv_def csv_fs_def labelled_def read_record_def sample_rec_parses)
qed

lemma sample_copies: "\<exists>s'. copy_stmt ref_platform short_uuid [sample_seed] empty_db = Inr s'"
proof -
  have n: "to_numeric 18 8 470 = Inr 470"
    "to_numeric 18 8 46 = Inr 46" "to_numeric 18 8 (- 64) = Inr (- 64)" by code_simp+
  show ?thesis
    by (simp add: copy_stmt_def copy_row_def sample_seed_def uuid_column_def short_uuid_def to_text_def enum_defs
        float_column_def ref_platform_def n to_int2_def trade_checks_def empty_db_def utf8_length_def)
qed

theorem seed_all_or_nothing_witness:
  "trades_ok (snd (SeedFromCSV ref_platform short_uuid csv_fs ''f'' empty_db)) \<and>
   length (trades (snd (SeedFromCSV ref_platform short_uuid csv_fs ''f'' empty_db))) = 1"
proof -
  let ?x = "SeedFromCSV ref_platform short_uuid csv_fs ''f'' empty_db"
  have ok: "trades_ok empty_db" "trades empty_db = []" by (simp_all add: trades_ok_def empty_db_def)
  have "faults empty_db = []" "trades empty_db = []" by (simp_all add: empty_db_def)
  then have "fst ?x = Inr ()"
    using sample_copies by (auto simp: SeedFromCSV_def db_simps read_row_def sample_csv wrap_err_def sql_result_def)
  then have x: "?x = (Inr (), snd ?x)" by (metis prod.collapse)
  note r = seed_all_or_nothing [OF x ok(1)]
  from r ok(2) have l: "loaded ref_platform short_uuid csv_fs ''f'' empty_db (snd ?x)" by simp
  from r have t: "trades_ok (snd ?x)" by simp
  from l have "length (trades (snd ?x)) = 1"
    by (auto simp: loaded_def csv_fs_def dest!: list_all2_lengthD)
  with t show ?thesis by simp
qed

end
