(* ===== verification/Boot.thy ===== *)
theory Boot imports Api Seed begin

text \<open>
  The two processes. \<open>run\<close> of \<open>cmd/api/main.go\<close>: the boot, with \<open>NewPool\<close> of \<open>internal/db/db.go\<close> and
  \<open>NewClient\<close> of \<open>internal/queue/queue.go\<close>, then the server until it has stopped; and \<open>run\<close> of \<open>cmd/worker/main.go\<close>.
  What pgx and go-redis make of a connection string, and whether they connect, are parameters; what \<open>ListenAndServe\<close>
  and \<open>Shutdown\<close> return is open. The time limit of the boot context shows as statements that fail. The lines logged
  on the way are left out.
\<close>

section \<open>Connections\<close>

record pool_config =
  pc_dsn :: string
  MaxConns :: int
  MinConns :: int
  MaxConnLifetime :: int
  MaxConnIdleTime :: int

record pgx_lib =
  parse_config :: "string \<Rightarrow> go_error + pool_config"
  new_with_config :: "pool_config \<Rightarrow> go_error option"
  pool_ping :: "pool_config \<Rightarrow> go_error option"

definition NewPool :: "pgx_lib \<Rightarrow> string \<Rightarrow> go_error + pool_config" where
  "NewPool G dsn =
     (case parse_config G dsn of
        Inl e \<Rightarrow> Inl (Wrap ''parse dsn'' e)
      | Inr c \<Rightarrow>
          (let cfg = c\<lparr>MaxConns := 25, MinConns := 5, MaxConnLifetime := minutes 30, MaxConnIdleTime := minutes 5\<rparr>
           in case new_with_config G cfg of
                Some e \<Rightarrow> Inl (Wrap ''connect'' e)
              | None \<Rightarrow>
                  (case pool_ping G cfg of
                     Some e \<Rightarrow> Inl (Wrap ''ping'' e)
                   | None \<Rightarrow> Inr cfg)))"

record redis_options =
  ro_url :: string
  DialTimeout :: int
  ReadTimeout :: int
  WriteTimeout :: int
  MaxRetries :: int
  PoolSize :: int

definition NewClient :: "(string \<Rightarrow> go_error + redis_options) \<Rightarrow> string \<Rightarrow> go_error + redis_options" where
  "NewClient parse_url redisURL =
     (case parse_url redisURL of
        Inl e \<Rightarrow> Inl (Wrap ''parse redis url'' e)
      | Inr opt \<Rightarrow> Inr (opt\<lparr>DialTimeout := seconds 5, ReadTimeout := seconds 3, WriteTimeout := seconds 3,
          MaxRetries := 3, PoolSize := 10\<rparr>))"

section \<open>What the process starts from\<close>

record ('d, 'q) host =
  h_env :: environment
  h_fs :: file_system
  h_pgx :: pgx_lib
  h_run_sql :: "'d run_sql"
  h_uuid :: pgx_uuid
  h_platform :: platform
  h_map_order :: "nat \<Rightarrow> uuid list \<Rightarrow> uuid list"
  h_parse_url :: "string \<Rightarrow> go_error + redis_options"
  h_redis :: "redis_options \<Rightarrow> 'q redis"
  h_jwt :: jwt_lib
  h_chi :: chi
  h_files :: files
  h_landing :: string

record ('d, 'q) machine =
  mc_mig :: "'d mig"
  mc_db :: db
  mc_queue :: 'q

datatype 'q boot_result = Serving "'q deps" | Fatal go_error | Boot_panic string

section \<open>The boot sequence\<close>

definition seed_and_backfill :: "('d, 'q) host \<Rightarrow> config \<Rightarrow> db \<Rightarrow> (go_error + unit) \<times> db" where
  "seed_and_backfill H cfg s =
     (if \<not> SeedOnStart cfg then (Inr (), s)
      else after (wrap_err ''seed'' (SeedFromCSV (h_platform H) (h_uuid H) (h_fs H) (SeedFilePath cfg) s)) (\<lambda>s1.
        (case wrap_err ''check snapshots'' (HasSnapshots s1) of
           (Inl e, s2) \<Rightarrow> (Inl e, s2)
         | (Inr hasSnap, s2) \<Rightarrow>
             if hasSnap then (Inr (), s2)
             else wrap_err ''backfill'' (BackfillFromTrades (h_platform H) (h_map_order H) s2))))"

definition wire :: "('d, 'q) host \<Rightarrow> config \<Rightarrow> 'q redis \<Rightarrow> string \<Rightarrow> 'q deps" where
  "wire H cfg R secret =
     \<lparr>d_platform = h_platform H, d_jwt = h_jwt H, d_secret = secret, d_logger = [(''component'', AStr ''api'')],
      d_chi = h_chi H, d_files = h_files H, d_landing = h_landing H, d_redis = R,
      d_health_consumer = \<lparr>c_stream = StreamName cfg, c_group = ConsumerGroup cfg,
        c_name = ConsumerName cfg @ ''-health''\<rparr>\<rparr>"

definition boot :: "('d, 'q) host \<Rightarrow> ('d, 'q) machine \<Rightarrow> 'q boot_result \<times> ('d, 'q) machine" where
  "boot H m =
     (case Load (h_env H) of
        Inl e \<Rightarrow> (Fatal (Wrap ''load config'' e), m)
      | Inr cfg \<Rightarrow>
     (case NewPool (h_pgx H) (DatabaseURL cfg) of
        Inl e \<Rightarrow> (Fatal (Wrap ''db pool'' e), m)
      | Inr _ \<Rightarrow>
     (case RunMigrations (h_fs H) (h_run_sql H) (MigrationsDir cfg) [(''component'', AStr ''api'')] (mc_mig m) of
        (Inl e, mig) \<Rightarrow> (Fatal (Wrap ''migrations'' e), m\<lparr>mc_mig := mig\<rparr>)
      | (Inr _, mig) \<Rightarrow>
     (case seed_and_backfill H cfg (mc_db m) of
        (Inl e, s) \<Rightarrow> (Fatal e, m\<lparr>mc_mig := mig, mc_db := s\<rparr>)
      | (Inr _, s) \<Rightarrow>
     (case NewClient (h_parse_url H) (RedisURL cfg) of
        Inl e \<Rightarrow> (Fatal (Wrap ''redis'' e), m\<lparr>mc_mig := mig, mc_db := s\<rparr>)
      | Inr opt \<Rightarrow>
     (case EnsureGroup (h_redis H opt) (StreamName cfg) (ConsumerGroup cfg) (mc_queue m) of
        (Inl e, q) \<Rightarrow> (Fatal (Wrap ''ensure group'' e), m\<lparr>mc_mig := mig, mc_db := s, mc_queue := q\<rparr>)
      | (Inr _, q) \<Rightarrow>
          (case NewVerifier (JWTSecret cfg) of
             Inl p \<Rightarrow> (Boot_panic p, m\<lparr>mc_mig := mig, mc_db := s, mc_queue := q\<rparr>)
           | Inr secret \<Rightarrow>
               (Serving (wire H cfg (h_redis H opt) secret), m\<lparr>mc_mig := mig, mc_db := s, mc_queue := q\<rparr>))))))))"

section \<open>The worker process\<close>

text \<open>
  \<open>run\<close> of \<open>cmd/worker/main.go\<close>: the worker it runs, and what it makes of the error the loop returns. The context
  that ends with a signal is a parameter.
\<close>

definition worker_boot :: "('d, 'q) host \<Rightarrow> 'q go_context \<Rightarrow> 'q \<Rightarrow> (go_error + 'q worker) \<times> 'q" where
  "worker_boot H ctx q =
     (case Load (h_env H) of
        Inl e \<Rightarrow> (Inl (Wrap ''load config'' e), q)
      | Inr cfg \<Rightarrow>
     (case NewPool (h_pgx H) (DatabaseURL cfg) of
        Inl e \<Rightarrow> (Inl (Wrap ''db pool'' e), q)
      | Inr _ \<Rightarrow>
     (case NewClient (h_parse_url H) (RedisURL cfg) of
        Inl e \<Rightarrow> (Inl (Wrap ''redis'' e), q)
      | Inr opt \<Rightarrow>
     (case EnsureGroup (h_redis H opt) (StreamName cfg) (ConsumerGroup cfg) q of
        (Inl e, q1) \<Rightarrow> (Inl (Wrap ''ensure group'' e), q1)
      | (Inr _, q1) \<Rightarrow>
          (Inr \<lparr>platform_of = h_platform H, redis_of = h_redis H opt, run_ctx = ctx,
             consumer_of = \<lparr>c_stream = StreamName cfg, c_group = ConsumerGroup cfg, c_name = ConsumerName cfg\<rparr>,
             prod_of = Some (StreamName cfg)\<rparr>, q1)))))"

definition worker_exit :: "go_error \<Rightarrow> go_error option" where
  "worker_exit e = (if unwraps_to e Canceled then None else Some e)"

section \<open>Serving and stopping\<close>

record http_server =
  srv_Addr :: string
  srv_ReadHeaderTimeout :: int
  srv_ReadTimeout :: int
  srv_WriteTimeout :: int
  srv_IdleTimeout :: int

definition server_of :: "config \<Rightarrow> http_server" where
  "server_of cfg = \<lparr>srv_Addr = '':'' @ append_int (Port cfg) 0, srv_ReadHeaderTimeout = seconds 5, srv_ReadTimeout = seconds 15,
     srv_WriteTimeout = seconds 15, srv_IdleTimeout = seconds 60\<rparr>"

text \<open>
  After the boot: the goroutine that listens runs or has returned, a signal has come or not, and its channel holds
  an error or nothing. \<open>ListenAndServe\<close> returns any error at any time, \<open>Shutdown\<close> its own. \<open>select\<close> takes either
  branch that is ready.
\<close>

definition ErrServerClosed :: go_error where "ErrServerClosed = Plain ''http: Server closed''"

datatype api_run = Up (listening: bool) (signalled: bool) (errCh: "go_error option") | Draining | Stopped "go_error option"

inductive api_step :: "api_run \<Rightarrow> api_run \<Rightarrow> bool" where
  sent_signal: "api_step (Up l sg ch) (Up l True ch)"
| listen_error: "api_step (Up True sg ch) (Up False sg (if unwraps_to e ErrServerClosed then ch else Some e))"
| take_signal: "api_step (Up l True ch) Draining"
| take_error: "api_step (Up l sg (Some e)) (Stopped (Some (Wrap ''listen'' e)))"
| shut_down: "api_step Draining (Stopped (map_option (Wrap ''shutdown'') r))"

inductive_cases api_stepE: "api_step x y"

text \<open>The exit status of the two programs.\<close>

definition api_main :: "go_error option \<Rightarrow> int" where
  "api_main r = (case r of Some e \<Rightarrow> 1 | None \<Rightarrow> 0)"

definition worker_main :: "go_error option \<Rightarrow> int" where
  "worker_main r = (case r of Some e \<Rightarrow> if unwraps_to e Canceled then 0 else 1 | None \<Rightarrow> 0)"

text \<open>
  The API process stops with status 0 only after a signal and a clean shutdown; the error it stops with otherwise
  is one of listening, never that of a closed server, or one of the shutdown.
\<close>

fun api_inv :: "api_run \<Rightarrow> bool" where
  "api_inv (Up l sg ch) = (\<forall>e. ch = Some e \<longrightarrow> \<not> l \<and> \<not> unwraps_to e ErrServerClosed)"
| "api_inv Draining = True"
| "api_inv (Stopped r) = (\<forall>e. r = Some e \<longrightarrow>
     (\<exists>e'. e = Wrap ''listen'' e' \<and> \<not> unwraps_to e' ErrServerClosed \<or> e = Wrap ''shutdown'' e'))"

lemma api_stops:
  assumes "api_step\<^sup>*\<^sup>* (Up True False None) x"
  shows "api_inv x"
  using assms by (induction rule: rtranclp_induct) (auto elim!: api_stepE split: if_splits)

end
