(* ===== verification/Schema_Invariant.thy ===== *)
theory Schema_Invariant imports Emotion_Tilt Overtrading Worker begin

text \<open>
  The invariant of the database: what the migrations declare (primary keys, CHECK constraints, the ranges of
  the columns) and what the code keeps beyond that (counters that are not negative, a tilt between 0 and 1
  that counts no more trades than there are). Every statement of the program keeps it, with or without
  faults; so do the calculators, the backfill and the dispatch of an event.
\<close>

section \<open>The invariant\<close>

definition counter :: "int \<Rightarrow> bool" where
  "counter n \<longleftrightarrow> 0 \<le> n \<and> n < 2 ^ 31"

definition um_ok :: "user_metrics_row \<Rightarrow> bool" where
  "um_ok r \<longleftrightarrow> - (2 ^ 31) \<le> plan_adherence_window r \<and> plan_adherence_window r < 2 ^ 31 \<and>
     counter (revenge_trades_count r) \<and> counter (overtrading_events_count r) \<and>
     (\<forall>x. plan_adherence_score r = Some x \<longrightarrow> \<bar>x\<bar> < 10)"

definition ue_ok :: "emotion_row \<Rightarrow> bool" where
  "ue_ok r \<longleftrightarrow> counter (wins r) \<and> counter (losses r)"

definition sm_ok :: "session_row \<Rightarrow> bool" where
  "sm_ok r \<longleftrightarrow> counter (total_trades r) \<and> counter (loss_following_trades r) \<and>
     loss_following_trades r \<le> total_trades r \<and> 0 \<le> tilt_index r \<and> tilt_index r \<le> 1"

definition ot_ok :: "overtrading_row \<Rightarrow> bool" where
  "ot_ok r \<longleftrightarrow> - (2 ^ 31) \<le> trade_count r \<and> trade_count r < 2 ^ 31"

definition table_ok :: "('r \<Rightarrow> 'k) \<Rightarrow> ('r \<Rightarrow> bool) \<Rightarrow> 'r list \<Rightarrow> bool" where
  "table_ok key p t \<longleftrightarrow> distinct (map key t) \<and> (\<forall>r \<in> set t. p r)"

definition schema_ok :: "db \<Rightarrow> bool" where
  "schema_ok s \<longleftrightarrow> trades_ok s \<and> table_ok um_user_id um_ok (user_metrics s) \<and>
     table_ok ue_key ue_ok (user_emotion_metrics s) \<and> table_ok sm_session_id sm_ok (session_metrics s) \<and>
     table_ok event_id ot_ok (overtrading_events s)"

lemma schema_ok_same: "same_tables s s' \<Longrightarrow> schema_ok s' = schema_ok s"
  by (simp add: schema_ok_def trades_ok_def same_tables_fields)

lemma trades_ok_cong: "trades s' = trades s \<Longrightarrow> trades_ok s' = trades_ok s"
  by (simp add: trades_ok_def)

lemma counter_0 [simp]: "counter 0"
  by (simp add: counter_def)

lemma to_int4_Inr: "to_int4 n = Inr v \<longleftrightarrow> v = n \<and> - (2 ^ 31) \<le> n \<and> n < 2 ^ 31"
  by (auto simp: to_int4_def)

section \<open>Tables\<close>

lemma tbl_upsert_all:
  "(\<forall>r \<in> set t. p r) \<Longrightarrow> p new \<Longrightarrow> (\<And>r. r \<in> set t \<Longrightarrow> key r = k \<Longrightarrow> p r \<Longrightarrow> p (upd r)) \<Longrightarrow>
     \<forall>r \<in> set (tbl_upsert key k new upd t). p r"
  by (induction t) auto

lemma table_upsert:
  assumes "table_ok key p t" and "keeps_key key k new upd" and "p new"
    and "\<And>r. r \<in> set t \<Longrightarrow> key r = k \<Longrightarrow> p r \<Longrightarrow> p (upd r)"
  shows "table_ok key p (tbl_upsert key k new upd t)"
proof -
  have "distinct (map key (tbl_upsert key k new upd t))"
    using assms(1) tbl_upsert_keys [OF assms(2), of t] by (auto simp: table_ok_def)
  with tbl_upsert_all [of t p new key k upd] assms show ?thesis by (simp add: table_ok_def)
qed

lemma tbl_upsert_cong:
  "(\<And>r. r \<in> set t \<Longrightarrow> f r = g r) \<Longrightarrow> tbl_upsert key k new f t = tbl_upsert key k new g t"
  by (induction t) auto

lemma table_upsert_each:
  assumes "table_ok key p t" and "\<And>n. n \<in> set ns \<Longrightarrow> p n"
    and "\<And>n r. n \<in> set ns \<Longrightarrow> p r \<Longrightarrow> key r = key n \<Longrightarrow> p (merge n r) \<and> key (merge n r) = key n"
  shows "table_ok key p (upsert_each key merge ns t)"
  using assms
proof (induction ns arbitrary: t)
  case (Cons n ns)
  have "keeps_key key (key n) n (\<lambda>r. if p r then merge n r else r)"
    using Cons.prems(3) by (auto simp: keeps_key_def)
  moreover have "tbl_upsert key (key n) n (\<lambda>r. if p r then merge n r else r) t = tbl_upsert key (key n) n (merge n) t"
    using Cons.prems(1) by (intro tbl_upsert_cong) (simp add: table_ok_def)
  moreover have "p (if p r then merge n r else r)" if "p r" "key r = key n" for r using Cons.prems(3) that by simp
  ultimately have "table_ok key p (tbl_upsert key (key n) n (merge n) t)"
    using table_upsert [OF Cons.prems(1), of "key n" n "\<lambda>r. if p r then merge n r else r"] Cons.prems(2) by simp
  then show ?case using Cons.IH Cons.prems(2,3) by simp
qed simp

lemma table_upsert_rows:
  assumes "table_ok key p t" and "upsert_rows key merge ns t = Inr t'" and "\<And>n. n \<in> set ns \<Longrightarrow> p n"
    and "\<And>n r. n \<in> set ns \<Longrightarrow> p r \<Longrightarrow> key r = key n \<Longrightarrow> p (merge n r) \<and> key (merge n r) = key n"
  shows "table_ok key p t'"
  using table_upsert_each [of key p t ns merge] assms by (auto simp: upsert_rows_def split: if_splits)

lemma table_map:
  "table_ok key p t \<Longrightarrow> (\<And>r. r \<in> set t \<Longrightarrow> p r \<Longrightarrow> p (f r) \<and> key (f r) = key r) \<Longrightarrow> table_ok key p (map f t)"
  by (auto simp: table_ok_def comp_def cong: map_cong)

lemma collect_ok_set:
  "collect_ok (map f xs) = Inr ys \<Longrightarrow> y \<in> set ys \<Longrightarrow> \<exists>x \<in> set xs. f x = Inr y"
  by (induction xs arbitrary: ys) (auto simp: bind_ok_Inr_iff)

section \<open>Statements\<close>

definition keeps_schema :: "(db \<Rightarrow> 'r \<times> db) \<Rightarrow> bool" where
  "keeps_schema f \<longleftrightarrow> (\<forall>s. schema_ok s \<longrightarrow> schema_ok (snd (f s)))"

definition stmt_keeps :: "(db \<Rightarrow> sql_error + db) \<Rightarrow> bool" where
  "stmt_keeps stmt \<longleftrightarrow> (\<forall>s s'. schema_ok s \<longrightarrow> stmt s = Inr s' \<longrightarrow> schema_ok s')"

lemma keeps_schemaD: "keeps_schema f \<Longrightarrow> schema_ok s \<Longrightarrow> f s = (r, s') \<Longrightarrow> schema_ok s'"
  by (auto simp: keeps_schema_def)

lemma db_exec_keeps [inv_intros]: "stmt_keeps stmt \<Longrightarrow> keeps_schema (db_exec stmt)"
  unfolding keeps_schema_def
proof (intro allI impI)
  fix s assume k: "stmt_keeps stmt" and ok: "schema_ok s"
  obtain r s' where x: "db_exec stmt s = (r, s')" by fastforce
  then have "schema_ok s'"
  proof (cases rule: db_exec_cases)
    case (skipped e)
    with ok show ?thesis by (simp add: schema_ok_same)
  next
    case (applied s1)
    with ok k show ?thesis unfolding stmt_keeps_def by (metis schema_ok_same)
  qed
  with x show "schema_ok (snd (db_exec stmt s))" by simp
qed

lemma sql_result_keeps [inv_intros]: "keeps_schema f \<Longrightarrow> keeps_schema (\<lambda>s. sql_result (f s))"
  by (auto simp: keeps_schema_def sql_result_def split: prod.splits sum.splits)

lemma sql_result_snd [simp]: "snd (sql_result rs) = snd rs"
  by (simp add: sql_result_def split: prod.split sum.split)

lemma wrap_err_keeps [inv_intros]: "keeps_schema f \<Longrightarrow> keeps_schema (\<lambda>s. wrap_err m (f s))"
  by (auto simp: keeps_schema_def wrap_err_def split: prod.splits sum.splits)

lemma after_keeps [inv_intros]: "keeps_schema f \<Longrightarrow> keeps_schema g \<Longrightarrow> keeps_schema (\<lambda>s. after (f s) g)"
  by (fastforce simp: keeps_schema_def after_def split: prod.splits sum.splits)

lemma read_same_keeps: "schema_ok s \<Longrightarrow> db_query_row (read_row sel) s = (r, s1) \<Longrightarrow> schema_ok s1"
  using db_read_same [of s sel] by (simp add: schema_ok_same)

lemma query_same_keeps: "schema_ok s \<Longrightarrow> db_query sel s = (r, s1) \<Longrightarrow> schema_ok s1"
  using db_query_same [of s sel] by (simp add: schema_ok_same)

section \<open>The metric writes\<close>

lemma schema_okD:
  assumes "schema_ok s"
  shows "trades_ok s" "table_ok um_user_id um_ok (user_metrics s)" "table_ok ue_key ue_ok (user_emotion_metrics s)"
    "table_ok sm_session_id sm_ok (session_metrics s)" "table_ok event_id ot_ok (overtrading_events s)"
  using assms by (simp_all add: schema_ok_def)

lemma schema_ok_metrics:
  "schema_ok s \<Longrightarrow> table_ok um_user_id um_ok t \<Longrightarrow> schema_ok (s\<lparr>user_metrics := t\<rparr>)"
  "schema_ok s \<Longrightarrow> table_ok ue_key ue_ok t' \<Longrightarrow> schema_ok (s\<lparr>user_emotion_metrics := t'\<rparr>)"
  "schema_ok s \<Longrightarrow> table_ok sm_session_id sm_ok t'' \<Longrightarrow> schema_ok (s\<lparr>session_metrics := t''\<rparr>)"
  "schema_ok s \<Longrightarrow> table_ok event_id ot_ok e \<Longrightarrow> schema_ok (s\<lparr>overtrading_events := e\<rparr>)"
  "schema_ok s \<Longrightarrow> trades_ok (s\<lparr>trades := rows\<rparr>) \<Longrightarrow> schema_ok (s\<lparr>trades := rows\<rparr>)"
  by (simp_all add: schema_ok_def trades_ok_def)

lemma schema_ok_draws [simp]: "schema_ok (s\<lparr>draws := n\<rparr>) = schema_ok s" "schema_ok (s\<lparr>clock := c\<rparr>) = schema_ok s"
    "schema_ok (s\<lparr>faults := fs\<rparr>) = schema_ok s"
  by (simp_all add: schema_ok_def trades_ok_def)

lemma um_upsert_keeps:
  assumes "schema_ok s" and "um_user_id new = u" and "um_ok new"
    and "\<And>r. um_ok r \<Longrightarrow> um_ok (upd r) \<and> um_user_id (upd r) = um_user_id r"
    and "\<And>r. um_user_id (upd r) = um_user_id r"
  shows "schema_ok (um_upsert_stmt u new upd s)"
proof -
  have k: "keeps_key um_user_id u new (\<lambda>r. (upd r)\<lparr>um_updated_at := clock s\<rparr>)"
    using assms(2,5) by (simp add: keeps_key_def)
  have "um_ok ((upd r)\<lparr>um_updated_at := clock s\<rparr>)" if "um_ok r" for r
    using assms(4) [OF that] by (simp add: um_ok_def)
  with table_upsert [OF schema_okD(2) [OF assms(1)] k assms(3)] schema_ok_metrics(1) [OF assms(1)] show ?thesis
    by (simp add: um_upsert_stmt_def)
qed

lemma default_um_ok [simp]: "um_ok (default_user_metrics u now)" "um_user_id (default_user_metrics u now) = u"
  by (simp_all add: um_ok_def default_user_metrics_def)

lemma um_ok_fields:
  "um_ok r \<Longrightarrow> counter n \<Longrightarrow> um_ok (r\<lparr>revenge_trades_count := n\<rparr>)"
  "um_ok r \<Longrightarrow> counter n \<Longrightarrow> um_ok (r\<lparr>overtrading_events_count := n\<rparr>)"
  "um_ok r \<Longrightarrow> um_ok (r\<lparr>um_updated_at := c\<rparr>)"
  "um_ok r \<Longrightarrow> - (2 ^ 31) \<le> w \<Longrightarrow> w < 2 ^ 31 \<Longrightarrow> (\<And>x. sc = Some x \<Longrightarrow> \<bar>x\<bar> < 10) \<Longrightarrow>
     um_ok (r\<lparr>plan_adherence_score := sc, plan_adherence_window := w\<rparr>)"
  by (simp_all add: um_ok_def)

lemma to_numeric_54: "to_numeric 5 4 x = Inr y \<Longrightarrow> \<bar>y\<bar> < 10"
  by (auto dest!: to_numeric_Inr)

lemma score_column_range: "score_column P f = Inr x \<Longrightarrow> \<bar>x\<bar> < 10"
  by (auto simp: score_column_def dest: to_numeric_54 split: float64.splits)

lemma SetPlanAdherenceScore_keeps [inv_intros]: "keeps_schema (SetPlanAdherenceScore P u score w)"
  unfolding SetPlanAdherenceScore_def [abs_def]
proof (intro inv_intros)
  show "stmt_keeps (\<lambda>s. bind_ok (score_column P score) (\<lambda>sc. bind_ok (to_int4 w) (\<lambda>w.
      Inr (um_upsert_stmt u ((default_user_metrics u (clock s))\<lparr>plan_adherence_score := Some sc, plan_adherence_window := w\<rparr>)
        (\<lambda>r. r\<lparr>plan_adherence_score := Some sc, plan_adherence_window := w\<rparr>) s))))"
    unfolding stmt_keeps_def
    by (auto simp: bind_ok_Inr_iff to_int4_Inr dest: score_column_range intro!: um_upsert_keeps um_ok_fields(4))
qed

text \<open>The next value of a counter: the old one plus one, or one.\<close>

lemma next_counter:
  assumes "table_ok key p t" and "\<And>r. p r \<Longrightarrow> counter (f r)"
    and "(case tbl_lookup key k t of None \<Rightarrow> Inr 1 | Some r \<Rightarrow> to_int4 (f r + 1)) = Inr c"
  shows "counter c"
proof (cases "tbl_lookup key k t")
  case (Some r)
  then have "r \<in> set t" using tbl_lookup_key by fastforce
  with assms Some show ?thesis by (auto simp: table_ok_def counter_def to_int4_Inr)
qed (use assms(3) in \<open>simp add: counter_def\<close>)

lemma um_ok_counters: "um_ok r \<Longrightarrow> counter (revenge_trades_count r)" "um_ok r \<Longrightarrow> counter (overtrading_events_count r)"
  by (simp_all add: um_ok_def)

lemma IncrementRevengeCount_keeps [inv_intros]: "keeps_schema (IncrementRevengeCount u)"
  unfolding IncrementRevengeCount_def [abs_def]
  by (intro inv_intros)
    (auto simp: stmt_keeps_def bind_ok_Inr_iff intro!: um_upsert_keeps um_ok_fields
      intro: next_counter [where f = revenge_trades_count, OF schema_okD(2) um_ok_counters(1)])

lemma IncrementOvertradingCount_keeps [inv_intros]: "keeps_schema (IncrementOvertradingCount u)"
  unfolding IncrementOvertradingCount_def [abs_def]
  by (intro inv_intros)
    (auto simp: stmt_keeps_def bind_ok_Inr_iff intro!: um_upsert_keeps um_ok_fields
      intro: next_counter [where f = overtrading_events_count, OF schema_okD(2) um_ok_counters(2)])

lemma insert_event_stmt_keeps: "stmt_keeps (insert_event_stmt eid u ws we n)"
  unfolding stmt_keeps_def
proof (intro allI impI)
  fix s s' assume ok: "schema_ok s" and st: "insert_event_stmt eid u ws we n s = Inr s'"
  have "table_ok event_id ot_ok (overtrading_events s')"
    using schema_okD(5) [OF ok] st
    by (auto simp: insert_event_stmt_def bind_ok_Inr_iff to_int4_Inr table_ok_def ot_ok_def split: if_splits)
  moreover have "\<exists>e. s' = s\<lparr>overtrading_events := e\<rparr>"
    using st by (auto simp: insert_event_stmt_def bind_ok_Inr_iff split: if_splits)
  ultimately show "schema_ok s'" using schema_ok_metrics(4) [OF ok] by auto
qed

lemma AddOvertradingEvent_keeps [inv_intros]: "keeps_schema (AddOvertradingEvent P u ws we n)"
  using sql_result_keeps [OF db_exec_keeps [OF insert_event_stmt_keeps]]
  unfolding keeps_schema_def AddOvertradingEvent_def Let_def by (metis schema_ok_draws(1))

lemma UpsertEmotionStat_keeps [inv_intros]: "keeps_schema (UpsertEmotionStat u emo won)"
  unfolding UpsertEmotionStat_def [abs_def]
proof (intro inv_intros, unfold stmt_keeps_def, intro allI impI)
  fix s s'
  assume ok: "schema_ok s"
    and st: "bind_ok (emotion_of emo) (\<lambda>em.
       bind_ok (case tbl_lookup ue_key (u, em) (user_emotion_metrics s) of
                  None \<Rightarrow> Inr 1 | Some r \<Rightarrow> to_int4 ((if won then wins r else losses r) + 1)) (\<lambda>c.
         Inr (s\<lparr>user_emotion_metrics := tbl_upsert ue_key (u, em)
                \<lparr>ue_user_id = u, ue_emotion = em, wins = (if won then c else 0),
                 losses = (if won then 0 else c), ue_updated_at = clock s\<rparr>
                (\<lambda>r. (if won then r\<lparr>wins := c\<rparr> else r\<lparr>losses := c\<rparr>)\<lparr>ue_updated_at := clock s\<rparr>)
                (user_emotion_metrics s)\<rparr>))) = Inr s'"
  then obtain em c where c: "(case tbl_lookup ue_key (u, em) (user_emotion_metrics s) of
        None \<Rightarrow> Inr 1 | Some r \<Rightarrow> to_int4 ((if won then wins r else losses r) + 1)) = Inr c"
      and s': "s' = s\<lparr>user_emotion_metrics := tbl_upsert ue_key (u, em)
                \<lparr>ue_user_id = u, ue_emotion = em, wins = (if won then c else 0),
                 losses = (if won then 0 else c), ue_updated_at = clock s\<rparr>
                (\<lambda>r. (if won then r\<lparr>wins := c\<rparr> else r\<lparr>losses := c\<rparr>)\<lparr>ue_updated_at := clock s\<rparr>)
                (user_emotion_metrics s)\<rparr>"
    by (auto simp: bind_ok_Inr_iff)
  have "counter c"
    using next_counter [OF schema_okD(3) [OF ok], of "\<lambda>r. if won then wins r else losses r" "(u, em)" c] c
    by (auto simp: ue_ok_def)
  then show "schema_ok s'"
    unfolding s' by (intro schema_ok_metrics(2) [OF ok] table_upsert [OF schema_okD(3) [OF ok]])
      (auto simp: keeps_key_def ue_ok_def)
qed

section \<open>Session tilt\<close>

lemma tilt_group_Inr:
  assumes "tilt_group sid u grp now = Inr row"
  shows "sm_ok row"
proof -
  let ?l = "count_rows (\<lambda>(_, prev). prev = Some Loss) grp"
  let ?n = "int (length grp)"
  from assms obtain tilt where t: "to_numeric 5 4 (if ?n = 0 then 0 else of_int ?l / of_int ?n) = Inr tilt"
      "?n < 2 ^ 31" "row = \<lparr>sm_session_id = sid, sm_user_id = u, total_trades = ?n, loss_following_trades = ?l,
        tilt_index = tilt, last_outcome = None, last_exit_at = None, sm_updated_at = now\<rparr>"
    by (auto simp: tilt_group_def Let_def bind_ok_Inr_iff to_int4_Inr)
  have l: "0 \<le> ?l" "?l \<le> ?n" by (simp_all add: count_rows_le_length)
  have "0 \<le> tilt \<and> tilt \<le> 1"
  proof (cases "?n = 0")
    case True
    with t(1) show ?thesis by (auto dest!: to_numeric_Inr)
  next
    case False
    with to_numeric_Inr [OF t(1)] ratio_round [OF l] show ?thesis by simp
  qed
  with t l show ?thesis by (simp add: sm_ok_def counter_def)
qed

lemma store_tilts_keeps:
  assumes "schema_ok s" and "\<And>g row. g \<in> set gs \<Longrightarrow> g = Inr row \<Longrightarrow> sm_ok row" and "store_tilts gs s = Inr s'"
  shows "schema_ok s'"
proof -
  from assms(3) obtain news t where n: "collect_ok gs = Inr news" "s' = s\<lparr>session_metrics := t\<rparr>"
      "upsert_rows sm_session_id (tilt_merge (clock s)) news (session_metrics s) = Inr t"
    by (auto simp: store_tilts_def bind_ok_Inr_iff)
  have "sm_ok row" if "row \<in> set news" for row
    using collect_ok_set [of "\<lambda>x. x" gs news row] n(1) that assms(2) by auto
  then have "table_ok sm_session_id sm_ok t"
    using table_upsert_rows [OF schema_okD(4) [OF assms(1)] n(3)] by (simp add: tilt_merge_def sm_ok_def)
  with schema_ok_metrics(3) [OF assms(1)] n(2) show ?thesis by simp
qed

lemma tilt_groups_sm_ok: "g \<in> set (tilt_groups sid s) \<Longrightarrow> g = Inr row \<Longrightarrow> sm_ok row"
  by (auto simp: tilt_groups_def Let_def dest!: tilt_group_Inr [OF sym])

lemma UpsertSessionTilt_keeps [inv_intros]: "keeps_schema (UpsertSessionTilt sid)"
  unfolding UpsertSessionTilt_def [abs_def]
  by (intro inv_intros) (auto simp: stmt_keeps_def tilt_stmt_def intro: store_tilts_keeps tilt_groups_sm_ok)

section \<open>The calculators\<close>

lemma PlanAdherence_keeps [inv_intros]: "keeps_schema (PlanAdherence_calc P u)"
  using SetPlanAdherenceScore_keeps
  by (auto simp: keeps_schema_def PlanAdherence_calc_def Let_def dest: query_same_keeps split: prod.split sum.split)

lemma SetRevengeFlag_keeps [inv_intros]: "keeps_schema (SetRevengeFlag k b)"
  unfolding keeps_schema_def
proof (intro allI impI)
  fix s assume ok: "schema_ok s"
  have t: "trades_ok (snd (SetRevengeFlag k b s))" using SetRevengeFlag_trades_ok schema_okD(1) [OF ok] .
  have "user_metrics (snd (SetRevengeFlag k b s)) = user_metrics s \<and>
      user_emotion_metrics (snd (SetRevengeFlag k b s)) = user_emotion_metrics s \<and>
      session_metrics (snd (SetRevengeFlag k b s)) = session_metrics s \<and>
      overtrading_events (snd (SetRevengeFlag k b s)) = overtrading_events s"
    using set_flag_effect [of s k b] by (auto simp: same_tables_iff)
  with t ok show "schema_ok (snd (SetRevengeFlag k b s))" by (simp add: schema_ok_def)
qed

lemma RevengeFlag_keeps [inv_intros]:
  assumes "\<And>k b. keeps_schema (setFlag k b)"
  shows "keeps_schema (RevengeFlag_calc setFlag tid u)"
  unfolding keeps_schema_def
proof (intro allI impI)
  fix s assume ok: "schema_ok s"
  obtain r1 s1 where q1: "db_query_row (read_row (\<lambda>s. tbl_lookup trade_id tid (trades s))) s = (r1, s1)" by fastforce
  have ok1: "schema_ok s1" using read_same_keeps [OF ok q1] .
  have q2: "schema_ok s2" if "db_query_row (read_row (last_loss u t)) s1 = (r2, s2)" for t r2 s2
    using read_same_keeps [OF ok1 that] .
  have q3: "schema_ok s3" if "setFlag tid True s2 = (r3, s3)" "schema_ok s2" for r3 s2 s3
    using keeps_schemaD [OF assms that(2,1)] .
  have q4: "schema_ok (snd (IncrementRevengeCount u s3))" if "schema_ok s3" for s3
    using IncrementRevengeCount_keeps that by (simp add: keeps_schema_def)
  show "schema_ok (snd (RevengeFlag_calc setFlag tid u s))"
    unfolding RevengeFlag_calc_def q1 Let_def using ok1
    by (auto split: sum.split prod.split option.split dest: q2 intro!: q4 dest!: q3)
qed

lemma Overtrading_keeps:
  assumes "schema_ok s" and "Overtrading_calc P pub u t s q = (r, s', q')"
  shows "schema_ok s'"
proof -
  obtain r1 s1 where q1: "db_query_row (read_row (\<lambda>s. Some (opens_in u (t - minutes 30) t s))) s = (r1, s1)" by fastforce
  obtain r2 s2 where q2: "db_query_row (read_row (\<lambda>s. Some (events_in u (t - minutes 30) t s))) s1 = (r2, s2)" by fastforce
  obtain r4 s4 where q4: "AddOvertradingEvent P u (t - minutes 30) t (projr r1) s2 = (r4, s4)" by fastforce
  obtain r5 s5 where q5: "IncrementOvertradingCount u s4 = (r5, s5)" by fastforce
  have ok1: "schema_ok s1" using read_same_keeps [OF assms(1) q1] .
  have ok2: "schema_ok s2" using read_same_keeps [OF ok1 q2] .
  have ok4: "schema_ok s4" using keeps_schemaD [OF AddOvertradingEvent_keeps ok2 q4] .
  have ok5: "schema_ok s5" using keeps_schemaD [OF IncrementOvertradingCount_keeps ok4 q5] .
  have "s' \<in> {s1, s2, s4, s5}"
    using assms(2) q1 q2 q4 q5
    by (cases r1; cases r2; cases r4; cases r5) (auto simp: Overtrading_calc_def Let_def split: if_splits option.splits)
  with ok1 ok2 ok4 ok5 show ?thesis by auto
qed

lemma WinRate_keeps [inv_intros]: "keeps_schema (WinRateByEmotion_calc tid u)"
  using UpsertEmotionStat_keeps
  by (auto simp: keeps_schema_def WinRateByEmotion_calc_def dest: read_same_keeps split: prod.split sum.split option.split)

lemma SessionTilt_keeps [inv_intros]: "keeps_schema (SessionTilt_calc sid)"
  using UpsertSessionTilt_keeps by (simp add: SessionTilt_calc_def [abs_def])

lemma process_keeps:
  assumes "schema_ok s" and "process W m (s, q) = (x, s', q')"
  shows "schema_ok s'"
proof -
  have opened: "schema_ok s'" if o: "process_opened W tid u t (s, q) = (n, s', q')" for tid u t n s' q'
  proof -
    obtain r1 s1 where r: "RevengeFlag_calc SetRevengeFlag tid u s = (r1, s1)" by fastforce
    have "schema_ok s1" using keeps_schemaD [OF RevengeFlag_keeps [OF SetRevengeFlag_keeps] assms(1) r] .
    then show ?thesis using o r Overtrading_keeps by (fastforce simp: process_opened_def split: prod.splits)
  qed
  have closed: "schema_ok s'" if c: "process_closed W tid u sid (s, q) = (n, s', q')" for tid u sid n s' q'
  proof -
    obtain r1 s1 where r1: "PlanAdherence_calc (platform_of W) u s = (r1, s1)" by fastforce
    obtain r2 s2 where r2: "WinRateByEmotion_calc tid u s1 = (r2, s2)" by fastforce
    obtain r3 s3 where r3: "SessionTilt_calc sid s2 = (r3, s3)" by fastforce
    have "schema_ok s1" using keeps_schemaD [OF PlanAdherence_keeps assms(1) r1] .
    then have "schema_ok s2" using keeps_schemaD [OF WinRate_keeps _ r2] by blast
    then have "schema_ok s3" using keeps_schemaD [OF SessionTilt_keeps _ r3] by blast
    with c r1 r2 r3 show ?thesis by (simp add: process_closed_def)
  qed
  show ?thesis
    using assms opened closed by (auto simp: process_def Let_def split: if_splits option.splits prod.splits)
qed

section \<open>The backfill\<close>

lemma trades_map_keeps:
  assumes "schema_ok s"
    and "\<And>r. trade_id (f r) = trade_id r \<and> trade_checks (f r) = trade_checks r \<and> entry_at (f r) = entry_at r \<and> exit_at (f r) = exit_at r"
  shows "schema_ok (s\<lparr>trades := map f (trades s)\<rparr>)"
proof -
  have "map trade_id (map f (trades s)) = map trade_id (trades s)" using assms(2) by simp
  then have "distinct (map trade_id (map f (trades s)))"
    using schema_okD(1) [OF assms(1)] by (simp only: trades_ok_def)
  then have "trades_ok (s\<lparr>trades := map f (trades s)\<rparr>)"
    using schema_okD(1) [OF assms(1)] assms(2) by (simp add: trades_ok_def del: map_map)
  with schema_ok_metrics(5) [OF assms(1)] show ?thesis by simp
qed

lemma flag_stmts_keep [inv_intros]: "stmt_keeps reset_flags_stmt" "stmt_keeps flag_stmt"
  by (auto simp: stmt_keeps_def reset_flags_stmt_def flag_stmt_def touch_def intro!: trades_map_keeps)

text \<open>A statement that upserts one computed row per key.\<close>

lemma um_rows_keep:
  assumes "schema_ok s" and "collect_ok (map f us) = Inr news"
    and "upsert_rows um_user_id merge news (user_metrics s) = Inr t"
    and "\<And>u n. f u = Inr n \<Longrightarrow> um_ok n" and "\<And>n r. um_ok n \<Longrightarrow> um_ok r \<Longrightarrow> um_ok (merge n r)"
    and "\<And>n r. um_user_id (merge n r) = um_user_id r"
  shows "schema_ok (s\<lparr>user_metrics := t\<rparr>)"
proof -
  have ok: "um_ok n" if "n \<in> set news" for n using collect_ok_set [OF assms(2) that] assms(4) by blast
  then show ?thesis
    using schema_ok_metrics(1) [OF assms(1)] table_upsert_rows [OF schema_okD(2) [OF assms(1)] assms(3)] assms(5,6) by simp
qed

lemma count_rows_counter: "to_int4 (count_rows p rows) = Inr n \<Longrightarrow> counter n"
  by (simp add: to_int4_Inr counter_def)

lemma count_flags_stmt_keeps [inv_intros]: "stmt_keeps count_flags_stmt"
  by (auto simp: stmt_keeps_def count_flags_stmt_def bind_ok_Inr_iff um_ok_fields(3) um_ok_counters
      dest!: count_rows_counter intro!: um_rows_keep um_ok_fields(1,3))

lemma plan_row_ok: "plan_row u vs now = Inr n \<Longrightarrow> um_ok n"
  by (auto simp: plan_row_def bind_ok_Inr_iff to_int4_Inr dest: to_numeric_54 intro!: um_ok_fields(4))

lemma plan_stmt_keeps [inv_intros]: "stmt_keeps plan_stmt"
proof -
  have m: "um_ok (r\<lparr>plan_adherence_score := plan_adherence_score n, plan_adherence_window := plan_adherence_window n,
      um_updated_at := c\<rparr>)" if "um_ok n" "um_ok r" for n r c
    using that by (simp add: um_ok_def)
  show ?thesis
    by (auto simp: stmt_keeps_def plan_stmt_def bind_ok_Inr_iff dest: plan_row_ok intro!: um_rows_keep m)
qed

lemma emotion_group_Inr: "emotion_group rows k now = Inr n \<Longrightarrow> ue_ok n"
  by (auto simp: emotion_group_def Let_def bind_ok_Inr_iff ue_ok_def dest: count_rows_counter)

lemma emotion_stmt_keeps [inv_intros]: "stmt_keeps emotion_stmt"
  unfolding stmt_keeps_def
proof (intro allI impI)
  fix s s' assume ok: "schema_ok s" and st: "emotion_stmt s = Inr s'"
  let ?rows = "filter decided (trades s)"
  from st obtain news t where n:
      "collect_ok (map (\<lambda>k. emotion_group ?rows k (clock s)) (remdups (map (\<lambda>r. (user_id r, the (emotional_state r))) ?rows))) = Inr news"
      "upsert_rows ue_key (\<lambda>new old. old\<lparr>wins := wins new, losses := losses new, ue_updated_at := clock s\<rparr>)
         news (user_emotion_metrics s) = Inr t" "s' = s\<lparr>user_emotion_metrics := t\<rparr>"
    by (auto simp: emotion_stmt_def Let_def bind_ok_Inr_iff)
  have "ue_ok x" if "x \<in> set news" for x using collect_ok_set [OF n(1) that] emotion_group_Inr by blast
  then have "table_ok ue_key ue_ok t"
    using table_upsert_rows [OF schema_okD(3) [OF ok] n(2)] by (simp add: ue_ok_def)
  with schema_ok_metrics(2) [OF ok] n(3) show "schema_ok s'" by simp
qed

lemma all_tilts_stmt_keeps [inv_intros]: "stmt_keeps all_tilts_stmt"
  unfolding stmt_keeps_def all_tilts_stmt_def
  by (intro allI impI) (erule store_tilts_keeps, auto dest: tilt_groups_sm_ok)

lemma counter_stmt_keeps [inv_intros]: "0 \<le> c \<Longrightarrow> stmt_keeps (counter_stmt u c)"
  by (auto simp: stmt_keeps_def counter_stmt_def bind_ok_Inr_iff to_int4_Inr counter_def
      intro!: um_upsert_keeps um_ok_fields(2))

lemma event_stmts_keep [inv_intros]: "stmt_keeps clear_events_stmt" "stmt_keeps reset_counters_stmt"
proof -
  show "stmt_keeps clear_events_stmt"
    by (auto simp: stmt_keeps_def clear_events_stmt_def table_ok_def intro!: schema_ok_metrics(4))
  show "stmt_keeps reset_counters_stmt"
    by (auto simp: stmt_keeps_def reset_counters_stmt_def intro!: schema_ok_metrics(1) table_map um_ok_fields(2)
        dest: schema_okD(2))
qed

lemma insert_events_keep [inv_intros]: "keeps_schema (insert_events P es)"
  unfolding keeps_schema_def
proof (intro allI impI)
  fix s assume "schema_ok s"
  then show "schema_ok (snd (insert_events P es s))"
  proof (induction P es s rule: insert_events.induct)
    case (2 P u ws we n es s)
    obtain r s1 where r: "AddOvertradingEvent P u ws we n s = (r, s1)" by fastforce
    have "schema_ok s1" using keeps_schemaD [OF AddOvertradingEvent_keeps "2.prems" r] .
    with "2.IH" [OF r [symmetric]] r show ?case by (cases r) auto
  qed simp
qed

lemma upsert_counters_keep [inv_intros]: "(\<And>u c. (u, c) \<in> set cs \<Longrightarrow> 0 \<le> c) \<Longrightarrow> keeps_schema (upsert_counters cs)"
proof (induction cs)
  case Nil
  then show ?case by (simp add: keeps_schema_def)
next
  case (Cons x cs)
  obtain u c where x: "x = (u, c)" by (cases x)
  have "upsert_counters (x # cs) = (\<lambda>s. after (wrap_err ''upsert counter'' (sql_result (db_exec (counter_stmt u c) s)))
      (upsert_counters cs))"
    by (rule ext) (simp add: x)
  then show ?case using Cons x by (auto intro!: inv_intros)
qed

lemma in_tx_keeps [inv_intros]:
  assumes "keeps_schema body"
  shows "keeps_schema (in_tx body)"
  unfolding keeps_schema_def
proof (intro allI impI)
  fix s assume ok: "schema_ok s"
  obtain f s0 where f: "next_fault s = (f, s0)" by fastforce
  have ok0: "schema_ok s0" using same_tables_next [of s] f ok by (simp add: schema_ok_same)
  obtain r s1 where b: "body s0 = (r, s1)" by fastforce
  have ok1: "schema_ok s1" using keeps_schemaD [OF assms ok0 b] .
  obtain f' s2 where f': "next_fault s1 = (f', s2)" by fastforce
  have ok2: "schema_ok s2" using same_tables_next [of s1] f' ok1 by (simp add: schema_ok_same)
  have "schema_ok (rollback s0 t)" for t using ok0 by (simp add: rollback_def)
  with f b f' ok0 ok2 show "schema_ok (snd (in_tx body s))"
    by (auto simp: in_tx_def split: sum.split fault.split)
qed

lemma count_of_key: "u \<in> set (map fst (event_counts evs)) \<Longrightarrow> 0 \<le> the (map_of (event_counts evs) u)"
  by (auto simp: map_of_counts) (auto simp: event_counts_def)

lemma backfillOvertrading_keeps [inv_intros]:
  assumes "permutes_lists iter"
  shows "keeps_schema (backfillOvertrading P iter)"
  unfolding keeps_schema_def
proof (intro allI impI)
  fix s assume ok: "schema_ok s"
  obtain r s1 where q: "db_query entries s = (r, s1)" by fastforce
  have ok1: "schema_ok s1" using query_same_keeps [OF ok q] .
  let ?ev = "\<lambda>es. detected (iter 0) es"
  let ?cs = "\<lambda>es. map (\<lambda>u. (u, the (map_of (event_counts (?ev es)) u))) (iter 1 (map fst (event_counts (?ev es))))"
  let ?body = "\<lambda>es s. after (wrap_err ''clear events'' (sql_result (db_exec clear_events_stmt s))) (\<lambda>s2.
                after (insert_events P (?ev es) s2) (\<lambda>s3.
                after (wrap_err ''reset counters'' (sql_result (db_exec reset_counters_stmt s3))) (\<lambda>s4.
                upsert_counters (?cs es) s4)))"
  have cs: "0 \<le> c" if "(u, c) \<in> set (?cs es)" for es u c
  proof -
    from that have "u \<in> set (iter 1 (map fst (event_counts (?ev es))))" and c: "c = the (map_of (event_counts (?ev es)) u)"
      by auto
    then have "u \<in> set (map fst (event_counts (?ev es)))" using permutes_lists_set(1) [OF assms] by simp
    then show ?thesis unfolding c by (rule count_of_key)
  qed
  have "keeps_schema (?body es)" for es by (intro inv_intros) (use cs in blast)
  then have "keeps_schema (in_tx (?body es))" for es by (rule in_tx_keeps)
  then have "schema_ok (snd (in_tx (?body es) s1))" for es using ok1 by (simp add: keeps_schema_def)
  with q ok1 show "schema_ok (snd (backfillOvertrading P iter s))"
    unfolding backfillOvertrading_def Let_def by (auto split: sum.split option.split)
qed

lemma BackfillFromTrades_keeps [inv_intros]:
  assumes "permutes_lists iter"
  shows "keeps_schema (BackfillFromTrades P iter)"
  unfolding BackfillFromTrades_def [abs_def] backfillRevengeFlag_def backfillPlanAdherence_def
    backfillWinRateByEmotion_def backfillSessionTilt_def
  by (intro inv_intros assms)

lemma HasSnapshots_same: "HasSnapshots s = (r, s') \<Longrightarrow> same_tables s s'"
  using db_read_same [of s "\<lambda>s. Some (length (user_metrics s))"]
  by (auto simp: HasSnapshots_def split: prod.splits sum.splits)

section \<open>The trade store\<close>

lemma Insert_keeps [inv_intros]: "keeps_schema (Insert P inp)"
  unfolding keeps_schema_def
proof (intro allI impI)
  fix s assume ok: "schema_ok s"
  have t: "trades_ok (snd (Insert P inp s))" using Insert_trades_ok schema_okD(1) [OF ok] .
  have "user_metrics (snd (Insert P inp s)) = user_metrics s \<and>
      user_emotion_metrics (snd (Insert P inp s)) = user_emotion_metrics s \<and>
      session_metrics (snd (Insert P inp s)) = session_metrics s \<and>
      overtrading_events (snd (Insert P inp s)) = overtrading_events s"
    by (cases rule: Insert_effect [of s P inp]) (simp_all add: same_tables_iff)
  with t ok show "schema_ok (snd (Insert P inp s))" by (simp add: schema_ok_def)
qed

section \<open>The worker\<close>

lemma handle_keeps: "schema_ok (fst sq) \<Longrightarrow> schema_ok (fst (handle W m sq))"
  by (cases sq) (auto simp: handle_def handle_with_def dest: process_keeps split: prod.splits if_splits)

lemma handle_all_keeps: "schema_ok (fst sq) \<Longrightarrow> schema_ok (fst (handle_all (handle W) ms sq))"
  by (rule handle_all_inv [where I = "\<lambda>sq. schema_ok (fst sq)"]) (rule handle_keeps)

lemma handle_all_result: "handle_all (handle W) ms (s, q) = (s', q') \<Longrightarrow> schema_ok s \<Longrightarrow> schema_ok s'"
  using handle_all_keeps [of "(s, q)" W ms] by simp

lemma recover_keeps: "schema_ok (fst sq) \<Longrightarrow> schema_ok (fst (recover_with (handle W) R c sq))"
  using handle_all_keeps by (cases sq) (auto simp: recover_with_def split: prod.split sum.split)

lemma turn_keeps: "schema_ok (fst sq) \<Longrightarrow> state_sat (\<lambda>sq. schema_ok (fst sq)) (turn (handle W) W sq)"
  by (cases sq) (auto simp: turn_def poll_with_def split: prod.splits sum.splits option.splits if_splits
      dest: handle_all_result)

end
