(* ===== verification/System.thy ===== *)
theory System imports Boot Schema_Invariant begin

text \<open>
  The whole system: the worker's loop, and around it what the other processes and the world do to the
  database and the stream: requests to the API, its restarts, publications, time, and a connection that
  fails as it likes.
\<close>

section \<open>The API keeps the schema\<close>

definition web_keeps :: "handler \<Rightarrow> bool" where
  "web_keeps h \<longleftrightarrow> (\<forall>r w. schema_ok (web_db w) \<longrightarrow> schema_ok (web_db (snd (h r w))))"

lemma same_keeps: "same_tables (web_db w) (web_db w') \<Longrightarrow> schema_ok (web_db w) \<Longrightarrow> schema_ok (web_db w')"
  by (simp add: schema_ok_same)

lemma create_keeps: "web_keeps (create P hp)"
  unfolding web_keeps_def
proof (intro allI impI)
  fix r and w :: web assume ok: "schema_ok (web_db w)"
  have "schema_ok s" if "Insert P inp (web_db w) = (x, s)" for inp x s
    using keeps_schemaD [OF Insert_keeps ok that] .
  with ok show "schema_ok (web_db (snd (create P hp r w)))"
    by (auto simp: create_def split: sum.split option.split prod.split)
qed

lemma get_keeps: "web_keeps (get P)"
  unfolding web_keeps_def
proof (intro allI impI)
  fix r and w :: web assume ok: "schema_ok (web_db w)"
  have "schema_ok s" if "Get P i (web_db w) = (x, s)" for i x s
    using same_tables_Get [of "web_db w" P i] ok that by (simp add: schema_ok_same)
  with ok show "schema_ok (web_db (snd (get P r w)))"
    by (auto simp: get_def Let_def split: sum.split option.split prod.split)
qed

lemma LoadSnapshot_same: "LoadSnapshot P u s = (x, s') \<Longrightarrow> same_tables s s'"
proof -
  obtain r1 s1 where 1: "db_query_row (read_row (\<lambda>s. tbl_lookup um_user_id u (user_metrics s))) s = (r1, s1)" by fastforce
  obtain r2 s2 where 2: "db_query (\<lambda>s. filter (\<lambda>r. ue_user_id r = u) (user_emotion_metrics s)) s1 = (r2, s2)" by fastforce
  obtain r3 s3 where 3: "db_query_row (read_row (\<lambda>s. Some (avg_tilt u s))) s2 = (r3, s3)" by fastforce
  have a: "same_tables s s1" using db_read_same [of s "\<lambda>s. tbl_lookup um_user_id u (user_metrics s)"] 1 by simp
  have b: "same_tables s s2" using same_tables_trans [OF a] db_query_same [of s1] 2 by (metis snd_conv)
  have c: "same_tables s s3" using same_tables_trans [OF b] db_read_same [of s2] 3 by (metis snd_conv)
  assume "LoadSnapshot P u s = (x, s')"
  then have "s' \<in> {s1, s2, s3}"
    using 1 2 3 by (cases r1; cases r2; cases r3) (auto simp: LoadSnapshot_def Let_def split: if_splits prod.splits)
  with a b c show ?thesis by auto
qed

lemma LoadBuckets_same: "LoadBuckets P u a b g s = (x, s') \<Longrightarrow> same_tables s s'"
proof -
  assume l: "LoadBuckets P u a b g s = (x, s')"
  have q: "same_tables s s1" if "db_query sel s = (r, s1)" for sel :: "db \<Rightarrow> bucket list" and r s1
    using db_query_same [of s sel] that by simp
  show ?thesis using l by (auto simp: LoadBuckets_def split: sum.splits prod.splits dest: q)
qed

lemma getMetrics_keeps: "web_keeps (getMetrics P)"
  unfolding web_keeps_def
proof (intro allI impI)
  fix r and w :: web assume ok: "schema_ok (web_db w)"
  have 1: "schema_ok s1" if "LoadSnapshot P u (web_db w) = (x, s1)" for u x s1
    using LoadSnapshot_same [OF that] ok by (simp add: schema_ok_same)
  have 2: "schema_ok s2" if "LoadSnapshot P u (web_db w) = (x, s1)" "LoadBuckets P u a b g s1 = (y, s2)" for u x s1 a b g y s2
    using LoadBuckets_same [OF that(2)] 1 [OF that(1)] by (simp add: schema_ok_same)
  from ok show "schema_ok (web_db (snd (getMetrics P r w)))"
    by (auto simp: getMetrics_def split: sum.split option.split prod.split dest: 1 2)
qed

lemma chain_keeps:
  "web_keeps next \<Longrightarrow> web_keeps (Authenticator L P secret next)"
  "web_keeps next \<Longrightarrow> web_keeps (RequireUserMatch P f next)"
  by (auto simp: web_keeps_def Authenticator_def RequireUserMatch_def Let_def split: sum.split option.split)

lemma respond_keeps: "web_keeps (\<lambda>r. respond (f r))"
  by (simp add: web_keeps_def)

lemma check_keeps: "schema_ok (web_db w) \<Longrightarrow> check cons r (w, q) = (res, w', q') \<Longrightarrow> schema_ok (web_db w')"
  using same_tables_next [of "web_db w"]
  by (auto simp: check_def ping_def Let_def respond_def schema_ok_same split: prod.splits)

lemma Recoverer_keeps:
  assumes "web_keeps next"
  shows "web_keeps (Recoverer lg next)"
  unfolding web_keeps_def
proof (intro allI impI)
  fix r and w :: web assume ok: "schema_ok (web_db w)"
  obtain res w1 where n: "next r w = (res, w1)" by fastforce
  have "schema_ok (web_db w1)" using assms ok n unfolding web_keeps_def by (metis snd_conv)
  with n show "schema_ok (web_db (snd (Recoverer lg next r w)))" by (cases res) (simp_all add: Recoverer_def)
qed

interpretation keeping: handler_law web_keeps D for D :: "'q deps"
proof
  fix q :: 'q
  show "web_keeps (\<lambda>r w. case check (Some (d_redis D, d_health_consumer D)) r (w, q) of (res, w1, q1) \<Rightarrow> (res, w1))"
    by (auto simp: web_keeps_def split: prod.split dest: check_keeps)
qed (simp_all add: respond_keeps chain_keeps create_keeps get_keeps getMetrics_keeps Recoverer_keeps, simp add: web_keeps_def)

lemma record_db [simp]: "web_db (record_on w) = web_db w" "web_db (record_off w) = web_db w"
  by (simp_all add: record_on_def record_off_def)

lemma Logger_keeps:
  assumes "web_keeps next"
  shows "web_keeps (Logger_mw lg next)"
  unfolding web_keeps_def
proof (intro allI impI)
  fix r and w :: web assume ok: "schema_ok (web_db w)"
  let ?r = "WithContext r (WithLogger (r_context r) (lg @ [(''traceId'', AStr (TraceID (r_context r)))]))"
  obtain res w1 where n: "next ?r (record_on w) = (res, w1)" by fastforce
  have "schema_ok (web_db w1)" using assms ok n unfolding web_keeps_def by (metis snd_conv record_db(1))
  with n show "schema_ok (web_db (snd (Logger_mw lg next r w)))"
    by (cases res; cases "recorded w1") (simp_all add: Logger_mw_def Let_def)
qed

lemma Trace_keeps:
  assumes "web_keeps next"
  shows "web_keeps (Trace P next)"
  unfolding web_keeps_def
proof (intro allI impI)
  fix r and w :: web assume ok: "schema_ok (web_db w)"
  obtain w1 where w1: "Trace P next r w = next (r\<lparr>r_context := WithTraceID (r_context r) (trace_id_of P r w)\<rparr>) w1"
      "web_db w1 = (web_db w)\<lparr>draws := draws (web_db w1)\<rparr>"
    using Trace_hands [of P "next" r w] by blast
  have "schema_ok (web_db w1)" by (subst w1(2)) (simp add: ok)
  with assms w1(1) show "schema_ok (web_db (snd (Trace P next r w)))" by (simp add: web_keeps_def)
qed

lemma serve_keeps: "schema_ok (web_db w) \<Longrightarrow> serve D q r w = (res, w') \<Longrightarrow> schema_ok (web_db w')"
  using Trace_keeps [OF Logger_keeps [OF keeping.recovered_mux_law [of _ D q]]]
  unfolding web_keeps_def serve_def by (metis snd_conv)

section \<open>Boot keeps the schema\<close>

lemma loaded_keeps:
  assumes "schema_ok s" and "loaded P U fs path s s'" and "trades_ok s'"
  shows "schema_ok s'"
proof -
  from assms(2) have "same_tables (s\<lparr>trades := trades s'\<rparr>) s'" by (auto simp: loaded_def)
  then show ?thesis using assms(1,3) by (simp add: schema_ok_def same_tables_iff)
qed

lemma Seed_keeps: "keeps_schema (SeedFromCSV P U fs path)"
  unfolding keeps_schema_def
proof (intro allI impI)
  fix s assume ok: "schema_ok s"
  show "schema_ok (snd (SeedFromCSV P U fs path s))"
  proof (cases "trades s = []")
    case True
    from SeedFromCSV_cases [OF _ this, of P U fs path "fst (SeedFromCSV P U fs path s)" "snd (SeedFromCSV P U fs path s)"]
    show ?thesis using loaded_keeps [OF ok] ok schema_ok_same by auto
  next
    case False
    from SeedFromCSV_present [OF this, of P U fs path] ok show ?thesis by (simp add: schema_ok_same)
  qed
qed

lemma seed_and_backfill_keeps:
  assumes "permutes_lists (h_map_order H)"
  shows "keeps_schema (seed_and_backfill H cfg)"
proof -
  let ?g = "\<lambda>s1. case wrap_err ''check snapshots'' (HasSnapshots s1) of
      (Inl e, s2) \<Rightarrow> (Inl e, s2)
    | (Inr hasSnap, s2) \<Rightarrow> if hasSnap then (Inr (), s2)
        else wrap_err ''backfill'' (BackfillFromTrades (h_platform H) (h_map_order H) s2)"
  have "keeps_schema ?g"
    unfolding keeps_schema_def
  proof (intro allI impI)
    fix s assume ok: "schema_ok s"
    obtain r s2 where h: "HasSnapshots s = (r, s2)" by fastforce
    have ok2: "schema_ok s2" using HasSnapshots_same [OF h] ok by (simp add: schema_ok_same)
    have "schema_ok (snd (wrap_err ''backfill'' (BackfillFromTrades (h_platform H) (h_map_order H) s2)))"
      using wrap_err_keeps [OF BackfillFromTrades_keeps [OF assms]] ok2 by (simp add: keeps_schema_def)
    with h ok2 show "schema_ok (snd (?g s))" by (auto simp: wrap_err_def split: sum.split)
  qed
  then have "keeps_schema (\<lambda>s. after (wrap_err ''seed''
      (SeedFromCSV (h_platform H) (h_uuid H) (h_fs H) (SeedFilePath cfg) s)) ?g)"
    by (rule after_keeps [OF wrap_err_keeps [OF Seed_keeps]])
  then show ?thesis by (simp add: keeps_schema_def seed_and_backfill_def)
qed

lemma boot_db:
  assumes "boot H m = (res, m')"
  shows "mc_db m' = mc_db m \<or> (\<exists>cfg. mc_db m' = snd (seed_and_backfill H cfg (mc_db m)))"
  using assms unfolding boot_def by (auto split: sum.splits prod.splits) (metis snd_conv)+

lemma boot_keeps:
  assumes "permutes_lists (h_map_order H)" and "boot H m = (res, m')" and "schema_ok (mc_db m)"
  shows "schema_ok (mc_db m')"
  using boot_db [OF assms(2)] seed_and_backfill_keeps [OF assms(1)] assms(3) by (auto simp: keeps_schema_def)

section \<open>Runs of the whole system\<close>

text \<open>
  What happens beside the worker: a request to an API process, a move of the stream server (publications, other
  consumers), the passing of time, a change of what the connection will do, and a (re)start of the API.
\<close>

inductive surroundings :: "('d, 'q) host \<Rightarrow> 'q deps \<Rightarrow> db \<times> 'q \<Rightarrow> db \<times> 'q \<Rightarrow> bool" for H D where
  request: "web_db w = s \<Longrightarrow> serve D q r w = (res, w') \<Longrightarrow> surroundings H D (s, q) (web_db w', q)"
| stream: "surroundings H D (s, q) (s, q')"
| time: "surroundings H D (s, q) (s\<lparr>clock := c\<rparr>, q)"
| connection: "surroundings H D (s, q) (s\<lparr>faults := fs\<rparr>, q)"
| restart: "boot H \<lparr>mc_mig = mig, mc_db = s, mc_queue = q\<rparr> = (res, m') \<Longrightarrow>
    surroundings H D (s, q) (mc_db m', mc_queue m')"

inductive_cases surroundingsE: "surroundings H D (s, q) y"

lemma surroundings_keep:
  assumes "permutes_lists (h_map_order H)" and "surroundings H D (s, q) (s', q')" and "schema_ok s"
  shows "schema_ok s'"
  using assms(2)
proof cases
  case (request w r res w')
  then show ?thesis using assms(3) serve_keeps [of w D q r res w'] request by simp
next
  case (restart mig res m')
  then show ?thesis using assms(3) boot_keeps [OF assms(1), of _ res m'] restart by fastforce
qed (use assms(3) in simp_all)

lemma run_step_keeps:
  assumes "run_step (handle W) W x y" and "state_sat (\<lambda>sq. schema_ok (fst sq)) x"
  shows "state_sat (\<lambda>sq. schema_ok (fst sq)) y"
  using assms(1)
proof cases
  case (recovery s q)
  with assms(2) have "schema_ok (fst (s, q))" by simp
  with turn_keeps [OF recover_keeps] show ?thesis unfolding recovery(2) by blast
next
  case (polling q s)
  then show ?thesis using assms(2) turn_keeps [of "(s, q)" W] by simp
qed (use assms(2) in simp)

text \<open>
  C1: no run of the system ever breaks the schema. From a database that satisfies it, through any interleaving
  of worker turns, requests, restarts with seed and backfill, clock and connection failures, every reachable
  database has unique keys, trades that pass the CHECK constraints, counters in the range of their columns and
  never negative, and a tilt between 0 and 1 that counts no more losses than trades.
\<close>
theorem system_keeps_schema:
  assumes "permutes_lists (h_map_order H)" and "runs (handle W) W (surroundings H D) (Running s q) y" and "schema_ok s"
  shows "state_sat (\<lambda>sq. schema_ok (fst sq)) y"
proof -
  have "state_sat (\<lambda>sq. schema_ok (fst sq)) y" if "runs (handle W) W (surroundings H D) x y"
      "state_sat (\<lambda>sq. schema_ok (fst sq)) x" for x y
    using that
  proof induction
    case (worker x y z)
    then show ?case using run_step_keeps by blast
  next
    case (others x s q s' q')
    then show ?case using surroundings_keep [OF assms(1)] by simp
  qed
  with assms(2,3) show ?thesis by simp
qed

section \<open>Restarts\<close>

text \<open>With trades and a snapshot there is nothing to load and nothing to recompute.\<close>

lemma seed_and_backfill_live:
  assumes "trades s \<noteq> []" and "user_metrics s \<noteq> []"
  shows "same_tables s (snd (seed_and_backfill H cfg s))"
proof -
  obtain r1 s1 where r1: "SeedFromCSV (h_platform H) (h_uuid H) (h_fs H) (SeedFilePath cfg) s = (r1, s1)" by fastforce
  have a: "same_tables s s1" using SeedFromCSV_present [OF assms(1)] r1 by (metis snd_conv)
  obtain r2 s2 where r2: "HasSnapshots s1 = (r2, s2)" by fastforce
  have b: "same_tables s s2" using same_tables_trans [OF a HasSnapshots_same [OF r2]] .
  have "r2 \<noteq> Inr False"
    using r2 assms(2) same_tables_fields(2) [OF a] same_tables_next [of s1]
    by (auto simp: HasSnapshots_def db_query_row_def read_row_def same_tables_fields
        split: prod.splits sum.splits fault.splits)
  with r1 r2 a b show ?thesis
    by (cases r1; cases r2) (auto simp: seed_and_backfill_def after_def wrap_err_def)
qed

lemma boot_live:
  "boot H m = (res, m') \<Longrightarrow> trades (mc_db m) \<noteq> [] \<Longrightarrow> user_metrics (mc_db m) \<noteq> [] \<Longrightarrow> same_tables (mc_db m) (mc_db m')"
  using boot_db [of H m res m'] seed_and_backfill_live [of "mc_db m" H] by auto

text \<open>
  C23: a boot never panics, serves only with the configured secret after the migrations of the configured directory ran without
  an error, and leaves live data alone: with trades and a snapshot present, whatever fails, no table changes.
\<close>
theorem boot_sound:
  assumes "boot H m = (res, m')"
  shows "(\<forall>p. res \<noteq> Boot_panic p) \<and>
    (\<forall>D. res = Serving D \<longrightarrow> d_secret D = h_env H ''JWT_SECRET'' \<and> d_secret D \<noteq> '''' \<and>
       (\<exists>cfg lg. Load (h_env H) = Inr cfg \<and> RunMigrations (h_fs H) (h_run_sql H) (MigrationsDir cfg) lg (mc_mig m) = (Inr (), mc_mig m'))) \<and>
    (trades (mc_db m) \<noteq> [] \<and> user_metrics (mc_db m) \<noteq> [] \<longrightarrow> same_tables (mc_db m) (mc_db m'))"
proof -
  have secret: "JWTSecret cfg = h_env H ''JWT_SECRET'' \<and> h_env H ''JWT_SECRET'' \<noteq> ''''" if "Load (h_env H) = Inr cfg" for cfg
  proof -
    have "complaints (h_env H) = []" using that Load_fails [of "h_env H"] by (cases "complaints (h_env H)") auto
    with Load_accepts [of "h_env H"] that show ?thesis by (auto simp: complaints_def required_def split: if_splits)
  qed
  have panic: "NewVerifier (JWTSecret cfg) = Inr (JWTSecret cfg)" if "Load (h_env H) = Inr cfg" for cfg
    using secret [OF that] by (simp add: NewVerifier_def)
  have "(\<forall>p. res \<noteq> Boot_panic p) \<and> (\<forall>D. res = Serving D \<longrightarrow> d_secret D = h_env H ''JWT_SECRET'' \<and> d_secret D \<noteq> '''' \<and>
       (\<exists>cfg lg. Load (h_env H) = Inr cfg \<and> RunMigrations (h_fs H) (h_run_sql H) (MigrationsDir cfg) lg (mc_mig m) = (Inr (), mc_mig m')))"
    using assms secret panic by (auto simp: boot_def wire_def split: sum.splits prod.splits)
  moreover have "trades (mc_db m) \<noteq> [] \<and> user_metrics (mc_db m) \<noteq> [] \<longrightarrow> same_tables (mc_db m) (mc_db m')"
    using boot_live [OF assms] by blast
  ultimately show ?thesis by blast
qed

section \<open>An interrupted backfill\<close>

lemma db_exec_script:
  "faults s = FOk # fs \<Longrightarrow> stmt (s\<lparr>faults := fs\<rparr>) = Inr s' \<Longrightarrow> db_exec stmt s = (Inr (), s')"
  "faults s = FFail # fs \<Longrightarrow> db_exec stmt s = (Inl ConnFail, s\<lparr>faults := fs\<rparr>)"
  by (simp_all add: db_exec_def next_fault_def)

lemma interrupted_backfill:
  assumes "faults s = [FOk, FOk, FOk, FFail]" and "trades s \<noteq> []" and "length (trades s) < 2 ^ 31"
  shows "\<exists>e s'. BackfillFromTrades P iter s = (Inl e, s') \<and> trades s' \<noteq> [] \<and> user_metrics s' \<noteq> [] \<and>
    user_emotion_metrics s' = user_emotion_metrics s \<and> session_metrics s' = session_metrics s \<and>
    overtrading_events s' = overtrading_events s"
proof -
  obtain s1 where s1: "db_exec reset_flags_stmt s = (Inr (), s1)" "faults s1 = [FOk, FOk, FFail]"
      "length (trades s1) = length (trades s)" "user_emotion_metrics s1 = user_emotion_metrics s"
      "session_metrics s1 = session_metrics s" "overtrading_events s1 = overtrading_events s"
    using db_exec_script(1) [OF assms(1), of reset_flags_stmt] by (simp add: reset_flags_stmt_def)
  obtain s2 where s2: "db_exec flag_stmt s1 = (Inr (), s2)" "faults s2 = [FOk, FFail]"
      "length (trades s2) = length (trades s)" "user_emotion_metrics s2 = user_emotion_metrics s"
      "session_metrics s2 = session_metrics s" "overtrading_events s2 = overtrading_events s"
    using db_exec_script(1) [OF s1(2), of flag_stmt] s1 by (simp add: flag_stmt_def)
  have "trades s2 \<noteq> []" "length (trades s2) < 2 ^ 31" using s2(3) assms(2,3) by auto
  then obtain t where t: "count_flags_stmt (s2\<lparr>faults := [FFail]\<rparr>) = Inr (s2\<lparr>faults := [FFail], user_metrics := t\<rparr>)" "t \<noteq> []"
    using count_flags_healthy [of "s2\<lparr>faults := [FFail]\<rparr>"] by auto
  have s3: "db_exec count_flags_stmt s2 = (Inr (), s2\<lparr>faults := [FFail], user_metrics := t\<rparr>)"
    using db_exec_script(1) [where stmt = count_flags_stmt, OF s2(2) t(1)] .
  let ?s3 = "s2\<lparr>faults := [FFail], user_metrics := t\<rparr>"
  have "db_exec plan_stmt ?s3 = (Inl ConnFail, ?s3\<lparr>faults := []\<rparr>)" by (rule db_exec_script(2)) simp
  with s1 s2 s3 t(2) \<open>trades s2 \<noteq> []\<close> show ?thesis
    by (simp add: BackfillFromTrades_def backfillRevengeFlag_def backfillPlanAdherence_def sql_result_def)
qed

text \<open>
  C34: a backfill that fails after its first step is never completed. When the connection breaks at the step after
  the revenge counts on the first boot of a database with trades, the boot fails, those counts stay, and every
  later boot, on whatever connection, takes them for a snapshot and leaves the other metrics empty.
\<close>
theorem backfill_never_resumed:
  assumes "Load (h_env H) = Inr cfg" and "SeedOnStart cfg" and "NewPool (h_pgx H) (DatabaseURL cfg) = Inr pc"
    and "RunMigrations (h_fs H) (h_run_sql H) (MigrationsDir cfg) [(''component'', AStr ''api'')] (mc_mig m) = (Inr (), mig)"
    and "trades (mc_db m) \<noteq> []" and "length (trades (mc_db m)) < 2 ^ 31" and "user_metrics (mc_db m) = []"
    and "faults (mc_db m) = [FOk, FOk, FOk, FOk, FOk, FFail]"
  shows "\<exists>e m1. boot H m = (Fatal e, m1) \<and> user_metrics (mc_db m1) \<noteq> [] \<and>
    user_emotion_metrics (mc_db m1) = user_emotion_metrics (mc_db m) \<and> session_metrics (mc_db m1) = session_metrics (mc_db m) \<and>
    (\<forall>H2 m2 res m3. same_tables (mc_db m1) (mc_db m2) \<and> boot H2 m2 = (res, m3) \<longrightarrow> same_tables (mc_db m1) (mc_db m3))"
proof -
  let ?s = "mc_db m"
  have seed: "SeedFromCSV P U fs path ?s = (Inr (), ?s\<lparr>faults := [FOk, FOk, FOk, FOk, FFail]\<rparr>)" for P U fs path
    using assms(5,8) by (simp add: SeedFromCSV_def db_query_row_def next_fault_def read_row_def)
  have snap: "HasSnapshots (?s\<lparr>faults := [FOk, FOk, FOk, FOk, FFail]\<rparr>) = (Inr False, ?s\<lparr>faults := [FOk, FOk, FOk, FFail]\<rparr>)"
    using assms(7) by (simp add: HasSnapshots_def db_query_row_def next_fault_def read_row_def)
  obtain e s' where b: "BackfillFromTrades (h_platform H) (h_map_order H) (?s\<lparr>faults := [FOk, FOk, FOk, FFail]\<rparr>) = (Inl e, s')"
      "trades s' \<noteq> []" "user_metrics s' \<noteq> []" "user_emotion_metrics s' = user_emotion_metrics ?s"
      "session_metrics s' = session_metrics ?s"
    using interrupted_backfill [of "?s\<lparr>faults := [FOk, FOk, FOk, FFail]\<rparr>" "h_platform H" "h_map_order H"] assms(5,6) by auto
  have "seed_and_backfill H cfg ?s = (Inl (Wrap ''backfill'' e), s')"
    using assms(2) b(1) by (simp add: seed_and_backfill_def seed snap)
  then have boot: "boot H m = (Fatal (Wrap ''backfill'' e), m\<lparr>mc_mig := mig, mc_db := s'\<rparr>)"
    using assms(1,3,4) by (simp add: boot_def)
  have "same_tables s' (mc_db m3)" if "same_tables s' (mc_db m2)" "boot H2 m2 = (res, m3)"
    for H2 :: "('d2, 'q2) host" and m2 res m3
    using boot_live [OF that(2)] same_tables_fields(1,2) [OF that(1)] b(2,3) same_tables_trans [OF that(1)] by simp
  then show ?thesis using boot b by auto
qed

section \<open>Examples\<close>

definition boot_env :: environment where
  "boot_env k = (if k \<in> {''DATABASE_URL'', ''REDIS_URL'', ''JWT_SECRET''} then ''x'' else '''')"

definition ref_host :: "(string list, server) host" where
  "ref_host = \<lparr>h_env = boot_env, h_fs = csv_fs,
     h_pgx = \<lparr>parse_config = (\<lambda>d. Inr \<lparr>pc_dsn = d, MaxConns = 4, MinConns = 0, MaxConnLifetime = 0, MaxConnIdleTime = 0\<rparr>),
       new_with_config = (\<lambda>_. None), pool_ping = (\<lambda>_. None)\<rparr>,
     h_run_sql = append_run, h_uuid = short_uuid, h_platform = ref_platform, h_map_order = (\<lambda>_ us. us),
     h_parse_url = (\<lambda>u. Inr \<lparr>ro_url = u, DialTimeout = 0, ReadTimeout = 0, WriteTimeout = 0, MaxRetries = 0, PoolSize = 0\<rparr>),
     h_redis = (\<lambda>_. ref_redis), h_jwt = ref_jwt, h_chi = ref_chi, h_files = ref_files, h_landing = ''''\<rparr>"

definition ref_config :: config where
  "ref_config = \<lparr>Port = 8080, DatabaseURL = ''x'', RedisURL = ''x'', JWTSecret = ''x'', LogLevel = ''info'',
     SeedOnStart = True, SeedFilePath = ''./nevup_seed_dataset.csv'', MigrationsDir = ''./migrations'',
     StreamName = ''trade-events'', ConsumerGroup = ''metrics-workers'', ConsumerName = ''worker-1''\<rparr>"

lemma ref_host_load: "Load (h_env ref_host) = Inr ref_config"
  by (simp add: ref_host_def Load_def Let_def boot_env_def atoiDefault_def getenv_def ref_config_def)

definition migrated :: "string list mig" where
  "migrated = \<lparr>applied = [''0001_a'', ''0002_b''], schema = [''0001_a'', ''0002_b''], mg_faults = [], mg_logs = []\<rparr>"

lemma migrated_again: "\<exists>mig. RunMigrations csv_fs append_run dir lg migrated = (Inr (), mig)"
proof -
  have "version_of ` set (sort [''m/0002_b.up.sql'', ''m/0001_a.up.sql'']) \<subseteq> set (applied migrated)" by code_simp
  then have "\<exists>s'. apply_files csv_fs append_run lg (sort [''m/0002_b.up.sql'', ''m/0001_a.up.sql'']) migrated = (Inr (), s')"
    using apply_files_done [of _ migrated csv_fs append_run lg] by (fastforce simp: migrated_def)
  moreover have "mg_exec create_stmt migrated = (Inr (), migrated)" by (simp add: mg_exec_def create_stmt_def mg_next_def migrated_def)
  ultimately show ?thesis by (simp add: RunMigrations_def Let_def csv_fs_def sample_fs_def)
qed

definition seeded_machine :: "fault list \<Rightarrow> (string list, server) machine" where
  "seeded_machine fs = \<lparr>mc_mig = migrated, mc_db = sample_db\<lparr>faults := fs\<rparr>, mc_queue = one_entry Map.empty Fresh\<rparr>"

lemma sample_db_schema: "schema_ok sample_db" "user_metrics sample_db = []" "user_emotion_metrics sample_db = []"
proof -
  have "trade_checks sample_stored = None" using sample_insertable sample_derive
    by (simp add: sample_stored_def built_row_fields)
  then show "schema_ok sample_db" by (simp add: schema_ok_def trades_ok_def table_ok_def sample_db_def empty_db_def)
qed (simp_all add: sample_db_def empty_db_def)

theorem system_keeps_schema_witness:
  "\<exists>s' q'. runs (handle ref_worker) ref_worker (surroundings ref_host ref_deps) (Running sample_db (one_entry Map.empty Fresh))
     (Running s' q') \<and> schema_ok s'"
proof -
  let ?q = "one_entry Map.empty Fresh"
  obtain res w' where r: "serve ref_deps ?q anonymous (web_on sample_db) = (res, w')" by fastforce
  have "surroundings ref_host ref_deps (sample_db, ?q) (web_db w', ?q)" by (rule request [OF _ r]) simp
  with start have run: "runs (handle ref_worker) ref_worker (surroundings ref_host ref_deps) (Running sample_db ?q) (Running (web_db w') ?q)"
    by (rule others)
  have "permutes_lists (h_map_order ref_host)" by (simp add: permutes_lists_def ref_host_def)
  from system_keeps_schema [OF this run sample_db_schema(1)] run show ?thesis by auto
qed

theorem boot_sound_witness:
  "\<forall>p. fst (boot ref_host (seeded_machine [])) \<noteq> Boot_panic p"
proof -
  let ?x = "boot ref_host (seeded_machine [])"
  show ?thesis using boot_sound [of ref_host "seeded_machine []" "fst ?x" "snd ?x"] by simp
qed

theorem backfill_never_resumed_witness:
  "\<exists>e m1. boot ref_host (seeded_machine [FOk, FOk, FOk, FOk, FOk, FFail]) = (Fatal e, m1) \<and>
     user_metrics (mc_db m1) \<noteq> [] \<and> user_emotion_metrics (mc_db m1) = []"
proof -
  let ?m = "seeded_machine [FOk, FOk, FOk, FOk, FOk, FFail]"
  obtain mig where mig: "RunMigrations (h_fs ref_host) (h_run_sql ref_host) (MigrationsDir ref_config)
      [(''component'', AStr ''api'')] (mc_mig ?m) = (Inr (), mig)"
    using migrated_again by (auto simp: ref_host_def seeded_machine_def)
  obtain pc where pc: "NewPool (h_pgx ref_host) (DatabaseURL ref_config) = Inr pc"
    by (simp add: NewPool_def ref_host_def Let_def)
  have "SeedOnStart ref_config" "trades (mc_db ?m) \<noteq> []" "length (trades (mc_db ?m)) < 2 ^ 31" "user_metrics (mc_db ?m) = []"
      "faults (mc_db ?m) = [FOk, FOk, FOk, FOk, FOk, FFail]" "user_emotion_metrics (mc_db ?m) = []"
    by (simp_all add: ref_config_def seeded_machine_def sample_db_schema)
  with backfill_never_resumed [OF ref_host_load this(1) pc mig this(2-5)] show ?thesis by auto
qed

end
