(* ===== verification/Pipeline.thy ===== *)
theory Pipeline imports Trade_Handler begin

text \<open>
  From the request to the metrics: a closed trade accepted by \<open>POST /trades\<close>, the event it is announced by, the
  reading of that event by the worker, and what its calculators then leave in the tables.
\<close>

section \<open>A closed trade in the worker\<close>

lemma outcome_loss_text: "outcome_text oc = ''loss'' \<longleftrightarrow> oc = Loss"
  by (cases oc) simp_all

text \<open>
  The score of a user in \<open>s'\<close> is the mean of the latest ratings in \<open>s\<close>, up to the order of trades that left at the same
  instant.
\<close>

definition scored_by_latest :: "uuid \<Rightarrow> db \<Rightarrow> db \<Rightarrow> bool" where
  "scored_by_latest u s s' \<longleftrightarrow> filter (rated u) (trades s) \<noteq> [] \<longrightarrow>
     (\<exists>ts. latest_rated 10 u s ts \<and>
        score_of u s' = (Some (numeric_round 4 (of_int (\<Sum>r \<leftarrow> ts. the (plan_adherence r)) / of_nat (length ts))), int (length ts)))"

lemma scored_by_latest_mean:
  assumes "trades_ok s" and "last_ratings u s \<noteq> [] \<Longrightarrow>
      score_of u s' = (Some (mean_score (last_ratings u s)), int (length (last_ratings u s)))"
  shows "scored_by_latest u s s'"
proof -
  have t: "take 10 (latest u s) = latest u s" by (simp add: latest_def)
  have "last_ratings u s \<noteq> []" if "filter (rated u) (trades s) \<noteq> []"
    using that by (simp add: last_ratings_latest latest_def)
  then show ?thesis
    using assms(2) latest_rated_take [OF assms(1), of 10 u, unfolded t] unfolding scored_by_latest_def
    by (intro impI exI [of _ "latest u s"]) (simp add: last_ratings_latest mean_score_def comp_def)
qed

text \<open>What a closed trade of a table leaves in the metrics once its event was handled.\<close>

definition counted_in :: "trade_row \<Rightarrow> db \<Rightarrow> db \<Rightarrow> bool" where
  "counted_in t s s' \<longleftrightarrow> trades s' = trades s \<and>
     (\<forall>k. emotion_wins k s' = emotion_wins k s + (if adds_win k t then 1 else 0) \<and>
          emotion_losses k s' = emotion_losses k s + (if adds_loss k t then 1 else 0)) \<and>
     scored_by_latest (user_id t) s s' \<and>
     (\<exists>sm. tbl_lookup sm_session_id (session_id t) (session_metrics s') = Some sm \<and>
        total_trades sm = int (length (session_trades (session_id t) s)) \<and>
        loss_following_trades sm = count_rows (\<lambda>r. outcome r = Some Loss) (butlast (session_trades (session_id t) s)))"

lemma process_closed_healthy:
  assumes "trades_ok s" and "faults s = []" and "length (trades s) < 2 ^ 31" and "emotion_room 1 s"
    and "t \<in> set (trades s)" and "status t = Closed"
    and "\<And>r. r \<in> set (trades s) \<Longrightarrow> session_id r = session_id t \<Longrightarrow> status r = Closed \<Longrightarrow> user_id r = user_id t"
    and "shortest_decimals (platform_of W)"
  shows "\<exists>s'. process_closed W (trade_id t) (user_id t) (session_id t) (s, q) = (0, s', q) \<and> counted_in t s s'"
proof -
  let ?P = "platform_of W" and ?u = "user_id t" and ?vs = "last_ratings (user_id t) s"
  define s1 where "s1 = snd (PlanAdherence_calc ?P ?u s)"
  have r1: "PlanAdherence_calc ?P ?u s = (Inr (), s1)"
    and f1: "faults s1 = []" "trades s1 = trades s" "user_emotion_metrics s1 = user_emotion_metrics s"
    and sc: "?vs \<noteq> [] \<Longrightarrow> score_of ?u s1 = (Some (mean_score ?vs), int (length ?vs))"
    using PlanAdherence_healthy [OF assms(1,2,8), of ?u] assms(2) by (simp_all add: s1_def store_score_def store_score_reads [unfolded store_score_def])
  have look: "tbl_lookup trade_id (trade_id t) (trades s1) = Some t"
    using assms(1,5) f1(2) by (simp add: trades_ok_def tbl_lookup_distinct)
  have room: "emotion_room (Suc 0) s1" using emotion_counts_cong [OF f1(3)] assms(4) by simp
  obtain s2 where r2: "WinRateByEmotion_calc (trade_id t) ?u s1 = (Inr (), s2)"
    and f2: "faults s2 = []" "trades s2 = trades s1" "user_metrics s2 = user_metrics s1"
    and c2: "\<And>k. emotion_wins k s2 = emotion_wins k s1 + (if adds_win k t then 1 else 0) \<and>
         emotion_losses k s2 = emotion_losses k s1 + (if adds_loss k t then 1 else 0)"
    using WinRate_step [OF f1(1) look room] by blast
  let ?rs = "session_trades (session_id t) s2"
  have rs: "?rs = session_trades (session_id t) s" using f1(2) f2(2) by (simp add: session_trades_def)
  have ne: "?rs \<noteq> []"
  proof -
    have "t \<in> set ?rs" using assms(5,6) unfolding rs by (simp add: session_trades_def)
    then show ?thesis by auto
  qed
  have one: "r \<in> set ?rs \<Longrightarrow> user_id r = ?u" for r using assms(7) unfolding rs by (simp add: session_trades_def)
  have len: "length (trades s2) < 2 ^ 31" using f1(2) f2(2) assms(3) by simp
  from tilt_single [OF f2(1) len ne one]
  obtain s3 row where r3: "SessionTilt_calc (session_id t) s2 = (Inr (), s3)"
      "tbl_lookup sm_session_id (session_id t) (session_metrics s3) = Some row" "total_trades row = int (length ?rs)"
      "loss_following_trades row = count_rows (\<lambda>r. outcome r = Some Loss) (butlast ?rs)"
    and f3: "trades s3 = trades s2" "user_metrics s3 = user_metrics s2" "user_emotion_metrics s3 = user_emotion_metrics s2"
    by blast
  have "process_closed W (trade_id t) ?u (session_id t) (s, q) = (0, s3, q)"
    using r1 r2 r3(1) by (simp add: process_closed_def failures_def)
  moreover have "emotion_wins k s3 = emotion_wins k s + (if adds_win k t then 1 else 0) \<and>
         emotion_losses k s3 = emotion_losses k s + (if adds_loss k t then 1 else 0)" for k
    using c2 [of k] emotion_counts_cong [OF f1(3)] emotion_counts_cong [OF f3(3)] by simp
  moreover have "scored_by_latest ?u s s3"
    using sc f2(3) f3(2) by (intro scored_by_latest_mean [OF assms(1)]) (simp add: score_of_def)
  moreover have "trades s3 = trades s" using f1(2) f2(2) f3(1) by simp
  ultimately show ?thesis using r3(2-4) unfolding counted_in_def rs by (intro exI [of _ s3] conjI) blast+
qed

lemma handle_closed_healthy:
  assumes "trades_ok s" and "faults s = []" and "length (trades s) < 2 ^ 31" and "emotion_room 1 s"
    and "t \<in> set (trades s)" and "status t = Closed"
    and "\<And>r. r \<in> set (trades s) \<Longrightarrow> session_id r = session_id t \<Longrightarrow> status r = Closed \<Longrightarrow> user_id r = user_id t"
    and "uuid_codec (platform_of W)" and "shortest_decimals (platform_of W)"
    and "msg_event m = closed_event (platform_of W) t x" and "msg_deliveries m < 5"
  shows "\<exists>s'. handle W m (s, q) = (s', snd (Ack (redis_of W) m q)) \<and> counted_in t s s'"
proof -
  obtain s' where s': "process_closed W (trade_id t) (user_id t) (session_id t) (s, q) = (0, s', q)" "counted_in t s s'"
    using process_closed_healthy [OF assms(1-7,9)] by blast
  have "process W m (s, q) = ((0, False), s', q)"
    using s'(1) assms(8,10) by (simp add: process_def closed_event_def event_types uuid_codec_def Let_def)
  moreover have "\<not> maxDeliveries \<le> msg_deliveries m" using assms(11) by (simp add: maxDeliveries_def)
  ultimately have "handle W m (s, q) = (s', snd (Ack (redis_of W) m q))"
    using handle_with_ends(2) [where proc = "process W"] by (simp add: handle_def)
  with s'(2) show ?thesis by blast
qed

section \<open>From the request to the counters\<close>

text \<open>A valid, fresh request of the caller for a closed trade, on a healthy connection.\<close>

definition posts_closed :: "platform \<Rightarrow> request \<Rightarrow> trade_input \<Rightarrow> db \<Rightarrow> bool" where
  "posts_closed P r inp s \<longleftrightarrow> r_body r = Inr inp \<and> validate inp = None \<and> ctx_UserID (r_context r) = Some (UserID inp) \<and>
     insertable P inp \<and> tbl_lookup trade_id (TradeID inp) (trades s) = None \<and> Status inp = ''closed'' \<and>
     trades_ok s \<and> faults s = []"

text \<open>
  What the request adds to the metrics of the database: \<open>s\<close> before it, \<open>s1\<close> once its row is stored, \<open>s2\<close> once its
  event was handled.
\<close>

definition request_counted :: "platform \<Rightarrow> trade_input \<Rightarrow> db \<Rightarrow> db \<Rightarrow> db \<Rightarrow> bool" where
  "request_counted P inp s s1 s2 \<longleftrightarrow> trades s2 = trades s1 \<and>
     (\<forall>u em. emotion_wins (u, em) s2 = emotion_wins (u, em) s +
         (if u = UserID inp \<and> EmotionalState inp = Some (emotion_text em) \<and> snd (derive (arch P) inp) = Some ''win'' then 1 else 0) \<and>
       emotion_losses (u, em) s2 = emotion_losses (u, em) s +
         (if u = UserID inp \<and> EmotionalState inp = Some (emotion_text em) \<and> snd (derive (arch P) inp) = Some ''loss'' then 1 else 0)) \<and>
     scored_by_latest (UserID inp) s1 s2 \<and>
     (\<exists>sm. tbl_lookup sm_session_id (SessionID inp) (session_metrics s2) = Some sm \<and>
        total_trades sm = count_rows (\<lambda>x. session_id x = SessionID inp \<and> status x = Closed) (trades s) + 1)"

lemma posted_row:
  assumes "posts_closed P r inp (web_db w)"
  defines "row \<equiv> built_row P inp (clock (web_db w))"
  shows "create P True r w = (Finished, w\<lparr>web_db := (web_db w)\<lparr>trades := trades (web_db w) @ [row]\<rparr>,
      web_tasks := web_tasks w @ [eventFor P (scan P row)], web_resp := WriteJSON 200 (JTrade (scan P row)) (web_resp w)\<rparr>)"
    and "trades_ok ((web_db w)\<lparr>trades := trades (web_db w) @ [row]\<rparr>)"
    and "status row = Closed" and "exit_at row \<noteq> None"
    and "adds_win k row \<longleftrightarrow> fst k = UserID inp \<and> EmotionalState inp = Some (emotion_text (snd k)) \<and>
      snd (derive (arch P) inp) = Some ''win''"
    and "adds_loss k row \<longleftrightarrow> fst k = UserID inp \<and> EmotionalState inp = Some (emotion_text (snd k)) \<and>
      snd (derive (arch P) inp) = Some ''loss''"
proof -
  from assms(1) have h: "r_body r = Inr inp" "validate inp = None" "ctx_UserID (r_context r) = Some (UserID inp)"
    "insertable P inp" "tbl_lookup trade_id (TradeID inp) (trades (web_db w)) = None" "Status inp = ''closed''"
    "trades_ok (web_db w)" "faults (web_db w) = []" by (simp_all add: posts_closed_def)
  have ins: "Insert P inp (web_db w) = (Inr (scan P row, True), (web_db w)\<lparr>trades := trades (web_db w) @ [row]\<rparr>)"
    unfolding row_def using h(8,4,5) by (rule Insert_healthy(1))
  from create_accepted [OF h(1-3) ins, of True]
  show "create P True r w = (Finished, w\<lparr>web_db := (web_db w)\<lparr>trades := trades (web_db w) @ [row]\<rparr>,
      web_tasks := web_tasks w @ [eventFor P (scan P row)], web_resp := WriteJSON 200 (JTrade (scan P row)) (web_resp w)\<rparr>)"
    by simp
  show "trades_ok ((web_db w)\<lparr>trades := trades (web_db w) @ [row]\<rparr>)"
    using Insert_trades_ok [OF h(7), of P inp] ins by simp
  note b = built_row_fields [OF h(4), of "clock (web_db w)", folded row_def]
  show c: "status row = Closed" using b(5) h(6) by (cases "status row") simp_all
  show "exit_at row \<noteq> None" using b(1) c by (auto simp: trade_checks_def split: if_splits)
  have oc: "map_option outcome_text (outcome row) = snd (derive (arch P) inp)"
    using scan_built_row(11) [OF h(4), of "clock (web_db w)"] by (simp add: row_def [symmetric] scan_def)
  have inj: "emotion_text a = emotion_text c \<longleftrightarrow> a = c" for a c by (cases a; cases c) simp_all
  have e: "emotional_state row = Some c \<longleftrightarrow> EmotionalState inp = Some (emotion_text c)" for c
    unfolding b(8) [symmetric] by (cases "emotional_state row") (auto simp: inj)
  have o: "outcome row = Some Win \<longleftrightarrow> snd (derive (arch P) inp) = Some ''win''"
    "outcome row = Some Loss \<longleftrightarrow> snd (derive (arch P) inp) = Some ''loss''"
    unfolding oc [symmetric] by (cases "outcome row"; simp add: outcome_win_text outcome_loss_text)+
  show "adds_win k row \<longleftrightarrow> fst k = UserID inp \<and> EmotionalState inp = Some (emotion_text (snd k)) \<and>
      snd (derive (arch P) inp) = Some ''win''"
    using b(3) by (cases k) (auto simp: adds_win_def e o)
  show "adds_loss k row \<longleftrightarrow> fst k = UserID inp \<and> EmotionalState inp = Some (emotion_text (snd k)) \<and>
      snd (derive (arch P) inp) = Some ''loss''"
    using b(3) by (cases k) (auto simp: adds_loss_def e o)
qed

lemma posted_event_handled:
  assumes "posts_closed (platform_of W) r inp (web_db w)" and "uuid_codec (platform_of W)" and "shortest_decimals (platform_of W)"
    and "length (trades (web_db w)) + 1 < 2 ^ 31" and "emotion_room 1 (web_db w)"
    and "\<forall>x \<in> set (trades (web_db w)). session_id x = SessionID inp \<and> status x = Closed \<longrightarrow> user_id x = UserID inp"
    and "ExitAt inp = Some exit" and "0 \<le> year_of (to_timestamptz exit)" and "year_of (to_timestamptz exit) < 10000"
  shows "\<exists>w' row ev ev'. create (platform_of W) True r w = (Finished, w') \<and>
    trades (web_db w') = trades (web_db w) @ [row] \<and> trade_id row = TradeID inp \<and>
    web_tasks w' = web_tasks w @ [ev] \<and> decodeValues (event_fields ev) = Inr ev' \<and>
    (\<forall>m q. msg_event m = ev' \<and> msg_deliveries m < 5 \<longrightarrow>
      (\<exists>s. handle W m (web_db w', q) = (s, snd (Ack (redis_of W) m q)) \<and>
        request_counted (platform_of W) inp (web_db w) (web_db w') s))"
proof -
  let ?P = "platform_of W" and ?s0 = "web_db w"
  define row where "row = built_row ?P inp (clock ?s0)"
  define s1 where "s1 = ?s0\<lparr>trades := trades ?s0 @ [row]\<rparr>"
  define ev where "ev = eventFor ?P (scan ?P row)"
  note p = posted_row [OF assms(1), folded row_def, folded s1_def ev_def]
  have ins: "insertable ?P inp" and st: "Status inp = ''closed''" using assms(1) by (simp_all add: posts_closed_def)
  have s1: "trades s1 = trades ?s0 @ [row]" "faults s1 = []" "user_emotion_metrics s1 = user_emotion_metrics ?s0"
    using assms(1) by (simp_all add: s1_def posts_closed_def)
  note b = built_row_fields [OF ins, of "clock ?s0", folded row_def]
  note f = scan_built_row [OF ins, of "clock ?s0", folded row_def]
  have ev: "ev = closed_event ?P row (to_timestamptz exit)"
    using st assms(7) by (simp add: ev_def closed_event_def eventFor_def f b)
  then have dec: "decodeValues (event_fields ev) = Inr (closed_event ?P row (ms_floor (to_timestamptz exit)))"
    using assms(8,9) by (simp add: decode_event_fields closed_event_def)
  have total: "int (length (session_trades (SessionID inp) s1)) =
      count_rows (\<lambda>x. session_id x = SessionID inp \<and> status x = Closed) (trades ?s0) + 1"
    using b(4) p(3) by (simp add: s1(1) session_trades_def count_rows_def)
  have told: "counted_in row s1 s \<Longrightarrow> request_counted ?P inp ?s0 s1 s" for s
    using emotion_counts_cong [OF s1(3)] unfolding counted_in_def request_counted_def total [symmetric] b(3,4) p(5,6)
    by fastforce
  have handled: "\<exists>s. handle W m (s1, q) = (s, snd (Ack (redis_of W) m q)) \<and> counted_in row s1 s"
    if "msg_event m = closed_event ?P row (ms_floor (to_timestamptz exit))" "msg_deliveries m < 5" for m q
    by (rule handle_closed_healthy [OF p(2) s1(2) _ _ _ p(3) _ assms(2,3) that])
       (use assms(4-6) b(3,4) emotion_counts_cong [OF s1(3)] in \<open>auto simp: s1(1)\<close>)
  with told have "\<exists>s. handle W m (s1, q) = (s, snd (Ack (redis_of W) m q)) \<and> request_counted ?P inp ?s0 s1 s"
    if "msg_event m = closed_event ?P row (ms_floor (to_timestamptz exit)) \<and> msg_deliveries m < 5" for m q
    using that by blast
  then show ?thesis
    using p(1) b(2) s1(1) dec
    by (intro exI [of _ "w\<lparr>web_db := s1, web_tasks := web_tasks w @ [ev],
        web_resp := WriteJSON 200 (JTrade (scan ?P row)) (web_resp w)\<rparr>"] exI [of _ row] exI [of _ ev]
        exI [of _ "closed_event ?P row (ms_floor (to_timestamptz exit))"]) simp
qed

text \<open>One entry on its way: published, read by the worker's next turn and handled there.\<close>

lemma publish_task_sent:
  "xadd R stream (event_fields ev) q = (Inr i, q1) \<Longrightarrow> publish_task R C stream lg ev (w, q) = (w, q1)"
  by (simp add: publish_task_def Publish_def publishOnce_def)

lemma turn_one_entry:
  assumes "xread_group (redis_of W) (c_group (consumer_of W)) (c_name (consumer_of W)) (c_stream (consumer_of W))
      batchSize nonBlock q1 = (Inr [(st, [(i, v)])], q2)"
    and "decodeValues v = Inr ev"
  defines "m \<equiv> \<lparr>msg_id = i, msg_stream = c_stream (consumer_of W), msg_group = c_group (consumer_of W), msg_event = ev,
      msg_deliveries = 1\<rparr>"
  shows "turn h W (s, q1) = (case h m (s, q2) of (s', q') \<Rightarrow> Running s' q')"
  using assms by (simp add: turn_def poll_with_def Read_def split: prod.split)

lemma Ack_state: "snd (Ack R m q) = snd (xack R (msg_stream m) (msg_group m) (msg_id m) q)"
  by (simp add: Ack_def split: prod.split sum.split)

text \<open>
  C2: the way of a closed trade from the request to the metrics. The conditions: a valid, fresh POST of the caller for a
  closed trade whose exit lies in the years 0 to 9999, on a healthy connection; the closed trades stored under its
  session are those of the same user; fewer than \<open>2^31\<close> trades and every emotion counter with room for one more.
  Then the POST stores one row and starts exactly one publication. When the stream takes the entry and hands it out, and
  nothing else, at the worker's next read, that turn of the worker raises by one the win (or loss) counter of this user
  in the mood of the trade, if it has a mood and a profit, and no other counter of any user; the adherence score
  becomes the mean of the latest ratings (up to equal exits) with this trade among the candidates, the tilt of the session
  counts it, and the entry is acknowledged.
\<close>
theorem posted_trade_counted:
  assumes "posts_closed (platform_of W) r inp (web_db w)" and "uuid_codec (platform_of W)" and "shortest_decimals (platform_of W)"
    and "length (trades (web_db w)) + 1 < 2 ^ 31" and "emotion_room 1 (web_db w)"
    and "\<forall>x \<in> set (trades (web_db w)). session_id x = SessionID inp \<and> status x = Closed \<longrightarrow> user_id x = UserID inp"
    and "ExitAt inp = Some exit" and "0 \<le> year_of (to_timestamptz exit)" and "year_of (to_timestamptz exit) < 10000"
    and "R = redis_of W" and "stream = c_stream (consumer_of W)" and "grp = c_group (consumer_of W)"
  shows "\<exists>w' row ev. create (platform_of W) True r w = (Finished, w') \<and>
    trades (web_db w') = trades (web_db w) @ [row] \<and> trade_id row = TradeID inp \<and> web_tasks w' = web_tasks w @ [ev] \<and>
    (\<forall>q i q1 st q2 pubCtx lg. xadd R stream (event_fields ev) q = (Inr i, q1) \<and>
       xread_group R grp (c_name (consumer_of W)) stream batchSize nonBlock q1 = (Inr [(st, [(i, event_fields ev)])], q2) \<longrightarrow>
       publish_task R pubCtx stream lg ev (w', q) = (w', q1) \<and>
       (\<exists>s. turn (handle W) W (web_db w', q1) = Running s (snd (xack R stream grp i q2)) \<and>
          request_counted (platform_of W) inp (web_db w) (web_db w') s))"
proof -
  from posted_event_handled [OF assms(1-9)] obtain w' row ev ev' where w': "create (platform_of W) True r w = (Finished, w')"
    "trades (web_db w') = trades (web_db w) @ [row]" "trade_id row = TradeID inp" "web_tasks w' = web_tasks w @ [ev]"
    "decodeValues (event_fields ev) = Inr ev'"
    and h: "\<And>m q. msg_event m = ev' \<and> msg_deliveries m < 5 \<Longrightarrow> \<exists>s. handle W m (web_db w', q) = (s, snd (Ack (redis_of W) m q)) \<and>
        request_counted (platform_of W) inp (web_db w) (web_db w') s" by blast
  have turned: "\<exists>s. turn (handle W) W (web_db w', q1) = Running s (snd (xack R stream grp i q2)) \<and>
      request_counted (platform_of W) inp (web_db w) (web_db w') s"
    if rd: "xread_group R grp (c_name (consumer_of W)) stream batchSize nonBlock q1 = (Inr [(st, [(i, event_fields ev)])], q2)"
    for i q1 st q2
  proof -
    let ?m = "\<lparr>msg_id = i, msg_stream = stream, msg_group = grp, msg_event = ev', msg_deliveries = 1\<rparr>"
    obtain s where s: "handle W ?m (web_db w', q2) = (s, snd (Ack R ?m q2))"
      "request_counted (platform_of W) inp (web_db w) (web_db w') s" using h [of ?m q2] assms(10) by auto
    have "turn (handle W) W (web_db w', q1) = (case handle W ?m (web_db w', q2) of (s', q') \<Rightarrow> Running s' q')"
      using turn_one_entry [OF rd [unfolded assms(10-12)] w'(5)] by (simp add: assms(11,12))
    with s show ?thesis by (simp add: Ack_state)
  qed
  have "\<forall>q i q1 st q2 pubCtx lg. xadd R stream (event_fields ev) q = (Inr i, q1) \<and>
       xread_group R grp (c_name (consumer_of W)) stream batchSize nonBlock q1 = (Inr [(st, [(i, event_fields ev)])], q2) \<longrightarrow>
       publish_task R pubCtx stream lg ev (w', q) = (w', q1) \<and>
       (\<exists>s. turn (handle W) W (web_db w', q1) = Running s (snd (xack R stream grp i q2)) \<and>
          request_counted (platform_of W) inp (web_db w) (web_db w') s)"
    by (intro allI impI conjI, erule conjE, erule publish_task_sent, erule conjE, erule turned)
  then show ?thesis by (intro exI [of _ w'] exI [of _ row] exI [of _ ev] conjI w'(1-4))
qed

section \<open>Example\<close>

lemma sample_posts_closed: "posts_closed ref_platform (request_by 2 1 sample_input) sample_input empty_db"
  by (simp add: posts_closed_def sample_valid sample_insertable trades_ok_def)

text \<open>The sample request, a calm trade that won, is the first one of an empty database.\<close>

definition quiet_server :: server where
  "quiet_server = \<lparr>sv_log = [], sv_slot = (\<lambda>_. Fresh), sv_now = 0, sv_last = (\<lambda>_. 0)\<rparr>"

theorem posted_trade_counted_witness:
  "\<exists>w' ev q1 s q3. create ref_platform True (request_by 2 1 sample_input) (web_on empty_db) = (Finished, w') \<and>
     web_tasks w' = [ev] \<and> publish_task ref_redis ref_ctx ''s'' [] ev (w', quiet_server) = (w', q1) \<and>
     turn (handle ref_worker) ref_worker (web_db w', q1) = Running s q3 \<and>
     emotion_wins (2, Calm) s = 1 \<and> sv_slot q3 ''1'' = Settled"
proof -
  have y: "year_of 2000 = 1970" by code_simp
  have mood: "EmotionalState sample_input = Some ''calm''" "ExitAt sample_input = Some 2000"
    by (simp_all add: sample_input_def)
  have counts: "request_counted ref_platform sample_input empty_db s1 s \<Longrightarrow> emotion_wins (2, Calm) s = 1" for s1 s
    by (simp add: request_counted_def sample_derive mood emotion_wins_def [of _ empty_db])
  have room: "emotion_room 1 empty_db" by (simp add: emotion_room_def emotion_wins_def emotion_losses_def)
  have tz: "to_timestamptz 2000 = 2000" by (simp add: to_timestamptz_def)
  have hyps: "length (trades empty_db) + 1 < 2 ^ 31" "0 \<le> year_of (to_timestamptz 2000)" "year_of (to_timestamptz 2000) < 10000"
    "\<forall>x \<in> set (trades empty_db). session_id x = SessionID sample_input \<and> status x = Closed \<longrightarrow> user_id x = UserID sample_input"
    unfolding tz y by simp_all
  from posted_trade_counted [of ref_worker "request_by 2 1 sample_input" sample_input "web_on empty_db" 2000 ref_redis "''s''" "''g''",
      unfolded ref_worker_simps web_on_simps append_Nil, OF sample_posts_closed ref_uuid_codec ref_shortest hyps(1) room hyps(4)
      mood(2) hyps(2,3) refl refl refl]
  obtain w' ev where w': "create ref_platform True (request_by 2 1 sample_input) (web_on empty_db) = (Finished, w')"
    "web_tasks w' = [ev]"
    "\<And>q i q1 st q2 pubCtx lg. xadd ref_redis ''s'' (event_fields ev) q = (Inr i, q1) \<and>
       xread_group ref_redis ''g'' ''worker-1'' ''s'' batchSize nonBlock q1 = (Inr [(st, [(i, event_fields ev)])], q2) \<Longrightarrow>
       publish_task ref_redis pubCtx ''s'' lg ev (w', q) = (w', q1) \<and>
       (\<exists>s. turn (handle ref_worker) ref_worker (web_db w', q1) = Running s (snd (xack ref_redis ''s'' ''g'' i q2)) \<and>
          request_counted ref_platform sample_input empty_db (web_db w') s)"
    by blast
  define q1 where "q1 = quiet_server\<lparr>sv_log := [(''1'', event_fields ev)]\<rparr>"
  define q2 where "q2 = deliver [''1''] (\<lambda>_. Owed 1) q1"
  have add: "xadd ref_redis ''s'' (event_fields ev) quiet_server = (Inr ''1'', q1)"
    by (simp add: ref_redis_def quiet_server_def q1_def Let_def)
  have rd: "xread_group ref_redis ''g'' ''worker-1'' ''s'' batchSize nonBlock q1 = (Inr [(''s'', [(''1'', event_fields ev)])], q2)"
    by (simp add: sv_read_def sv_ids_def sv_fields_def q1_def q2_def quiet_server_def batchSize_def)
  have "sv_slot (snd (xack ref_redis ''s'' ''g'' ''1'' q2)) ''1'' = Settled" by (simp add: q2_def deliver_def)
  with w'(1,2) w'(3) [OF conjI [OF add rd], of ref_ctx "[]"] counts show ?thesis by blast
qed

end
