(* ===== verification/Interleaving.thy ===== *)
theory Interleaving imports Trade_Store begin

text \<open>
  Concurrent submissions. \<open>Insert\<close> of \<open>internal/trades/repo.go\<close> is two statements, and between them other requests and
  the worker may act. Here each submission is a state machine that runs one statement per step; any number of them
  share the database, arrive at any time and interleave as they like with each other and with the worker's updates of
  the revenge flag. Statements are atomic: under \<open>READ COMMITTED\<close> an insert waits for a conflicting one to commit.
\<close>

section \<open>One submission, statement by statement\<close>

datatype client =
    Submitting (asked: trade_input)
  | Fetching (asked: trade_input)
  | Answered (asked: trade_input) (answer: "go_error + trade \<times> bool")

fun client_next :: "platform \<Rightarrow> client \<Rightarrow> db \<Rightarrow> client \<times> db" where
  "client_next P (Submitting inp) s =
     (case derive (arch P) inp of (p, oc) \<Rightarrow>
        (case db_query_row (insert_stmt P inp p oc) s of
           (Inr row, s1) \<Rightarrow> (Answered inp (Inr (scan P row, True)), s1)
         | (Inl e, s1) \<Rightarrow>
             if e \<noteq> NoRows then (Answered inp (Inl (Wrap ''insert'' (Sql e))), s1) else (Fetching inp, s1)))"
| "client_next P (Fetching inp) s =
     (case Get P (TradeID inp) s of
        (Inl e, s1) \<Rightarrow> (Answered inp (Inl (Wrap ''idempotent fetch'' e)), s1)
      | (Inr got, s1) \<Rightarrow> (Answered inp (Inr (got, False)), s1))"
| "client_next P (Answered inp r) s = (Answered inp r, s)"

text \<open>Undisturbed, the machine is \<open>Insert\<close>.\<close>

lemma Insert_as_steps:
  "(case client_next P (Submitting inp) s of (c, s1) \<Rightarrow> client_next P c s1) =
     (Answered inp (fst (Insert P inp s)), snd (Insert P inp s))"
  by (auto simp: Insert_def split: prod.splits sum.splits)

section \<open>Any number of submissions\<close>

inductive race :: "platform \<Rightarrow> client list \<times> db \<Rightarrow> client list \<times> db \<Rightarrow> bool" for P where
  arrival: "race P (cs, s) (cs @ [Submitting inp], s)"
| move: "i < length cs \<Longrightarrow> client_next P (cs ! i) s = (c, s') \<Longrightarrow> race P (cs, s) (cs[i := c], s')"
| worker: "race P (cs, s) (cs, snd (SetRevengeFlag k b s))"
| weather: "race P (cs, s) (cs, s\<lparr>clock := now, faults := fs\<rparr>)"

definition has_record :: "platform \<Rightarrow> db \<Rightarrow> uuid \<Rightarrow> trade \<Rightarrow> bool" where
  "has_record P s k t \<longleftrightarrow> (\<exists>r \<in> set (trades s). trade_id r = k \<and> core (scan P r) = core t)"

definition keeps_records :: "platform \<Rightarrow> db \<Rightarrow> db \<Rightarrow> bool" where
  "keeps_records P s s' \<longleftrightarrow> (trades_ok s \<longrightarrow> trades_ok s') \<and> (\<forall>k t. has_record P s k t \<longrightarrow> has_record P s' k t)"

lemma keeps_same: "same_tables s s' \<Longrightarrow> keeps_records P s s'"
  by (simp add: keeps_records_def has_record_def trades_ok_same same_tables_fields)

lemma keeps_append:
  assumes "insertable P inp" and "TradeID inp \<notin> trade_id ` set (trades s)"
    and "same_tables (s\<lparr>trades := trades s @ [built_row P inp (clock s)]\<rparr>) s'"
  shows "keeps_records P s s'"
  using assms built_row_fields [OF assms(1), of "clock s"] to_timestamptz_mod
  by (auto simp: keeps_records_def has_record_def same_tables_fields trades_ok_def)

lemma keeps_flag: "keeps_records P s (snd (SetRevengeFlag k b s))"
proof -
  define f where "f r = (if trade_id r = k then touch (clock s) (r\<lparr>revenge_flag := b\<rparr>) else r)" for r
  have f: "trade_id (f r) = trade_id r" "core (scan P (f r)) = core (scan P r)" for r
    by (simp_all add: f_def touch_def core_def scan_def)
  have "trades (snd (SetRevengeFlag k b s)) = trades s \<or> trades (snd (SetRevengeFlag k b s)) = map f (trades s)"
    using set_flag_effect [of s k b] by (auto simp: same_tables_fields f_def [abs_def])
  then have "has_record P s k' t \<Longrightarrow> has_record P (snd (SetRevengeFlag k b s)) k' t" for k' t
    by (auto simp: has_record_def f)
  then show ?thesis using SetRevengeFlag_trades_ok [of s k b] by (simp add: keeps_records_def)
qed

section \<open>What holds at every moment\<close>

fun settled :: "platform \<Rightarrow> db \<Rightarrow> client \<Rightarrow> bool" where
  "settled P s (Submitting inp) = True"
| "settled P s (Fetching inp) = (\<exists>t. has_record P s (TradeID inp) t)"
| "settled P s (Answered inp (Inl e)) = (e \<noteq> Wrap ''idempotent fetch'' ErrNotFound)"
| "settled P s (Answered inp (Inr (t, b))) =
     (has_record P s (TradeID inp) t \<and> (b \<longrightarrow> (\<exists>now. insertable P inp \<and> t = scan P (built_row P inp now))))"

fun winner :: "client \<Rightarrow> uuid option" where
  "winner (Answered inp (Inr (t, True))) = Some (TradeID inp)"
| "winner _ = None"

lemma settled_mono: "keeps_records P s s' \<Longrightarrow> settled P s c \<Longrightarrow> settled P s' c"
  by (cases "(P, s, c)" rule: settled.cases) (auto simp: keeps_records_def)

lemma winner_row: "settled P s c \<Longrightarrow> winner c = Some k \<Longrightarrow> k \<in> trade_id ` set (trades s)"
  by (cases c rule: winner.cases) (auto simp: has_record_def intro: rev_image_eqI)

lemma client_next_step:
  assumes "client_next P c s = (c', s')" and "settled P s c"
  shows "keeps_records P s s' \<and> settled P s' c' \<and>
    (winner c' = winner c \<or> (\<exists>k. winner c' = Some k \<and> k \<notin> trade_id ` set (trades s)))"
proof (cases c)
  case (Submitting inp)
  obtain p oc where d: "derive (arch P) inp = (p, oc)" by fastforce
  obtain f s1 where f: "next_fault s = (f, s1)" by fastforce
  then have same: "same_tables s s1" using same_tables_next [of s] by simp
  then have eq: "trades s1 = trades s" "clock s1 = clock s" by (simp_all add: same_tables_iff)
  show ?thesis
  proof (cases "f \<in> {FOk, FLost} \<and> (\<exists>v s2. insert_stmt P inp p oc s1 = Inr (v, s2))")
    case True
    then obtain v s2 where st: "insert_stmt P inp p oc s1 = Inr (v, s2)" by blast
    from d st show ?thesis
    proof (cases rule: insert_stmt_cases)
      case conflict
      obtain r where "r \<in> set (trades s)" "trade_id r = TradeID inp" using conflict(3) by (auto simp: eq)
      then have "\<exists>t. has_record P s (TradeID inp) t" by (auto simp: has_record_def)
      moreover have "s' = s1" "c' = Fetching inp \<or> (\<exists>e. c' = Answered inp (Inl (Wrap ''insert'' e)))"
        using assms(1) Submitting conflict st True by (auto simp: d f db_query_row_def)
      ultimately show ?thesis
        using keeps_same [OF same, of P] Submitting unfolding keeps_records_def by fastforce
    next
      case added
      let ?row = "built_row P inp (clock s)"
      have s2: "s2 = s1\<lparr>trades := trades s1 @ [?row]\<rparr>" using added(4) by (simp add: eq)
      have "s' = s2" "c' = Answered inp (Inr (scan P ?row, True)) \<or> (\<exists>e. c' = Answered inp (Inl (Wrap ''insert'' e)))"
        using assms(1) Submitting added st True by (auto simp: d f db_query_row_def eq)
      moreover have "keeps_records P s s2"
        using added(1,2) same unfolding s2 by (intro keeps_append) (auto simp: same_tables_iff eq)
      moreover have "has_record P s2 (TradeID inp) (scan P ?row)"
        using built_row_fields(2) [OF added(1)] by (simp add: s2 has_record_def)
      ultimately show ?thesis using added(1,2) Submitting by (auto simp: eq)
    qed
  next
    case False
    then have "s' = s1 \<and> (\<exists>e. c' = Answered inp (Inl (Wrap ''insert'' (Sql e))))"
      using assms(1) Submitting by (auto simp: d f db_query_row_def insert_stmt_NoRows split: fault.splits sum.splits prod.splits if_splits)
    then show ?thesis using keeps_same [OF same, of P] Submitting by auto
  qed
next
  case (Fetching inp)
  obtain x where x: "Get P (TradeID inp) s = (x, s')" using assms(1) Fetching by (auto split: prod.splits sum.splits)
  have same: "same_tables s s'" using same_tables_Get [of s P "TradeID inp"] x by simp
  show ?thesis
  proof (cases x)
    case (Inl e)
    obtain r where "r \<in> set (trades s)" "trade_id r = TradeID inp"
      using assms(2) Fetching by (auto simp: has_record_def)
    then have "TradeID inp \<in> trade_id ` set (trades s)" by (metis image_eqI)
    with x Inl have "e \<noteq> ErrNotFound" using Get_not_found [of P "TradeID inp" s s'] by auto
    then show ?thesis using assms Fetching x Inl keeps_same [OF same, of P] by auto
  next
    case (Inr t)
    from Get_Inr [OF x [unfolded Inr]] obtain r where r: "tbl_lookup trade_id (TradeID inp) (trades s) = Some r" "t = scan P r"
      by blast
    then have "has_record P s (TradeID inp) t" using tbl_lookup_key [OF r(1)] by (auto simp: has_record_def)
    then show ?thesis using assms Fetching x Inr keeps_same [OF same, of P] by (auto simp: keeps_records_def)
  qed
qed (use assms in \<open>simp_all add: keeps_same\<close>)

definition at_most_one_winner :: "client list \<Rightarrow> bool" where
  "at_most_one_winner cs \<longleftrightarrow> (\<forall>i j k. i < length cs \<longrightarrow> j < length cs \<longrightarrow>
     winner (cs ! i) = Some k \<longrightarrow> winner (cs ! j) = Some k \<longrightarrow> i = j)"

definition race_inv :: "platform \<Rightarrow> client list \<times> db \<Rightarrow> bool" where
  "race_inv P x = (case x of (cs, s) \<Rightarrow>
     trades_ok s \<and> (\<forall>c \<in> set cs. settled P s c) \<and> at_most_one_winner cs)"

lemma at_most_one_winner_update:
  assumes "at_most_one_winner cs" and "i < length cs"
    and "\<And>k j. winner c = Some k \<Longrightarrow> j < length cs \<Longrightarrow> j \<noteq> i \<Longrightarrow> winner (cs ! j) \<noteq> Some k"
  shows "at_most_one_winner (cs[i := c])"
  using assms unfolding at_most_one_winner_def by (auto simp: nth_list_update)

lemma race_inv_step:
  assumes "race P x y" and "race_inv P x"
  shows "race_inv P y"
  using assms(1)
proof cases
  case (arrival cs s inp)
  then show ?thesis
    using assms(2) by (auto simp: race_inv_def at_most_one_winner_def nth_append less_Suc_eq)
next
  case (move i cs s c s')
  from assms(2) move have inv: "trades_ok s" "\<And>c. c \<in> set cs \<Longrightarrow> settled P s c" "at_most_one_winner cs"
    by (auto simp: race_inv_def)
  have ci: "settled P s (cs ! i)" using inv(2) move(3) by simp
  note st = client_next_step [OF move(4) ci]
  have "winner (cs ! j) \<noteq> Some k" if k: "winner c = Some k" "j < length cs" "j \<noteq> i" for k j
  proof
    assume j: "winner (cs ! j) = Some k"
    have "k \<in> trade_id ` set (trades s)" using winner_row [OF inv(2) j] k(2) by simp
    with st k(1) have "winner (cs ! i) = Some k" by auto
    with inv(3) j k move(3) show False by (auto simp: at_most_one_winner_def)
  qed
  then have "at_most_one_winner (cs[i := c])" using inv(3) move(3) by (intro at_most_one_winner_update)
  moreover have "c' \<in> set (cs[i := c]) \<Longrightarrow> settled P s' c'" for c'
    using st inv(2) settled_mono [of P s s' c'] set_update_subset_insert [of cs i c] by auto
  ultimately show ?thesis using st inv(1) move(2) by (auto simp: race_inv_def keeps_records_def)
next
  case (worker cs s k b)
  then show ?thesis using assms(2) keeps_flag [of P s k b] settled_mono [OF keeps_flag [of P s k b]]
    by (auto simp: race_inv_def keeps_records_def)
next
  case (weather cs s fs now)
  have "keeps_records P s (s\<lparr>clock := now, faults := fs\<rparr>)"
    by (simp add: keeps_records_def has_record_def trades_ok_def)
  with weather show ?thesis using assms(2) settled_mono [of P s "s\<lparr>clock := now, faults := fs\<rparr>"]
    by (auto simp: race_inv_def keeps_records_def)
qed

lemma race_inv_reachable: "(race P)\<^sup>*\<^sup>* x y \<Longrightarrow> race_inv P x \<Longrightarrow> race_inv P y"
  by (induction rule: rtranclp_induct) (auto intro: race_inv_step)

lemma has_record_unique:
  assumes "trades_ok s" and "has_record P s k t" and "has_record P s k t'"
  shows "core t = core t'"
  using assms by (auto simp: has_record_def trades_ok_def distinct_map inj_on_def)

section \<open>Property\<close>

text \<open>
  C4: concurrent submissions agree. However many requests are in flight, with whatever identifiers and contents,
  statements interleaved in any order with each other, with the worker's flag updates and with failing connections:
  the primary key and the CHECK constraints hold throughout; every record answered is the stored one, up to revenge flag
  and time of update; all successful answers for one identifier agree, and at most one of them reports a new row, so a
  trade is announced at most once; the one that does gets back its own request; and the fetch after a conflict always
  finds its row.
\<close>
theorem concurrent_inserts:
  assumes "trades_ok s0" and "(race P)\<^sup>*\<^sup>* ([], s0) (cs, s)"
  shows "trades_ok s \<and>
    (\<forall>inp t b. Answered inp (Inr (t, b)) \<in> set cs \<longrightarrow>
       (\<exists>row. tbl_lookup trade_id (TradeID inp) (trades s) = Some row \<and> core t = core (scan P row)) \<and>
       (b \<longrightarrow> (\<exists>now. t = scan P (built_row P inp now) \<and> UserID t = UserID inp))) \<and>
    (\<forall>i j inp inp' t t' b b'. i < length cs \<and> j < length cs \<and> cs ! i = Answered inp (Inr (t, b)) \<and>
       cs ! j = Answered inp' (Inr (t', b')) \<and> TradeID inp = TradeID inp' \<longrightarrow>
         core t = core t' \<and> (b \<and> b' \<longrightarrow> i = j)) \<and>
    (\<forall>inp. Answered inp (Inl (Wrap ''idempotent fetch'' ErrNotFound)) \<notin> set cs)"
proof -
  have "race_inv P ([], s0)" using assms(1) by (simp add: race_inv_def at_most_one_winner_def)
  with assms(2) have "race_inv P (cs, s)" by (rule race_inv_reachable)
  then have inv: "trades_ok s" "\<And>c. c \<in> set cs \<Longrightarrow> settled P s c" "at_most_one_winner cs"
    by (auto simp: race_inv_def)
  have rec: "has_record P s (TradeID inp) t \<and> (b \<longrightarrow> (\<exists>now. insertable P inp \<and> t = scan P (built_row P inp now)))"
    if "Answered inp (Inr (t, b)) \<in> set cs" for inp t b using inv(2) [OF that] by simp
  have stored: "(\<exists>row. tbl_lookup trade_id (TradeID inp) (trades s) = Some row \<and> core t = core (scan P row)) \<and>
      (b \<longrightarrow> (\<exists>now. t = scan P (built_row P inp now) \<and> UserID t = UserID inp))"
    if in_cs: "Answered inp (Inr (t, b)) \<in> set cs" for inp t b
  proof -
    obtain r where r: "r \<in> set (trades s)" "trade_id r = TradeID inp" "core (scan P r) = core t"
      using rec [OF in_cs] by (auto simp: has_record_def)
    then have "tbl_lookup trade_id (TradeID inp) (trades s) = Some r"
      using inv(1) tbl_lookup_distinct [of trade_id "trades s" r] by (simp add: trades_ok_def)
    then show ?thesis using r(3) rec [OF in_cs] scan_built_row(2) by metis
  qed
  have agree: "core t = core t' \<and> (b \<and> b' \<longrightarrow> i = j)"
    if "i < length cs \<and> j < length cs \<and> cs ! i = Answered inp (Inr (t, b)) \<and> cs ! j = Answered inp' (Inr (t', b')) \<and>
      TradeID inp = TradeID inp'" for i j inp inp' t t' b b'
  proof -
    have "has_record P s (TradeID inp) t" "has_record P s (TradeID inp) t'"
      using rec that nth_mem [of i cs] nth_mem [of j cs] by metis+
    moreover have "b \<and> b' \<Longrightarrow> winner (cs ! i) = winner (cs ! j) \<and> winner (cs ! i) = Some (TradeID inp)"
      using that by simp
    ultimately show ?thesis using has_record_unique [OF inv(1)] inv(3) that unfolding at_most_one_winner_def by metis
  qed
  have found: "Answered inp (Inl (Wrap ''idempotent fetch'' ErrNotFound)) \<notin> set cs" for inp using inv(2) by fastforce
  show ?thesis
    by (rule conjI [OF inv(1)], rule conjI, use stored in simp, rule conjI, intro allI impI, erule agree, use found in simp)
qed

section \<open>Example\<close>

text \<open>Two requests for one trade; the later one loses the race and fetches after the worker raised the flag.\<close>

theorem concurrent_inserts_witness:
  "\<exists>cs s t t'. (race ref_platform)\<^sup>*\<^sup>* ([], empty_db) (cs, s) \<and>
     cs = [Answered sample_input (Inr (t, True)), Answered sample_input (Inr (t', False))] \<and> RevengeFlag t' \<and>
     core t = core t'"
proof -
  let ?P = ref_platform and ?C = "Submitting sample_input" and ?F = "Fetching sample_input"
  let ?row = "built_row ref_platform sample_input 0"
  let ?s1 = "empty_db\<lparr>trades := [?row]\<rparr>" and ?row2 = "touch 0 (?row\<lparr>revenge_flag := True\<rparr>)"
  let ?s2 = "empty_db\<lparr>trades := [?row2]\<rparr>"
  let ?A = "Answered sample_input (Inr (scan ?P ?row, True))" and ?B = "Answered sample_input (Inr (scan ?P ?row2, False))"
  define p oc where "p = Some (Fin 10)" and "oc = Some ''win''"
  then have d: "derive ref_arch sample_input = (p, oc)" "derive (arch ?P) sample_input = (p, oc)"
    by (simp_all add: sample_derive)
  have id: "trade_id ?row = 1" using built_row_fields(2) [OF sample_insertable] by simp
  have stmt: "insert_stmt ?P sample_input p oc empty_db = Inr (Some ?row, ?s1)"
    "insert_stmt ?P sample_input p oc ?s1 = Inr (None, ?s1)"
    using insertable_row [OF sample_insertable d(2), of 0] id by (simp_all add: insert_stmt_def)
  have n: "client_next ?P ?C empty_db = (?A, ?s1)" "client_next ?P ?C ?s1 = (?F, ?s1)" "client_next ?P ?F ?s2 = (?B, ?s2)"
    using id by (simp_all add: d db_simps stmt Get_healthy touch_def)
  have w: "snd (SetRevengeFlag 1 True ?s1) = ?s2"
    using id by (simp add: SetRevengeFlag_def db_simps set_flag_stmt_def)
  have "race ?P ([], empty_db) ([?C], empty_db)" "race ?P ([?C], empty_db) ([?C, ?C], empty_db)"
    using race.arrival [of ?P _ empty_db sample_input] by (metis append.simps)+
  moreover have "race ?P ([?C, ?C], empty_db) ([?A, ?C], ?s1)" "race ?P ([?A, ?C], ?s1) ([?A, ?F], ?s1)"
    "race ?P ([?A, ?F], ?s2) ([?A, ?B], ?s2)"
    using race.move [of 0 "[?C, ?C]" ?P empty_db] race.move [of 1 "[?A, ?C]" ?P ?s1] race.move [of 1 "[?A, ?F]" ?P ?s2] n by auto
  moreover have "race ?P ([?A, ?F], ?s1) ([?A, ?F], ?s2)" using race.worker [of ?P "[?A, ?F]" ?s1 1 True] w by simp
  ultimately have run: "(race ?P)\<^sup>*\<^sup>* ([], empty_db) ([?A, ?B], ?s2)" by (meson converse_rtranclp_into_rtranclp rtranclp.rtrancl_refl)
  define cs where "cs = [?A, ?B]"
  have ok: "trades_ok empty_db" by (simp add: trades_ok_def)
  have "i < length cs \<and> j < length cs \<and> cs ! i = Answered inp (Inr (t, b)) \<and> cs ! j = Answered inp' (Inr (t', b')) \<and>
      TradeID inp = TradeID inp' \<Longrightarrow> core t = core t'" for i j inp inp' t t' b b'
    using concurrent_inserts [OF ok run [folded cs_def]] by blast
  from this [of 0 1 _ _ True _ _ False] have "core (scan ?P ?row) = core (scan ?P ?row2)" by (simp add: cs_def)
  moreover have "RevengeFlag (scan ?P ?row2)" by (simp add: scan_def touch_def)
  ultimately show ?thesis using run by blast
qed

end
