(* ===== verification/Detector_Race.thy ===== *)
theory Detector_Race imports Overtrading begin

text \<open>
  Two workers of one consumer group, or a worker and one that claimed its message, may examine two entries of a user at
  the same time. Here the detector of \<open>internal/metrics/overtrading.go\<close> is a state machine that runs one statement per
  step, and a schedule says which of two detectors moves next.
\<close>

section \<open>One detector, statement by statement\<close>

datatype detector = Counting | Deduping int | Recording int | Bumping int | Ended "go_error + unit"

fun detector_next ::
    "platform \<Rightarrow> (uuid \<Rightarrow> instant \<Rightarrow> instant \<Rightarrow> int \<Rightarrow> 'q \<Rightarrow> (go_error + unit) \<times> 'q) option
     \<Rightarrow> uuid \<Rightarrow> instant \<Rightarrow> detector \<Rightarrow> db \<times> 'q \<Rightarrow> detector \<times> db \<times> 'q" where
  "detector_next P publisher u t Counting (s, q) =
     (case db_query_row (read_row (\<lambda>s. Some (opens_in u (t - minutes 30) t s))) s of
        (Inl e, s1) \<Rightarrow> (Ended (Inl (Wrap ''count opens in window'' (Sql e))), s1, q)
      | (Inr cnt, s1) \<Rightarrow> (if cnt \<le> 10 then Ended (Inr ()) else Deduping cnt, s1, q))"
| "detector_next P publisher u t (Deduping cnt) (s, q) =
     (case db_query_row (read_row (\<lambda>s. Some (events_in u (t - minutes 30) t s))) s of
        (Inl e, s1) \<Rightarrow> (Ended (Inl (Wrap ''dedupe check'' (Sql e))), s1, q)
      | (Inr existing, s1) \<Rightarrow> (if 0 < existing then Ended (Inr ()) else Recording cnt, s1, q))"
| "detector_next P publisher u t (Recording cnt) (s, q) =
     (case AddOvertradingEvent P u (t - minutes 30) t cnt s of
        (Inl e, s1) \<Rightarrow> (Ended (Inl e), s1, q)
      | (Inr _, s1) \<Rightarrow> (Bumping cnt, s1, q))"
| "detector_next P publisher u t (Bumping cnt) (s, q) =
     (case IncrementOvertradingCount u s of
        (Inl e, s1) \<Rightarrow> (Ended (Inl e), s1, q)
      | (Inr _, s1) \<Rightarrow>
          (Ended (Inr ()), s1, case publisher of None \<Rightarrow> q | Some pub \<Rightarrow> snd (pub u (t - minutes 30) t cnt q)))"
| "detector_next P publisher u t (Ended r) sq = (Ended r, sq)"

text \<open>The detector of entry \<open>t1\<close> moves on \<open>False\<close>, that of \<open>t2\<close> on \<open>True\<close>.\<close>

fun schedule ::
    "platform \<Rightarrow> (uuid \<Rightarrow> instant \<Rightarrow> instant \<Rightarrow> int \<Rightarrow> 'q \<Rightarrow> (go_error + unit) \<times> 'q) option
     \<Rightarrow> uuid \<Rightarrow> instant \<times> instant \<Rightarrow> bool list \<Rightarrow> (detector \<times> detector) \<times> db \<times> 'q \<Rightarrow> (detector \<times> detector) \<times> db \<times> 'q" where
  "schedule P pub u ts [] x = x"
| "schedule P pub u ts (False # bs) ((d1, d2), sq) =
     (case detector_next P pub u (fst ts) d1 sq of (d, sq1) \<Rightarrow> schedule P pub u ts bs ((d, d2), sq1))"
| "schedule P pub u ts (True # bs) ((d1, d2), sq) =
     (case detector_next P pub u (snd ts) d2 sq of (d, sq1) \<Rightarrow> schedule P pub u ts bs ((d1, d), sq1))"

text \<open>Undisturbed, the machine is the calculator.\<close>

lemma Overtrading_as_steps:
  "schedule P pub u (t1, t2) [False, False, False, False] ((Counting, d), s, q) =
     (case Overtrading_calc P pub u t1 s q of (r, s', q') \<Rightarrow> ((Ended r, d), s', q'))"
  by (auto simp: Overtrading_calc_def Let_def split: prod.splits sum.splits option.splits)

section \<open>The race\<close>

lemma opens_in_cong: "trades s' = trades s \<Longrightarrow> opens_in u a b s' = opens_in u a b s"
  by (simp add: opens_in_def)

lemma events_in_cong: "overtrading_events s' = overtrading_events s \<Longrightarrow> events_in u a b s' = events_in u a b s"
  by (simp add: events_in_def)

lemma detector_reads:
  assumes "faults s = []"
  shows "10 < opens_in u (t - minutes 30) t s \<Longrightarrow>
      detector_next P pub u t Counting (s, q) = (Deduping (opens_in u (t - minutes 30) t s), s, q)"
    and "events_in u (t - minutes 30) t s = 0 \<Longrightarrow> detector_next P pub u t (Deduping c) (s, q) = (Recording c, s, q)"
    and "0 < events_in u (t - minutes 30) t s \<Longrightarrow> detector_next P pub u t (Deduping c) (s, q) = (Ended (Inr ()), s, q)"
  using assms by (simp_all add: db_simps read_row_def)

text \<open>Recording appends one event of the user that ends at the entry.\<close>

lemma detector_records:
  assumes "faults s = []" and "fresh_ids P s" and "0 \<le> c" and "c < 2 ^ 31"
  shows "\<exists>s' e. detector_next P pub u t (Recording c) (s, q) = (Bumping c, s', q) \<and>
    overtrading_events s' = overtrading_events s @ [e] \<and> ot_user_id e = u \<and> window_end e = to_timestamptz t \<and>
    event_id e = new_uuid P (draws s) \<and> draws s' = Suc (draws s) \<and> faults s' = [] \<and> trades s' = trades s \<and>
    (\<forall>v. overtrading_of v s' = overtrading_of v s)"
  using assms
  by (simp add: AddOvertradingEvent_def Let_def db_simps insert_event_stmt_def to_int4_def fresh_ids_def overtrading_of_def)

lemma detector_bumps:
  assumes "faults s = []" and "0 \<le> overtrading_of u s" and "overtrading_of u s < 2 ^ 31 - 1"
  shows "\<exists>s' q'. detector_next P pub u t (Bumping c) (s, q) = (Ended (Inr ()), s', q') \<and> faults s' = [] \<and>
    overtrading_events s' = overtrading_events s \<and> trades s' = trades s \<and> draws s' = draws s \<and>
    overtrading_of u s' = overtrading_of u s + 1"
proof -
  obtain s' where "IncrementOvertradingCount u s = (Inr (), s')" "faults s' = []" "overtrading_events s' = overtrading_events s"
    "trades s' = trades s" "draws s' = draws s" "overtrading_of u s' = overtrading_of u s + 1"
    using overtrading_bump [OF assms] by auto
  then show ?thesis by simp
qed

lemma events_in_pos:
  assumes "e \<in> set (overtrading_events s)" and "ot_user_id e = u" and "to_timestamptz a \<le> window_end e"
    and "window_end e \<le> to_timestamptz b"
  shows "0 < events_in u a b s"
proof -
  have "events_in u a b s \<noteq> 0" unfolding events_in_def count_rows_eq_0_iff using assms by auto
  moreover have "0 \<le> events_in u a b s" by (simp add: events_in_def)
  ultimately show ?thesis by simp
qed

text \<open>
  C36: the deduplication is a read followed by a write, and two detectors can pass it together. For two entries of a
  user less than half an hour apart, each the last of more than ten in its half hour and with no event in sight: one
  detector after the other records one event and raises the counter by one; statement by statement in turn they record
  two, whose windows end within the same half hour, and raise it by two.
\<close>
theorem detection_race:
  assumes "faults s = []" and "10 < opens_in u (t1 - minutes 30) t1 s" and "10 < opens_in u (t2 - minutes 30) t2 s"
    and "opens_in u (t1 - minutes 30) t1 s < 2 ^ 31" and "opens_in u (t2 - minutes 30) t2 s < 2 ^ 31"
    and "events_in u (t1 - minutes 30) t1 s = 0" and "events_in u (t2 - minutes 30) t2 s = 0"
    and "to_timestamptz t1 \<le> to_timestamptz t2" and "to_timestamptz t2 \<le> to_timestamptz t1 + minutes 30"
    and "fresh_ids P s" and "new_uuid P (Suc (draws s)) \<notin> insert (new_uuid P (draws s)) (event_id ` set (overtrading_events s))"
    and "0 \<le> overtrading_of u s" and "overtrading_of u s < 2 ^ 31 - 2"
  shows "(\<exists>s' q'. schedule P pub u (t1, t2) [False, False, False, False, True, True, True, True] ((Counting, Counting), s, q) =
        ((Ended (Inr ()), Ended (Inr ())), s', q') \<and>
      user_events u s' = user_events u s @ [to_timestamptz t1] \<and> overtrading_of u s' = overtrading_of u s + 1) \<and>
    (\<exists>s' q'. schedule P pub u (t1, t2) [False, True, False, True, False, True, False, True] ((Counting, Counting), s, q) =
        ((Ended (Inr ()), Ended (Inr ())), s', q') \<and>
      user_events u s' = user_events u s @ [to_timestamptz t1, to_timestamptz t2] \<and>
      overtrading_of u s' = overtrading_of u s + 2 \<and> \<not> spaced u s')"
proof -
  let ?c1 = "opens_in u (t1 - minutes 30) t1 s" and ?c2 = "opens_in u (t2 - minutes 30) t2 s"
  note reads = detector_reads [OF assms(1), of u _ P pub]
  have c: "0 \<le> ?c1" "0 \<le> ?c2" using assms(2,3) by simp_all
  have r0: "0 \<le> overtrading_of u s" "overtrading_of u s < 2 ^ 31 - 1" using assms(12,13) by simp_all
  from detector_records [OF assms(1,10) c(1) assms(4), of pub u t1 q] obtain s1 e1 where
    rec1: "detector_next P pub u t1 (Recording ?c1) (s, q) = (Bumping ?c1, s1, q)"
    and s1: "overtrading_events s1 = overtrading_events s @ [e1]" "ot_user_id e1 = u" "window_end e1 = to_timestamptz t1"
      "event_id e1 = new_uuid P (draws s)" "draws s1 = Suc (draws s)" "faults s1 = []" "trades s1 = trades s"
      "overtrading_of u s1 = overtrading_of u s" by fastforce
  have ev1: "user_events u s1 = user_events u s @ [to_timestamptz t1]" using s1(1-3) by (simp add: user_events_def)
  have seq: "\<exists>s' q'. schedule P pub u (t1, t2) [False, False, False, False, True, True, True, True] ((Counting, Counting), s, q) =
        ((Ended (Inr ()), Ended (Inr ())), s', q') \<and>
      user_events u s' = user_events u s @ [to_timestamptz t1] \<and> overtrading_of u s' = overtrading_of u s + 1"
  proof -
    from detector_bumps [OF s1(6), of u P pub t1 ?c1 q] r0 s1(8) obtain s2 q2 where
      b: "detector_next P pub u t1 (Bumping ?c1) (s1, q) = (Ended (Inr ()), s2, q2)" "faults s2 = []"
      "overtrading_events s2 = overtrading_events s1" "trades s2 = trades s1" "overtrading_of u s2 = overtrading_of u s + 1" by auto
    have "10 < opens_in u (t2 - minutes 30) t2 s2" using assms(3) opens_in_cong [of s2 s] b(4) s1(7) by simp
    moreover have "0 < events_in u (t2 - minutes 30) t2 s2"
      using assms(8,9) b(3) s1(1-3) by (intro events_in_pos [of e1]) (auto simp: to_timestamptz_sub)
    ultimately show ?thesis
      using reads(1) [OF assms(2)] reads(2) [OF assms(6)] rec1 b ev1 detector_reads(1,3) [OF b(2), of u t2 P pub]
      by (auto simp: user_events_def simp del: detector_next.simps) (simp add: detector_next.simps(5))
  qed
  have both: "\<exists>s' q'. schedule P pub u (t1, t2) [False, True, False, True, False, True, False, True] ((Counting, Counting), s, q) =
        ((Ended (Inr ()), Ended (Inr ())), s', q') \<and>
      user_events u s' = user_events u s @ [to_timestamptz t1, to_timestamptz t2] \<and> overtrading_of u s' = overtrading_of u s + 2"
  proof -
    have f1: "fresh_ids P s1" using assms(11) s1(1,4,5) by (simp add: fresh_ids_def)
    from detector_records [OF s1(6) f1 c(2) assms(5), of pub u t2 q] obtain s2 e2 where
      rec2: "detector_next P pub u t2 (Recording ?c2) (s1, q) = (Bumping ?c2, s2, q)"
        "overtrading_events s2 = overtrading_events s1 @ [e2]" "ot_user_id e2 = u" "window_end e2 = to_timestamptz t2"
        "faults s2 = []" "overtrading_of u s2 = overtrading_of u s1" by fastforce
    from detector_bumps [OF rec2(5), of u P pub t1 ?c1 q] r0 s1(8) rec2(6) obtain s3 q3 where
      b1: "detector_next P pub u t1 (Bumping ?c1) (s2, q) = (Ended (Inr ()), s3, q3)" "faults s3 = []"
      "overtrading_events s3 = overtrading_events s2" "overtrading_of u s3 = overtrading_of u s + 1" by auto
    from detector_bumps [OF b1(2), of u P pub t2 ?c2 q3] assms(12,13) b1(4) obtain s4 q4 where
      b2: "detector_next P pub u t2 (Bumping ?c2) (s3, q3) = (Ended (Inr ()), s4, q4)"
      "overtrading_events s4 = overtrading_events s3" "overtrading_of u s4 = overtrading_of u s + 2" by auto
    have "user_events u s4 = user_events u s @ [to_timestamptz t1, to_timestamptz t2]"
      using b2(2) b1(3) rec2(2-4) s1(1-3) by (simp add: user_events_def)
    then show ?thesis
      using reads(1) [OF assms(2)] reads(1) [OF assms(3)] reads(2) [OF assms(6)] reads(2) [OF assms(7)] rec1 rec2(1) b1(1) b2(1,3)
      by (simp del: detector_next.simps)
  qed
  moreover have "\<not> spaced u s'" if "user_events u s' = user_events u s @ [to_timestamptz t1, to_timestamptz t2]" for s'
    using that assms(9) by (simp add: spaced_def sorted_wrt_append)
  ultimately show ?thesis using seq by blast
qed

section \<open>Example\<close>

text \<open>One entry examined by two workers at once, as when the second one claimed the message of the first.\<close>

theorem detection_race_witness:
  "\<exists>s' q'. schedule ref_platform None 2 (11000000, 11000000) [False, True, False, True, False, True, False, True]
       ((Counting, Counting), busy_db, ()) = ((Ended (Inr ()), Ended (Inr ())), s', q') \<and> overtrading_of 2 s' = 2"
proof -
  have fresh: "fresh_ids ref_platform busy_db" "new_uuid ref_platform (Suc (draws busy_db)) \<notin>
      insert (new_uuid ref_platform (draws busy_db)) (event_id ` set (overtrading_events busy_db))"
    by (simp_all add: fresh_ids_def ref_platform_def)
  have opens: "10 < opens_in 2 (11000000 - minutes 30) 11000000 busy_db" "opens_in 2 (11000000 - minutes 30) 11000000 busy_db < 2 ^ 31"
    unfolding busy_db_opens by simp_all
  have quiet: "events_in 2 (11000000 - minutes 30) 11000000 busy_db = 0" "0 \<le> overtrading_of 2 busy_db"
    "overtrading_of 2 busy_db < 2 ^ 31 - 2" by (simp_all add: busy_db_reads)
  have near: "to_timestamptz 11000000 \<le> to_timestamptz 11000000 + minutes 30" by (simp add: minutes_def)
  from detection_race [OF busy_db_faults(1) opens(1,1,2,2) quiet(1,1) order_refl near fresh quiet(2,3), of None "()"]
  obtain s' q' where "schedule ref_platform None 2 (11000000, 11000000) [False, True, False, True, False, True, False, True]
      ((Counting, Counting), busy_db, ()) = ((Ended (Inr ()), Ended (Inr ())), s', q')"
    and "overtrading_of 2 s' = overtrading_of 2 busy_db + 2" by blast
  then show ?thesis by (intro exI conjI) (assumption, simp add: busy_db_reads)
qed

end
