(* ===== verification/Spec2Isabelle.thy ===== *)
theory Spec2Isabelle imports System Pipeline Interleaving Detector_Race begin

text \<open>
  A verification library for the trade journal backend (Go): an HTTP API that stores trades in PostgreSQL and
  announces each new one on a Redis stream, and a worker that reads the stream and keeps five behavioural metrics per
  user up to date. The definitions follow the code under \<open>src/\<close> file by file and function by function; the
  theorems numbered C1 to C40 are what the library states about them. Each stands in the theory of the component it
  is about, with a worked example beside it where it has hypotheses.

  \<^bold>\<open>The program and its theories.\<close>

  \<^item> \<open>migrations/*.sql\<close>: \<open>Schema\<close>. One record per row, one list of rows per table in physical order, the enum
    types, the coercions of the column types (\<open>NUMERIC(p,s)\<close>, \<open>INTEGER\<close>, \<open>TIMESTAMPTZ\<close>, \<open>TEXT\<close>), the CHECK
    constraints, and the ways pgx runs a statement: \<open>db_exec\<close>, \<open>db_query_row\<close> and \<open>db_query\<close>. Every SQL
    statement of the code is a function over the record \<open>db\<close>.
  \<^item> \<open>internal/trades\<close>: \<open>Trades\<close> (\<open>types.go\<close>, \<open>validate.go\<close>, \<open>repo.go\<close>: \<open>validate\<close>, \<open>derive\<close>, \<open>Insert\<close>, \<open>Get\<close>,
    \<open>SetRevengeFlag\<close>), \<open>Pnl\<close> (the profit in double arithmetic), \<open>Trade_Store\<close> (the repository's contract, the locale
    \<open>trade_store\<close>, and its interpretation), \<open>Trade_Handler\<close> (\<open>handler.go\<close>: \<open>create\<close>, \<open>get\<close>, \<open>publish_task\<close>).
  \<^item> \<open>internal/metrics\<close>: \<open>Metrics_Repo\<close> (\<open>repo.go\<close>), \<open>Calculators\<close> (the five calculators), \<open>Backfill\<close>
    (\<open>backfill.go\<close>), \<open>Metrics_Handler\<close> (\<open>handler.go\<close>). The facts about them are in \<open>Metric_Facts\<close> (with the locale
    \<open>tally\<close> of a counter), \<open>Plan_Adherence\<close>, \<open>Revenge\<close>, \<open>Overtrading\<close> and \<open>Emotion_Tilt\<close>.
  \<^item> \<open>internal/queue\<close>: \<open>Queue\<close> (\<open>producer.go\<close>, \<open>consumer.go\<close>, \<open>queue.go\<close>), \<open>Stream_Laws\<close> (what the code relies on
    in Redis).
  \<^item> \<open>internal/worker\<close>, \<open>cmd/worker\<close>: \<open>Worker\<close> (\<open>process\<close>, \<open>handle\<close>, \<open>recoverStuck\<close>, and \<open>Run\<close> as the step relation
    \<open>run_step\<close>), \<open>Delivery\<close> and \<open>Redelivery\<close> (how often a message is processed, and what that does to the metrics),
    \<open>Boot\<close> (\<open>worker_boot\<close>).
  \<^item> \<open>internal/httpx\<close>, \<open>internal/middleware\<close>, \<open>internal/auth\<close>, \<open>internal/health\<close>: \<open>Httpx\<close>, \<open>Middleware\<close>, \<open>Auth\<close>,
    \<open>Health\<close>. A handler maps a request and the state \<open>web\<close> of the process (database, pending publications, log
    lines, response) to the way it ended and the next state; a middleware maps handlers to handlers.
  \<^item> \<open>internal/config\<close>, \<open>internal/logger\<close>, \<open>internal/db\<close>, \<open>cmd/api\<close>: \<open>Config\<close>, \<open>Migrations\<close> (\<open>db.go\<close>), \<open>Seed\<close>
    (\<open>seed.go\<close>), \<open>Api\<close> (the router and \<open>serve\<close>), \<open>Boot\<close> (\<open>run\<close>: the boot, then listening
    and draining as the step relation \<open>api_step\<close>).
  \<^item> The language: \<open>Go_Float\<close> (\<open>float64\<close>, the locale \<open>rounding\<close>), \<open>Go_Time\<close> (the calendar, \<open>Time.Format\<close>,
    \<open>time.Parse\<close>). \<open>Prelude\<close> has the collections, the list and sorting facts and the locale \<open>keyed_table\<close> that every
    table with a primary key interprets.
  \<^item> The whole: \<open>Schema_Invariant\<close> (\<open>schema_ok\<close> and its preservation by every statement), \<open>System\<close> (the worker's loop
    among requests, restarts, publications, the passing of time and faults), \<open>Pipeline\<close> (a trade from the request to
    the metrics), \<open>Interleaving\<close> and \<open>Detector_Race\<close> (submissions, and overtrading checks, one statement per step).

  \<^bold>\<open>How the parts interact.\<close> A POST runs through \<open>Trace\<close>, \<open>Logger_mw\<close>, \<open>Recoverer\<close>, the router and
  \<open>Authenticator\<close> into \<open>create\<close>, which calls \<open>Insert\<close> and, for a new row, starts a publication (\<open>web_tasks\<close>). Run
  later, \<open>publish_task\<close> writes \<open>event_fields\<close> to the stream. The worker reads them back with \<open>decodeValues\<close>,
  \<open>handle\<close> dispatches the event to the calculators and acknowledges it unless one of them failed; unacknowledged
  messages come back through \<open>ClaimStuck\<close>. The calculators write the tables that \<open>getMetrics\<close> reads. At boot the
  API migrates, seeds, and fills the same tables in bulk when they are empty.

  \<^bold>\<open>What the theorems show.\<close>

  \<^item> The database: whatever runs in whatever order, keys stay unique, the CHECK constraints hold, counters stay in
    their range and tilts between 0 and 1 (C1); inserts are idempotent (C3), also when submissions interleave statement
    by statement with each other and with the worker (C4), and faithful (C20); a write adds at most the caller's own row
    (C7); migrations are applied once and in order (C9), the seed is loaded whole or not at all (C15), and a boot of a
    filled database changes no table (C23).
  \<^item> The derived values, each against what it is meant to be: the profit and its label (C8), the revenge flag (C10),
    overtrading (C11, C17, C18, C27), plan adherence (C12), win rates (C13), session tilt (C14), the time series (C19),
    and the agreement of the worker with the backfill (C13, C28).
  \<^item> The queue: at most five attempts (C5), when a message is acknowledged (C16), the round trip of an event (C26).
  \<^item> The interface: authentication (C6, C25), tenancy (C7, C21), answers, trace identifiers and log lines (C24, C30),
    the metrics endpoint (C29), the configuration (C32).
  \<^item> Composition: a posted trade goes through the stream and the worker's turn to exactly one counter (C2), it stays
    readable and is announced once (C22), the whole system keeps the schema (C1).
  \<^item> Where SQL leaves the order of rows open (equal \<open>entry_at\<close>, equal \<open>exit_at\<close>) the model takes the order of the table, which
    a state may have any way; the results of C2, C12, C14 and C38 are stated up to such ties.
  \<^item> What the code does where it falls short of its intention: C31 and C33 to C40; among them a race of two
    overtrading detectors (C36).

  The interfaces are locales: \<open>keyed_table\<close> (a table with a primary key), \<open>rounding\<close> (a monotone rounding),
  \<open>trade_store\<close> (insert and read by identifier), \<open>tally\<close> (a counter per key) and \<open>handler_law\<close> (what the router asks
  of the handlers and guards it mounts, interpreted for three laws: trace identifiers, answers, the schema). Each is
  interpreted on the model's own definitions, and the properties use the interpretations' facts.

  \<^bold>\<open>State, failure and time.\<close> The state is passed explicitly. A fallible operation returns \<open>go_error + 'a\<close>, or
  \<open>sql_error + 'a\<close> for a statement; wrapped errors are values, so that \<open>errors.Is\<close> can be computed. Each statement
  consumes one entry of the script \<open>faults\<close> of the database, which makes it fail before or after its effect or break
  while rows are read; theorems without a hypothesis on the script hold for every connection. Identifiers are 128-bit
  words; PostgreSQL integers are checked against 32 bits and raise an error out of range; doubles are rationals rounded
  to 53 bits, numerics exact rationals rounded to their scale; instants are nanoseconds, cut to microseconds by the
  columns and to milliseconds by the stream. No definition uses fuel: the loops of the code run over lists and are
  structural recursions, and the consumer loop and the serving process, which may run for ever, are step relations.

  \<^bold>\<open>Parameters.\<close> Code that is not under \<open>src/\<close> is an argument of the model: the Redis commands (\<open>redis\<close>, with the
  laws of \<open>Stream_Laws\<close> as hypotheses where a property needs them, and a small server that meets them for the
  examples), the JWT library (\<open>jwt_lib\<close>), chi's matching of paths (\<open>chi\<close>), the uuid package and \<open>strconv\<close>'s shortest
  decimals (\<open>platform\<close>; relied on for normal doubles only, \<open>shortest_decimals\<close>), the file system and the file server, what PostgreSQL makes of the text of a migration
  (\<open>run_sql\<close>), how pgx and go-redis read a connection string, and Go's order of map iteration. What the processor
  decides, fused multiply-add and out-of-range conversions, is \<open>go_arch\<close>.

  \<^bold>\<open>Not modelled.\<close> Bytes on the wire: bodies are values, \<open>encoding/json\<close> and \<open>encoding/csv\<close> are taken as
  decoded. In \<open>System\<close> a request runs as one step, as does a turn of the worker, and the publishing goroutine is a
  step of its own; statements that interleave are modelled in \<open>Interleaving\<close> and \<open>Detector_Race\<close> only. Deadlines
  show only as commands that fail. The landing page's HTML, the
  JSON that \<open>slog\<close> writes and the lines that boot, loader and worker log; the query planner's indexes;
  \<open>schema_migrations.applied_at\<close>; prices in the seed that are hexadecimal or not a number; the constructors
  \<open>NewHandler\<close>, \<open>NewRepo\<close>, \<open>NewConsumer\<close> and \<open>NewProducer\<close>, which only build records. Tests, the load test and the
  deployment files are not part of the program.
\<close>

end
